(* ===== verification/Prelude.thy ===== *)
theory Prelude
  imports Complex_Main "HOL-Library.AList" "HOL-Library.Char_ord" "HOL-Library.List_Lexorder"
begin

section \<open>Prelude: what the components share\<close>

text \<open>
  The Python features every component uses, and the generic lemmas about them.
  \<^item> \<open>exn\<close> lists the exceptions the connector raises or lets through.
  \<^item> An effectful call is a function from the state to a result and the new state;
    the state is kept when the call raises (\<open>Inl\<close>), as Python keeps the
    mutations made before a raise. \<open>io_bind\<close> sequences two calls.
  \<^item> A \<open>dict\<close> is an association list with \<open>AList.update\<close>: an existing key
    keeps its place and a new one goes to the end, which is Python's insertion order.
  \<^item> \<open>uniq\<close> is \<open>list(dict.fromkeys(xs))\<close>: first occurrences, in order.
  \<^item> Times read from a clock are rationals; the rounding of Python floats is not modelled.
  \<^item> A string is a list of characters below 256, compared by code point.
\<close>

type_synonym seconds = rat

text \<open>Exceptions. The string of a constructor is the part of the message that names a value.\<close>

datatype exn =
    ValueError string
  | KeyError string
  | OSErr string
  | RuntimeErr string
  | TransportErr
  | ExternalErr string
  | UnregisteredSource string
  | OktaApiError "int option" "string option" string
  | AuthErr string
  | MissingConfig
  | ColdStartRefused
  | OpeningBoundRefused
  | Cancelled

type_synonym ('a, 's) io = "'s \<Rightarrow> (exn + 'a) \<times> 's"

subsection \<open>Sequencing effectful calls\<close>

definition io_bind :: "('a, 's) io \<Rightarrow> ('a \<Rightarrow> ('b, 's) io) \<Rightarrow> ('b, 's) io" where
  "io_bind m f s = (case m s of (Inl e, s') \<Rightarrow> (Inl e, s') | (Inr x, s') \<Rightarrow> f x s')"

definition io_return :: "'a \<Rightarrow> ('a, 's) io" where
  "io_return x s = (Inr x, s)"

definition io_raise :: "exn \<Rightarrow> ('a, 's) io" where
  "io_raise e s = (Inl e, s)"

text \<open>An update of the state that cannot raise.\<close>

definition io_modify :: "('s \<Rightarrow> 's) \<Rightarrow> (unit, 's) io" where
  "io_modify f s = (Inr (), f s)"

text \<open>\<open>try: m; except BaseException: h; raise\<close>.\<close>

definition io_on_error :: "('a, 's) io \<Rightarrow> ('s \<Rightarrow> 's) \<Rightarrow> ('a, 's) io" where
  "io_on_error m h s = (case m s of (Inl e, s') \<Rightarrow> (Inl e, h s') | (Inr x, s') \<Rightarrow> (Inr x, s'))"

text \<open>\<open>for x in xs: f(x)\<close>, stopping at the first raise.\<close>

fun io_each :: "('a \<Rightarrow> (unit, 's) io) \<Rightarrow> 'a list \<Rightarrow> (unit, 's) io" where
  "io_each f [] s = (Inr (), s)"
| "io_each f (x # xs) s = (case f x s of (Inl e, s') \<Rightarrow> (Inl e, s') | (Inr _, s') \<Rightarrow> io_each f xs s')"

text \<open>\<open>[f(x) for x in xs]\<close>.\<close>

fun io_map :: "('a \<Rightarrow> ('b, 's) io) \<Rightarrow> 'a list \<Rightarrow> ('b list, 's) io" where
  "io_map f [] s = (Inr [], s)"
| "io_map f (x # xs) s =
     (case f x s of
        (Inl e, s') \<Rightarrow> (Inl e, s')
      | (Inr y, s') \<Rightarrow>
          (case io_map f xs s' of (Inl e, s'') \<Rightarrow> (Inl e, s'') | (Inr ys, s'') \<Rightarrow> (Inr (y # ys), s'')))"

named_theorems io_simps \<open>unfolding of the sequencing combinators\<close>

lemma io_bind_simps [io_simps, simp]:
  "m s = (Inl e, s') \<Longrightarrow> io_bind m f s = (Inl e, s')"
  "m s = (Inr x, s') \<Longrightarrow> io_bind m f s = f x s'"
  by (simp_all add: io_bind_def)

lemma io_return_bind [io_simps, simp]: "io_bind (io_return x) f s = f x s"
  by (simp add: io_bind_def io_return_def)

lemma io_modify_bind [io_simps, simp]: "io_bind (io_modify g) f s = f () (g s)"
  by (simp add: io_bind_def io_modify_def)

lemma io_raise_bind [io_simps, simp]: "io_bind (io_raise e) f s = (Inl e, s)"
  by (simp add: io_bind_def io_raise_def)

lemma io_bind_Inr_iff:
  "io_bind m f s = (Inr y, t) \<longleftrightarrow> (\<exists>x s'. m s = (Inr x, s') \<and> f x s' = (Inr y, t))"
  by (auto simp: io_bind_def split: prod.splits sum.splits)

lemma io_bind_Inl_iff:
  "io_bind m f s = (Inl e, t) \<longleftrightarrow>
     m s = (Inl e, t) \<or> (\<exists>x s'. m s = (Inr x, s') \<and> f x s' = (Inl e, t))"
  by (auto simp: io_bind_def split: prod.splits sum.splits)

text \<open>
  The rule every preservation proof uses: a state predicate \<open>I\<close> kept by the first call and,
  after it, by the second, is kept by the sequence.
\<close>

lemma io_bind_keeps:
  assumes "I s" and "\<And>r s'. I s \<Longrightarrow> m s = (r, s') \<Longrightarrow> I s'"
    and "\<And>x s' r t. I s' \<Longrightarrow> f x s' = (r, t) \<Longrightarrow> I t"
    and "io_bind m f s = (r, t)"
  shows "I t"
proof (cases "m s")
  case (Pair q s')
  show ?thesis
  proof (cases q)
    case (Inl e)
    with Pair assms(4) have "t = s'" by (simp add: io_bind_def)
    with Pair assms(1,2) show ?thesis by blast
  next
    case (Inr x)
    with Pair assms(4) have "f x s' = (r, t)" by (simp add: io_bind_def)
    with Pair assms(1-3) show ?thesis by blast
  qed
qed

lemma io_each_keeps:
  assumes "I s" and "\<And>x s r t. x \<in> set xs \<Longrightarrow> I s \<Longrightarrow> f x s = (r, t) \<Longrightarrow> I t"
    and "io_each f xs s = (r, t)"
  shows "I t"
  using assms
proof (induction xs arbitrary: s)
  case Nil
  then show ?case by simp
next
  case (Cons x xs)
  obtain q s' where fx: "f x s = (q, s')" by (cases "f x s")
  have I': "I s'" using Cons.prems(1) Cons.prems(2) [of x s q s'] fx by simp
  show ?case
  proof (cases q)
    case (Inl e)
    with fx I' Cons.prems(3) show ?thesis by simp
  next
    case (Inr u)
    with fx Cons.prems(3) have "io_each f xs s' = (r, t)" by simp
    then show ?thesis
      using Cons.IH [OF I'] Cons.prems(2) by (metis list.set_intros(2))
  qed
qed

subsection \<open>Triples\<close>

text \<open>
  From a state with \<open>P\<close>, a call that returns \<open>x\<close> ends in a state with \<open>Q x\<close>, and one that raises
  \<open>e\<close> in a state with \<open>R e\<close>.
\<close>

definition triple ::
  "('s \<Rightarrow> bool) \<Rightarrow> ('a, 's) io \<Rightarrow> ('a \<Rightarrow> 's \<Rightarrow> bool) \<Rightarrow> (exn \<Rightarrow> 's \<Rightarrow> bool) \<Rightarrow> bool" where
  "triple P m Q R \<longleftrightarrow> (\<forall>s. P s \<longrightarrow> (case m s of (Inr x, t) \<Rightarrow> Q x t | (Inl e, t) \<Rightarrow> R e t))"

named_theorems triple_intros \<open>rules that decompose a triple along the program\<close>

lemma tripleI:
  assumes "\<And>s x t. P s \<Longrightarrow> m s = (Inr x, t) \<Longrightarrow> Q x t" and "\<And>s e t. P s \<Longrightarrow> m s = (Inl e, t) \<Longrightarrow> R e t"
  shows "triple P m Q R"
  using assms by (auto simp: triple_def split: prod.splits sum.splits)

lemma triple_Inr: "triple P m Q R \<Longrightarrow> P s \<Longrightarrow> m s = (Inr x, t) \<Longrightarrow> Q x t"
  by (force simp: triple_def)

lemma triple_Inl: "triple P m Q R \<Longrightarrow> P s \<Longrightarrow> m s = (Inl e, t) \<Longrightarrow> R e t"
  by (force simp: triple_def)

lemma triple_weaken:
  assumes "triple P' m Q' R'" and "\<And>s. P s \<Longrightarrow> P' s" and "\<And>x s. Q' x s \<Longrightarrow> Q x s" and "\<And>e s. R' e s \<Longrightarrow> R e s"
  shows "triple P m Q R"
  using assms(1) by (intro tripleI) (blast intro: assms(2-4) dest: triple_Inr triple_Inl)+

lemma triple_bind [triple_intros]:
  assumes "triple P m Q R" and "\<And>x. triple (Q x) (f x) S R"
  shows "triple P (io_bind m f) S R"
  using triple_Inr [OF assms(1)] triple_Inl [OF assms(1)] triple_Inr [OF assms(2)] triple_Inl [OF assms(2)]
  by (intro tripleI; simp add: io_bind_Inr_iff io_bind_Inl_iff; blast)

lemma triple_return: "(\<And>s. P s \<Longrightarrow> Q x s) \<Longrightarrow> triple P (io_return x) Q R"
  by (auto simp: triple_def io_return_def)

lemma triple_raise: "(\<And>s. P s \<Longrightarrow> R e s) \<Longrightarrow> triple P (io_raise e) Q R"
  by (auto simp: triple_def io_raise_def)

lemma triple_modify: "(\<And>s. P s \<Longrightarrow> Q () (f s)) \<Longrightarrow> triple P (io_modify f) Q R"
  by (auto simp: triple_def io_modify_def)

lemma triple_on_error:
  assumes "triple P m Q R'" and "\<And>e s. R' e s \<Longrightarrow> R e (h s)"
  shows "triple P (io_on_error m h) Q R"
  using triple_Inr [OF assms(1)] triple_Inl [OF assms(1)] assms(2)
  by (intro tripleI) (auto simp: io_on_error_def split: prod.splits sum.splits)

lemma triple_if [triple_intros]:
  "(b \<Longrightarrow> triple P m Q R) \<Longrightarrow> (\<not> b \<Longrightarrow> triple P n Q R) \<Longrightarrow> triple P (if b then m else n) Q R"
  by simp

lemma triple_option [triple_intros]:
  assumes "v = None \<Longrightarrow> triple P m Q R" and "\<And>x. v = Some x \<Longrightarrow> triple P (f x) Q R"
  shows "triple P (case v of None \<Rightarrow> m | Some x \<Rightarrow> f x) Q R"
  using assms by (cases v) simp_all

lemma triple_sum [triple_intros]:
  assumes "\<And>x. v = Inl x \<Longrightarrow> triple P (g x) Q R" and "\<And>x. v = Inr x \<Longrightarrow> triple P (f x) Q R"
  shows "triple P (case v of Inl x \<Rightarrow> g x | Inr x \<Rightarrow> f x) Q R"
  using assms by (cases v) simp_all

text \<open>A call whose argument is read from the state.\<close>

lemma triple_get: "(\<And>k. triple P (g k) Q R) \<Longrightarrow> triple P (\<lambda>s. g (f s) s) Q R"
  by (simp add: triple_def)

lemma triple_ex: "(\<And>x. triple (P x) m Q R) \<Longrightarrow> triple (\<lambda>s. \<exists>x. P x s) m Q R"
  unfolding triple_def by (metis (no_types))

lemma triple_some: "(\<And>X. A X \<Longrightarrow> triple (P X) m Q R) \<Longrightarrow> triple (\<lambda>s. \<exists>X. P X s \<and> A X) m Q R"
  by (rule tripleI) (blast dest: triple_Inr triple_Inl)+

lemma triple_pure:
  assumes "b \<Longrightarrow> triple P m Q R"
  shows "triple (\<lambda>s. P s \<and> b) m Q R"
  using assms by (cases b) (auto simp: triple_def)

text \<open>A comprehension whose calls keep \<open>P\<close> and return values related to their arguments.\<close>

lemma triple_map:
  assumes "\<And>x. triple P (f x) (\<lambda>y s. P s \<and> A x y) R"
  shows "triple P (io_map f xs) (\<lambda>ys s. P s \<and> list_all2 A xs ys) R"
proof (induction xs)
  case Nil
  then show ?case by (simp add: triple_def)
next
  case (Cons x xs)
  show ?case
  proof (rule tripleI)
    fix s ys t assume P: "P s" and run: "io_map f (x # xs) s = (Inr ys, t)"
    from run obtain y zs s' where y: "f x s = (Inr y, s')" "io_map f xs s' = (Inr zs, t)" "ys = y # zs"
      by (auto split: prod.splits sum.splits)
    have "P s'" "A x y" using triple_Inr [OF assms P y(1)] by auto
    with triple_Inr [OF Cons.IH _ y(2)] y(3) show "P t \<and> list_all2 A (x # xs) ys" by simp
  next
    fix s e t assume P: "P s" and run: "io_map f (x # xs) s = (Inl e, t)"
    then consider "f x s = (Inl e, t)" | y s' where "f x s = (Inr y, s')" "io_map f xs s' = (Inl e, t)"
      by (auto split: prod.splits sum.splits)
    then show "R e t"
    proof cases
      case 1
      with triple_Inl [OF assms P] show ?thesis by blast
    next
      case 2
      with triple_Inr [OF assms P 2(1)] triple_Inl [OF Cons.IH] show ?thesis by blast
    qed
  qed
qed

subsection \<open>Results that may be exceptions\<close>

definition res_bind :: "exn + 'a \<Rightarrow> ('a \<Rightarrow> exn + 'b) \<Rightarrow> exn + 'b" where
  "res_bind r f = (case r of Inl e \<Rightarrow> Inl e | Inr x \<Rightarrow> f x)"

text \<open>\<open>[f(x) for x in xs]\<close> for a function without effects.\<close>

fun res_map :: "('a \<Rightarrow> exn + 'b) \<Rightarrow> 'a list \<Rightarrow> exn + 'b list" where
  "res_map f [] = Inr []"
| "res_map f (x # xs) = res_bind (f x) (\<lambda>y. res_bind (res_map f xs) (\<lambda>ys. Inr (y # ys)))"

lemma res_bind_simps [simp]: "res_bind (Inl e) f = Inl e" "res_bind (Inr x) f = f x"
  by (simp_all add: res_bind_def)

lemma res_bind_Inr_iff: "res_bind r f = Inr y \<longleftrightarrow> (\<exists>x. r = Inr x \<and> f x = Inr y)"
  by (cases r) auto

lemma res_map_total [simp]: "res_map (\<lambda>x. Inr (f x)) xs = Inr (map f xs)"
  by (induction xs) simp_all

lemma res_map_Inr_iff: "res_map f xs = Inr ys \<longleftrightarrow> map f xs = map Inr ys"
  by (induction xs arbitrary: ys) (auto simp: res_bind_Inr_iff Cons_eq_map_conv)

subsection \<open>Python's \<open>list(dict.fromkeys(xs))\<close>\<close>

fun uniq_from :: "'a set \<Rightarrow> 'a list \<Rightarrow> 'a list" where
  "uniq_from S [] = []"
| "uniq_from S (x # xs) = (if x \<in> S then uniq_from S xs else x # uniq_from (insert x S) xs)"

definition uniq :: "'a list \<Rightarrow> 'a list" where
  "uniq xs = uniq_from {} xs"

lemma set_uniq_from [simp]: "set (uniq_from S xs) = set xs - S"
  by (induction xs arbitrary: S) auto

lemma distinct_uniq_from [simp]: "distinct (uniq_from S xs)"
  by (induction xs arbitrary: S) auto

lemma set_uniq [simp]: "set (uniq xs) = set xs"
  by (simp add: uniq_def)

lemma distinct_uniq [simp]: "distinct (uniq xs)"
  by (simp add: uniq_def)

lemma uniq_from_distinct: "distinct xs \<Longrightarrow> set xs \<inter> S = {} \<Longrightarrow> uniq_from S xs = xs"
  by (induction xs arbitrary: S) auto

lemma uniq_distinct [simp]: "distinct xs \<Longrightarrow> uniq xs = xs"
  by (simp add: uniq_def uniq_from_distinct)

lemma uniq_Nil [simp]: "uniq [] = []"
  by (simp add: uniq_def)

text \<open>
  Dropping the elements of \<open>D\<close> in the same pass as the repeats, as the in-memory store does,
  is dropping them after the repeats are gone, as the SQLite store does.
\<close>

lemma filter_uniq_from_insert:
  "P x \<Longrightarrow> filter (\<lambda>u. \<not> P u) (uniq_from (insert x S) xs) = filter (\<lambda>u. \<not> P u) (uniq_from S xs)"
proof (induction xs arbitrary: S)
  case Nil
  then show ?case by simp
next
  case (Cons y ys)
  then show ?case
    by (auto simp: insert_commute)
qed

subsection \<open>Association lists as dictionaries\<close>

lemma map_of_update [simp]: "map_of (AList.update k v al) = (map_of al)(k \<mapsto> v)"
  by (rule update_conv')

lemma fst_update_set: "fst ` set (AList.update k v al) = insert k (fst ` set al)"
  by (simp add: dom_update)

lemma in_fst_set_iff: "k \<in> fst ` set al \<longleftrightarrow> map_of al k \<noteq> None"
  by (simp add: map_of_eq_None_iff)

text \<open>A scan of the entries for those that satisfy \<open>P\<close> finds a key just if its value does.\<close>

lemma scan_keys_iff:
  assumes "distinct (map fst al)"
  shows "k \<in> set (map fst (filter (\<lambda>(k, v). P k v) al)) \<longleftrightarrow>
    (case map_of al k of None \<Rightarrow> False | Some v \<Rightarrow> P k v)"
  using assms
proof (induction al)
  case Nil
  then show ?case by simp
next
  case (Cons p al)
  obtain a b where p: "p = (a, b)" by (cases p)
  have "map_of al a = None" using Cons.prems by (simp add: p map_of_eq_None_iff)
  with Cons.IH Cons.prems show ?case by (auto simp: p)
qed

lemma distinct_filter_keys: "distinct (map fst al) \<Longrightarrow> distinct (map fst (filter P al))"
  by (induction al) auto

text \<open>\<open>d.setdefault(k, []).append(x)\<close>.\<close>

definition dict_append :: "'k \<Rightarrow> 'v \<Rightarrow> ('k \<times> 'v list) list \<Rightarrow> ('k \<times> 'v list) list" where
  "dict_append k x al = AList.update k ((case map_of al k of None \<Rightarrow> [] | Some xs \<Rightarrow> xs) @ [x]) al"

lemma map_of_dict_append:
  "map_of (dict_append k x al) k' =
     (if k' = k then Some ((case map_of al k of None \<Rightarrow> [] | Some xs \<Rightarrow> xs) @ [x]) else map_of al k')"
  by (simp add: dict_append_def)

lemma distinct_dict_append: "distinct (map fst al) \<Longrightarrow> distinct (map fst (dict_append k x al))"
  by (simp add: dict_append_def distinct_update)

subsection \<open>Decimal numerals\<close>

text \<open>\<open>str(n)\<close> for an integer.\<close>

definition digit :: "nat \<Rightarrow> char" where
  "digit d = char_of (48 + d mod 10)"

fun nat_str :: "nat \<Rightarrow> string" where
  "nat_str n = (if n < 10 then [digit n] else nat_str (n div 10) @ [digit (n mod 10)])"

declare nat_str.simps [simp del]

definition int_str :: "int \<Rightarrow> string" where
  "int_str i = (if i < 0 then ''-'' @ nat_str (nat (- i)) else nat_str (nat i))"

text \<open>\<open>f"{n:0wd}"\<close>: at least \<open>w\<close> digits, padded with zeros.\<close>

definition pad_left :: "nat \<Rightarrow> string \<Rightarrow> string" where
  "pad_left w s = replicate (w - length s) (CHR ''0'') @ s"

definition digit_val :: "char \<Rightarrow> nat" where
  "digit_val c = of_char c - 48"

definition is_digit :: "char \<Rightarrow> bool" where
  "is_digit c \<longleftrightarrow> 48 \<le> (of_char c :: nat) \<and> (of_char c :: nat) \<le> 57"

text \<open>\<open>int(s)\<close> for a string of digits.\<close>

definition digits_val :: "string \<Rightarrow> nat" where
  "digits_val s = foldl (\<lambda>a c. 10 * a + digit_val c) 0 s"

lemma of_char_digit [simp]: "(of_char (digit d) :: nat) = 48 + d mod 10"
proof -
  have "48 + d mod 10 < 256" using mod_less_divisor [of 10 d] by linarith
  then show ?thesis by (simp add: digit_def)
qed

lemma is_digit_digit [simp]: "is_digit (digit d)"
  using mod_less_divisor [of 10 d] by (simp add: is_digit_def)

lemma digit_val_digit [simp]: "digit_val (digit d) = d mod 10"
  by (simp add: digit_val_def)

lemma digits_val_snoc [simp]: "digits_val (s @ [c]) = 10 * digits_val s + digit_val c"
  by (simp add: digits_val_def)

lemma digits_val_Nil [simp]: "digits_val [] = 0"
  by (simp add: digits_val_def)

lemma digits_val_nat_str [simp]: "digits_val (nat_str n) = n"
proof (induction n rule: nat_str.induct)
  case (1 n)
  show ?case
  proof (cases "n < 10")
    case True
    then show ?thesis using digits_val_snoc [of "[]" "digit n"] by (simp add: nat_str.simps)
  next
    case False
    with "1.IH" show ?thesis by (subst nat_str.simps) simp
  qed
qed

lemma nat_str_inj: "nat_str m = nat_str n \<Longrightarrow> m = n"
  by (metis digits_val_nat_str)

lemma nat_str_digits: "c \<in> set (nat_str n) \<Longrightarrow> is_digit c"
proof (induction n rule: nat_str.induct)
  case (1 n)
  then show ?case
    by (subst (asm) (2) nat_str.simps) (auto split: if_splits)
qed

lemma nat_str_nonempty [simp]: "nat_str n \<noteq> []"
  by (subst nat_str.simps) simp

lemma length_nat_str: "n < 10 ^ k \<Longrightarrow> 0 < k \<Longrightarrow> length (nat_str n) \<le> k"
proof (induction k arbitrary: n)
  case 0
  then show ?case by simp
next
  case (Suc k)
  show ?case
  proof (cases "n < 10")
    case True
    then show ?thesis by (simp add: nat_str.simps)
  next
    case False
    then have k: "0 < k" using Suc.prems by (cases k) simp_all
    have "n div 10 < 10 ^ k" using Suc.prems(1) by (simp add: less_mult_imp_div_less mult.commute)
    then have "length (nat_str (n div 10)) \<le> k" using k by (rule Suc.IH)
    with False show ?thesis by (subst nat_str.simps) simp
  qed
qed

lemma digits_val_zeros: "digits_val (replicate k (CHR ''0'') @ s) = digits_val s"
  by (induction k) (simp_all add: digits_val_def digit_val_def)

lemma digits_val_pad [simp]: "digits_val (pad_left w s) = digits_val s"
  by (simp add: pad_left_def digits_val_zeros)

lemma pad_left_inj: "pad_left w (nat_str m) = pad_left w (nat_str n) \<Longrightarrow> m = n"
  by (metis digits_val_pad digits_val_nat_str)

lemma length_pad: "length s \<le> w \<Longrightarrow> length (pad_left w s) = w"
  by (simp add: pad_left_def)

end
