(* ===== verification/OcsfSchema.thy ===== *)
theory OcsfSchema
  imports Naming
begin

section \<open>OCSF 1.3.0 as data\<close>

text \<open>
  Models \<open>src/ocsf_connector/ocsf/v1_3_0.yaml\<close> (the seven classes, their activities,
  required objects and attributes) and the tables \<open>ocsf/schema.py\<close> derives from it at
  import. The lemmas relate the schema to the custom source names of \<open>sinks/naming.py\<close>:
  every class the schema defines has exactly one source.
\<close>

record ocsf_class =
  oc_name :: string
  oc_category_uid :: int
  oc_activities :: "int list"
  oc_required :: "string list"
  oc_attributes :: "string list"

definition schema_classes :: "(int \<times> ocsf_class) list" where
  "schema_classes =
   [(0, \<lparr>oc_name = ''base_event'', oc_category_uid = 0, oc_activities = [0, 99],
         oc_required = [], oc_attributes = []\<rparr>),
    (3001, \<lparr>oc_name = ''account_change'', oc_category_uid = 3,
         oc_activities = [0, 1, 2, 3, 4, 5, 6, 7, 8, 9, 10, 11, 99],
         oc_required = [''user''],
         oc_attributes = [''user'', ''actor'', ''src_endpoint'', ''http_request'']\<rparr>),
    (3002, \<lparr>oc_name = ''authentication'', oc_category_uid = 3,
         oc_activities = [0, 1, 2, 3, 4, 5, 6, 99],
         oc_required = [''user''],
         oc_attributes = [''user'', ''actor'', ''src_endpoint'', ''http_request'', ''service'',
           ''session'', ''is_mfa'']\<rparr>),
    (3003, \<lparr>oc_name = ''authorize_session'', oc_category_uid = 3, oc_activities = [0, 1, 2, 99],
         oc_required = [''user''],
         oc_attributes = [''user'', ''actor'', ''src_endpoint'', ''http_request'', ''session'',
           ''privileges'', ''group'']\<rparr>),
    (3004, \<lparr>oc_name = ''entity_management'', oc_category_uid = 3,
         oc_activities = [0, 1, 2, 3, 4, 5, 6, 7, 8, 9, 10, 11, 12, 13, 99],
         oc_required = [''entity''],
         oc_attributes = [''entity'', ''actor'', ''src_endpoint'', ''http_request'']\<rparr>),
    (3005, \<lparr>oc_name = ''user_access'', oc_category_uid = 3, oc_activities = [0, 1, 2, 99],
         oc_required = [''user'', ''privileges''],
         oc_attributes = [''user'', ''actor'', ''src_endpoint'', ''http_request'', ''privileges'']\<rparr>),
    (3006, \<lparr>oc_name = ''group_management'', oc_category_uid = 3,
         oc_activities = [0, 1, 2, 3, 4, 5, 6, 99],
         oc_required = [''group''],
         oc_attributes = [''group'', ''user'', ''actor'', ''src_endpoint'', ''http_request'',
           ''privileges'']\<rparr>)]"

definition VERSION :: string where
  "VERSION = ''1.3.0''"

definition BASE_ATTRIBUTES :: "string list" where
  "BASE_ATTRIBUTES =
    [''activity_id'', ''category_uid'', ''class_uid'', ''message'', ''metadata'', ''severity_id'',
     ''status'', ''status_detail'', ''status_id'', ''time'', ''type_uid'', ''unmapped'']"

text \<open>The per-class tables: one column of the schema each, under the class uid.\<close>

definition class_column :: "(ocsf_class \<Rightarrow> 'a) \<Rightarrow> (int \<times> 'a) list" where
  "class_column f = map (\<lambda>(uid, d). (uid, f d)) schema_classes"

definition CLASS_CATEGORY_UID :: "(int \<times> int) list" where
  "CLASS_CATEGORY_UID = class_column oc_category_uid"

definition ACTIVITY_IDS :: "(int \<times> int list) list" where
  "ACTIVITY_IDS = class_column oc_activities"

definition CLASS_ATTRIBUTES :: "(int \<times> string list) list" where
  "CLASS_ATTRIBUTES = class_column oc_attributes"

definition REQUIRED_OBJECTS :: "(int \<times> string list) list" where
  "REQUIRED_OBJECTS = class_column oc_required"

definition CLASS_NAMES :: "(int \<times> string) list" where
  "CLASS_NAMES = class_column oc_name"

lemma map_of_class_column: "map_of (class_column f) c = map_option f (map_of schema_classes c)"
  by (simp add: class_column_def map_of_map)

lemma schema_uids: "map fst schema_classes = [0, 3001, 3002, 3003, 3004, 3005, 3006]"
  by (simp add: schema_classes_def)

lemma schema_uids_named: "map fst CLASS_SOURCES = map fst schema_classes"
  by (simp add: schema_uids CLASS_SOURCES_def)

lemma schema_class_cases:
  assumes "map_of schema_classes c = Some d"
  obtains "c = 0" | "c = 3001" | "c = 3002" | "c = 3003" | "c = 3004" | "c = 3005" | "c = 3006"
  using assms by (auto simp: schema_classes_def split: if_splits)

text \<open>Every object a class requires is one of its attributes, so filling it in is legal.\<close>

lemma required_are_attributes:
  "map_of REQUIRED_OBJECTS c = Some req \<Longrightarrow> map_of CLASS_ATTRIBUTES c = Some attrs \<Longrightarrow>
     set req \<subseteq> set attrs"
  by (auto simp: REQUIRED_OBJECTS_def CLASS_ATTRIBUTES_def map_of_class_column schema_classes_def
      split: if_splits)

subsection \<open>Properties of the source names\<close>


text \<open>Every class of the schema, and no other, has a custom source, and two classes never
  share one: writing a record by its class never mixes classes in a Security Lake source.\<close>

theorem sources_partition_classes:
  "(\<exists>n. source_name p c = Inr n) = (map_of schema_classes c \<noteq> None) \<and>
   inj_on (source_name p) (dom (map_of schema_classes))"
proof
  have dom: "dom (map_of CLASS_SOURCES) = dom (map_of schema_classes)"
    using schema_uids_named by (metis dom_map_of_conv_image_fst image_set)
  show "(\<exists>n. source_name p c = Inr n) = (map_of schema_classes c \<noteq> None)"
    using dom [THEN eqset_imp_iff, of c] by (auto simp: source_name_def domIff split: option.split)
  show "inj_on (source_name p) (dom (map_of schema_classes))"
    unfolding dom [symmetric]
  proof (rule inj_onI)
    fix a b assume "a \<in> dom (map_of CLASS_SOURCES)" "b \<in> dom (map_of CLASS_SOURCES)"
      and "source_name p a = source_name p b"
    then obtain s where "map_of CLASS_SOURCES a = Some s" "map_of CLASS_SOURCES b = Some s"
      by (auto simp: source_name_def)
    then have "(a, s) \<in> set CLASS_SOURCES" "(b, s) \<in> set CLASS_SOURCES" by (auto dest: map_of_SomeD)
    then show "a = b" by (auto simp: CLASS_SOURCES_def)
  qed
qed

end
