(* ===== verification/ObjectStore.thy ===== *)
theory ObjectStore
  imports Prelude
begin

section \<open>Where a finished object goes\<close>

text \<open>
  \<open>src/ocsf_connector/sinks/objects.py\<close>. The locale \<open>object_store\<close> is the seam: one \<open>put\<close>,
  whose success leaves exactly one object at the place the source and the key name, and whose
  failure leaves that place with the old object or the new one and every other place alone.
  \<open>LocalObjectStore\<close> interprets it; \<open>S3Store\<close> shows the same laws of \<open>S3ObjectStore\<close>
  from S3's.
\<close>

locale object_store =
  fixes put :: "string \<Rightarrow> string \<Rightarrow> 'b \<Rightarrow> (unit, 'o) io"
    and contents :: "'o \<Rightarrow> string \<Rightarrow> 'b option"
    and place :: "string \<Rightarrow> string \<Rightarrow> string"
  assumes put_done: "put s k d st = (Inr u, st') \<Longrightarrow> contents st' = (contents st)(place s k \<mapsto> d)"
    and put_raised: "put s k d st = (Inl e, st') \<Longrightarrow>
      contents st' = contents st \<or> contents st' = (contents st)(place s k \<mapsto> d)"
    and place_inj: "CHR ''/'' \<notin> set s \<Longrightarrow> CHR ''/'' \<notin> set s' \<Longrightarrow>
      place s k = place s' k' \<Longrightarrow> s = s' \<and> k = k'"
begin

lemma put_frame:
  "put s k d st = (r, st') \<Longrightarrow> p \<noteq> place s k \<Longrightarrow> contents st' p = contents st p"
  using put_done put_raised by (cases r) (metis fun_upd_other)+

lemma put_again:
  "put s k d st = (Inr u, st') \<Longrightarrow> put s k d st' = (Inr u', st'') \<Longrightarrow> contents st'' = contents st'"
  using put_done by simp

lemma put_retry:
  "put s k d st = (Inl e, st') \<Longrightarrow> put s k d st' = (Inr u, st'') \<Longrightarrow>
     contents st'' = (contents st)(place s k \<mapsto> d)"
  using put_done put_raised by (metis fun_upd_upd)

end

subsection \<open>Files under a root\<close>

record 'b local_store =
  ls_files :: "(string \<times> 'b) list"
  ls_written :: "string list"

definition path_for :: "string \<Rightarrow> string \<Rightarrow> string" where
  "path_for source key = ''ext/'' @ source @ ''/'' @ key"

definition local_put :: "string \<Rightarrow> string \<Rightarrow> 'b \<Rightarrow> (unit, 'b local_store) io" where
  "local_put source key data st =
     (Inr (), st\<lparr>ls_files := AList.update (path_for source key) data (ls_files st),
                ls_written := ls_written st @ [path_for source key]\<rparr>)"

definition stored_keys :: "'b local_store \<Rightarrow> string list" where
  "stored_keys st = sort (map fst (ls_files st))"

definition local_read :: "string \<Rightarrow> 'b local_store \<Rightarrow> exn + 'b" where
  "local_read key st = (case map_of (ls_files st) key of None \<Rightarrow> Inl (OSErr key) | Some d \<Rightarrow> Inr d)"

definition local_contents :: "'b local_store \<Rightarrow> string \<Rightarrow> 'b option" where
  "local_contents st = map_of (ls_files st)"

lemma split_at_slash:
  assumes "CHR ''/'' \<notin> set s" and "CHR ''/'' \<notin> set s'" and "s @ CHR ''/'' # k = s' @ CHR ''/'' # k'"
  shows "s = s' \<and> k = k'"
  using assms
proof (induction s arbitrary: s')
  case Nil
  then show ?case by (cases s') auto
next
  case (Cons c s)
  then show ?case by (cases s') auto
qed

lemma path_for_inj:
  "CHR ''/'' \<notin> set s \<Longrightarrow> CHR ''/'' \<notin> set s' \<Longrightarrow> path_for s k = path_for s' k' \<Longrightarrow> s = s' \<and> k = k'"
  by (rule split_at_slash) (simp_all add: path_for_def)

interpretation local: object_store local_put local_contents path_for
proof (unfold_locales, goal_cases)
  case (1 s k d st u st')
  then show ?case by (auto simp: local_put_def local_contents_def)
next
  case (2 s k d st e st')
  then show ?case by (simp add: local_put_def)
next
  case (3 s s' k k')
  then show ?case by (rule path_for_inj)
qed

text \<open>A rewrite is logged twice and stored once.\<close>

lemma local_put_keys:
  assumes "distinct (map fst (ls_files st))" and "local_put s k d st = (r, st')"
  shows "distinct (map fst (ls_files st'))" and "set (stored_keys st') = insert (path_for s k) (set (stored_keys st))"
    and "ls_written st' = ls_written st @ [path_for s k]"
proof -
  have st': "st' = st\<lparr>ls_files := AList.update (path_for s k) d (ls_files st),
      ls_written := ls_written st @ [path_for s k]\<rparr>"
    using assms(2) by (simp add: local_put_def)
  show "distinct (map fst (ls_files st'))" using assms(1) by (simp add: st' distinct_update)
  show "set (stored_keys st') = insert (path_for s k) (set (stored_keys st))"
    by (simp add: st' stored_keys_def fst_update_set)
  show "ls_written st' = ls_written st @ [path_for s k]" by (simp add: st')
qed

end
