(* ===== verification/S3Store.thy ===== *)
theory S3Store
  imports ObjectStore
begin

section \<open>S3 and the provider roles\<close>

text \<open>
  \<open>src/ocsf_connector/sinks/s3.py\<close>: the per-source credentials (\<open>ProviderRoles\<close>) and the
  store that writes with them (\<open>S3ObjectStore\<close>). AWS is a parameter: \<open>aws\<close> holds the clock,
  \<open>sts.assume_role\<close>, the client factory and \<open>put_object\<close>, over a state \<open>'e\<close> of the outside
  world. The lemmas say when cached credentials are used and when they are renewed, and that
  \<open>put\<close> has the laws of an object store whenever S3's \<open>PutObject\<close> has them.
\<close>

record credentials =
  cr_access_key :: string
  cr_secret_key :: string
  cr_session_token :: string
  cr_expiration :: seconds

record ('c, 'b, 'e) aws =
  aws_clock :: "(seconds, 'e) io"
  aws_assume_role :: "string \<Rightarrow> string \<Rightarrow> string \<Rightarrow> (credentials, 'e) io"
  aws_client :: "string \<Rightarrow> credentials \<Rightarrow> 'c"
  aws_put_object :: "'c \<Rightarrow> string \<Rightarrow> string \<Rightarrow> 'b \<Rightarrow> (unit, 'e) io"

definition RENEWAL_MARGIN :: rat where
  "RENEWAL_MARGIN = 8 / 10"

record 'c assumed =
  as_client :: 'c
  as_renew_at :: seconds

record 'c provider_roles =
  pr_roles :: "(string \<times> string) list"
  pr_external_id :: string
  pr_region :: string
  pr_session_name :: string
  pr_assumed :: nat
  pr_cached :: "(string \<times> 'c assumed) list"

text \<open>The state of a call is the roles and the outside world; a call of AWS changes the second.\<close>

definition outside :: "('a, 'e) io \<Rightarrow> ('a, 'p \<times> 'e) io" where
  "outside m = (\<lambda>(p, e). case m e of (r, e') \<Rightarrow> (r, (p, e')))"

definition assume_for ::
  "('c, 'b, 'e) aws \<Rightarrow> string \<Rightarrow> ('c assumed, 'c provider_roles \<times> 'e) io" where
  "assume_for api source = (\<lambda>(pr, e).
     case map_of (pr_roles pr) source of
       None \<Rightarrow> (Inl (UnregisteredSource source), (pr, e))
     | Some role_arn \<Rightarrow>
         io_bind (outside (aws_clock api)) (\<lambda>requested_at.
         io_bind (outside (aws_assume_role api role_arn (pr_session_name pr) (pr_external_id pr))) (\<lambda>cr.
         let lifetime = cr_expiration cr - requested_at;
             a = \<lparr>as_client = aws_client api (pr_region pr) cr,
                  as_renew_at = requested_at + lifetime * RENEWAL_MARGIN\<rparr>
         in io_bind (io_modify (\<lambda>(pr, e). (pr\<lparr>pr_cached := AList.update source a (pr_cached pr),
                                             pr_assumed := pr_assumed pr + 1\<rparr>, e)))
              (\<lambda>_. io_return a))) (pr, e))"

definition client_for ::
  "('c, 'b, 'e) aws \<Rightarrow> string \<Rightarrow> ('c, 'c provider_roles \<times> 'e) io" where
  "client_for api source = (\<lambda>(pr, e).
     case map_of (pr_cached pr) source of
       None \<Rightarrow> io_bind (assume_for api source) (\<lambda>a. io_return (as_client a)) (pr, e)
     | Some cached \<Rightarrow>
         io_bind (outside (aws_clock api)) (\<lambda>now.
           if now < as_renew_at cached then io_return (as_client cached)
           else io_bind (assume_for api source) (\<lambda>a. io_return (as_client a))) (pr, e))"

record 'c s3_store =
  s3_bucket :: string
  s3_region :: string
  s3_client :: 'c
  s3_roles :: "'c provider_roles option"
  s3_written :: "string list"

definition prefix_for :: "string \<Rightarrow> string" where
  "prefix_for source = ''ext/'' @ source"

definition key_for :: "string \<Rightarrow> string \<Rightarrow> string" where
  "key_for source key = prefix_for source @ ''/'' @ key"

definition s3_client_for ::
  "('c, 'b, 'e) aws \<Rightarrow> string \<Rightarrow> ('c, 'c s3_store \<times> 'e) io" where
  "s3_client_for api source = (\<lambda>(st, e).
     case s3_roles st of
       None \<Rightarrow> (Inr (s3_client st), (st, e))
     | Some pr \<Rightarrow>
         (case client_for api source (pr, e) of
            (r, (pr', e')) \<Rightarrow> (r, (st\<lparr>s3_roles := Some pr'\<rparr>, e'))))"

definition s3_put ::
  "('c, 'b, 'e) aws \<Rightarrow> string \<Rightarrow> string \<Rightarrow> 'b \<Rightarrow> (unit, 'c s3_store \<times> 'e) io" where
  "s3_put api source key data =
     io_bind (s3_client_for api source) (\<lambda>client (st, e).
       (case aws_put_object api client (s3_bucket st) (key_for source key) data e of
          (Inl x, e') \<Rightarrow> (Inl x, (st, e'))
        | (Inr _, e') \<Rightarrow> (Inr (), (st\<lparr>s3_written := s3_written st @ [key_for source key]\<rparr>, e'))))"

subsection \<open>Which credentials are used\<close>

lemma client_cached:
  assumes "map_of (pr_cached pr) source = Some c" and "aws_clock api e = (Inr now, e')"
    and "now < as_renew_at c"
  shows "client_for api source (pr, e) = (Inr (as_client c), (pr, e'))"
  using assms by (simp add: client_for_def io_bind_def outside_def io_return_def)

lemma client_unregistered:
  assumes "map_of (pr_roles pr) source = None" and "map_of (pr_cached pr) source = None"
  shows "client_for api source (pr, e) = (Inl (UnregisteredSource source), (pr, e))"
  using assms by (simp add: client_for_def assume_for_def io_bind_def)

text \<open>An assumed role: what is cached, and that it is dropped before the credentials expire.\<close>

lemma assume_for_Inr:
  assumes "assume_for api source (pr, e) = (Inr a, (pr', e'))"
  obtains role requested cr e1 where "map_of (pr_roles pr) source = Some role"
    and "aws_clock api e = (Inr requested, e1)"
    and "aws_assume_role api role (pr_session_name pr) (pr_external_id pr) e1 = (Inr cr, e')"
    and "a = \<lparr>as_client = aws_client api (pr_region pr) cr,
           as_renew_at = requested + (cr_expiration cr - requested) * RENEWAL_MARGIN\<rparr>"
    and "pr' = pr\<lparr>pr_cached := AList.update source a (pr_cached pr), pr_assumed := pr_assumed pr + 1\<rparr>"
  using assms
  by (auto simp: assume_for_def io_bind_Inr_iff outside_def io_modify_def io_return_def Let_def
      split: option.splits prod.splits)

lemma renewed_before_expiry:
  assumes "requested < (expiration :: rat)"
  shows "requested < requested + (expiration - requested) * RENEWAL_MARGIN"
    and "requested + (expiration - requested) * RENEWAL_MARGIN < expiration"
  using assms by (simp_all add: RENEWAL_MARGIN_def field_simps)

lemma assume_for_Inl:
  "assume_for api source (pr, e) = (Inl x, (pr', e')) \<Longrightarrow> pr' = pr"
  by (auto simp: assume_for_def io_bind_Inl_iff outside_def io_modify_def io_return_def Let_def
      split: option.splits prod.splits)

lemma client_for_frame:
  "client_for api source (pr, e) = (r, (pr', e')) \<Longrightarrow>
     pr_roles pr' = pr_roles pr \<and> pr_external_id pr' = pr_external_id pr \<and> pr_region pr' = pr_region pr"
  by (cases r)
     (auto simp: client_for_def assume_for_def io_bind_Inl_iff io_bind_Inr_iff outside_def
       io_modify_def io_return_def Let_def split: option.splits prod.splits if_splits)

text \<open>A bucket for the witnesses: the objects and a clock, every call succeeding.\<close>

definition plain_aws :: "(string, 'b, (string \<times> string \<Rightarrow> 'b option) \<times> seconds) aws" where
  "plain_aws =
     \<lparr>aws_clock = (\<lambda>(obj, now). (Inr now, (obj, now))),
      aws_assume_role = (\<lambda>role sess ext (obj, now).
        (Inr \<lparr>cr_access_key = role, cr_secret_key = ext, cr_session_token = sess, cr_expiration = now + 3600\<rparr>,
         (obj, now))),
      aws_client = (\<lambda>region cr. cr_access_key cr),
      aws_put_object = (\<lambda>c bucket key d (obj, now). (Inr (), (obj((bucket, key) \<mapsto> d), now)))\<rparr>"

text \<open>C14: A write for a source goes out under credentials that have not run out: either the cached
  client of that source, read before its renewal time, or a client made from that source's own
  provider role just now, cached until a time after the request and, if the credentials had not
  already expired at it, before they do. A source with no role has none of this.\<close>

theorem credentials_renewed_in_time:
  assumes "client_for api source (pr, e) = (Inr c, (pr', e'))"
  shows "(\<exists>a now. map_of (pr_cached pr) source = Some a \<and> aws_clock api e = (Inr now, e') \<and>
            now < as_renew_at a \<and> c = as_client a \<and> pr' = pr) \<or>
         (\<exists>role requested cr e1 e2 a. map_of (pr_roles pr) source = Some role \<and>
            aws_clock api e1 = (Inr requested, e2) \<and>
            aws_assume_role api role (pr_session_name pr) (pr_external_id pr) e2 = (Inr cr, e') \<and>
            c = aws_client api (pr_region pr) cr \<and> c = as_client a \<and>
            map_of (pr_cached pr') source = Some a \<and> pr_assumed pr' = pr_assumed pr + 1 \<and>
            (requested < cr_expiration cr \<longrightarrow>
               requested < as_renew_at a \<and> as_renew_at a < cr_expiration cr))"
proof -
  let ?P = "\<exists>role requested cr e1 e2 a. map_of (pr_roles pr) source = Some role \<and>
            aws_clock api e1 = (Inr requested, e2) \<and>
            aws_assume_role api role (pr_session_name pr) (pr_external_id pr) e2 = (Inr cr, e') \<and>
            c = aws_client api (pr_region pr) cr \<and> c = as_client a \<and>
            map_of (pr_cached pr') source = Some a \<and> pr_assumed pr' = pr_assumed pr + 1 \<and>
            (requested < cr_expiration cr \<longrightarrow>
               requested < as_renew_at a \<and> as_renew_at a < cr_expiration cr)"
  have fresh: ?P if bound: "io_bind (assume_for api source) (\<lambda>a. io_return (as_client a)) (pr, e1) = (Inr c, (pr', e'))" for e1
  proof -
    obtain a where a: "assume_for api source (pr, e1) = (Inr a, (pr', e'))" "c = as_client a"
      using bound by (auto simp: io_bind_Inr_iff io_return_def)
    from a(1) show ?P
    proof (rule assume_for_Inr)
      fix role requested cr e2
      assume *: "map_of (pr_roles pr) source = Some role" "aws_clock api e1 = (Inr requested, e2)"
        "aws_assume_role api role (pr_session_name pr) (pr_external_id pr) e2 = (Inr cr, e')"
        "a = \<lparr>as_client = aws_client api (pr_region pr) cr,
           as_renew_at = requested + (cr_expiration cr - requested) * RENEWAL_MARGIN\<rparr>"
        "pr' = pr\<lparr>pr_cached := AList.update source a (pr_cached pr), pr_assumed := pr_assumed pr + 1\<rparr>"
      have "requested < cr_expiration cr \<longrightarrow> requested < as_renew_at a \<and> as_renew_at a < cr_expiration cr"
        using renewed_before_expiry [of requested "cr_expiration cr"] by (simp add: *(4))
      moreover have "map_of (pr_cached pr') source = Some a" "pr_assumed pr' = pr_assumed pr + 1"
        by (simp_all add: *(5))
      moreover have "c = aws_client api (pr_region pr) cr" using a(2) by (simp add: *(4))
      ultimately show ?P using *(1-3) a(2) by blast
    qed
  qed
  show ?thesis
  proof (cases "map_of (pr_cached pr) source")
    case None
    with assms fresh show ?thesis by (simp add: client_for_def)
  next
    case (Some a)
    obtain now e1 where now: "aws_clock api e = (Inr now, e1)"
      and rest: "(if now < as_renew_at a then io_return (as_client a)
        else io_bind (assume_for api source) (\<lambda>a. io_return (as_client a))) (pr, e1) = (Inr c, (pr', e'))"
      using assms Some by (auto simp: client_for_def io_bind_Inr_iff outside_def split: prod.splits)
    show ?thesis
      using rest now Some fresh [of e1] by (cases "now < as_renew_at a") (auto simp: io_return_def)
  qed
qed

lemma credentials_renewed_in_time_witness:
  "\<exists>pr' e'. client_for plain_aws ''okta_group''
      (\<lparr>pr_roles = [(''okta_group'', ''arn'')], pr_external_id = ''x'', pr_region = ''r'',
        pr_session_name = ''ocsf-connector'', pr_assumed = 0,
        pr_cached = [(''okta_group'', \<lparr>as_client = ''old'', as_renew_at = 50\<rparr>)]\<rparr>, (\<lambda>_. None :: nat option, 60)) =
      (Inr ''arn'', (pr', e')) \<and> pr_assumed pr' = 1"
proof -
  let ?pr = "\<lparr>pr_roles = [(''okta_group'', ''arn'')], pr_external_id = ''x'', pr_region = ''r'',
        pr_session_name = ''ocsf-connector'', pr_assumed = 0,
        pr_cached = [(''okta_group'', \<lparr>as_client = ''old'', as_renew_at = 50\<rparr>)]\<rparr>"
  obtain pr' e' where run: "client_for plain_aws ''okta_group'' (?pr, (\<lambda>_. None :: nat option, 60)) =
      (Inr ''arn'', (pr', e'))"
    by (simp add: client_for_def assume_for_def plain_aws_def io_bind_def outside_def io_return_def
        io_modify_def Let_def)
  from credentials_renewed_in_time [OF this] have "pr_assumed pr' = 1"
    by (auto simp: plain_aws_def)
  with run show ?thesis by blast
qed

subsection \<open>The laws of an object store\<close>

text \<open>What S3 documents: a \<open>PutObject\<close> that returns has replaced the object under the key, one that
  fails may or may not have, and the other calls touch no object.\<close>

definition s3_semantics :: "('c, 'b, 'e) aws \<Rightarrow> ('e \<Rightarrow> string \<times> string \<Rightarrow> 'b option) \<Rightarrow> bool" where
  "s3_semantics api obj \<longleftrightarrow>
     (\<forall>c bk k d e u e'. aws_put_object api c bk k d e = (Inr u, e') \<longrightarrow> obj e' = (obj e)((bk, k) \<mapsto> d)) \<and>
     (\<forall>c bk k d e x e'. aws_put_object api c bk k d e = (Inl x, e') \<longrightarrow>
        obj e' = obj e \<or> obj e' = (obj e)((bk, k) \<mapsto> d)) \<and>
     (\<forall>e r e'. aws_clock api e = (r, e') \<longrightarrow> obj e' = obj e) \<and>
     (\<forall>a s x e r e'. aws_assume_role api a s x e = (r, e') \<longrightarrow> obj e' = obj e)"

lemma s3_put_returns:
  "s3_semantics api obj \<Longrightarrow> aws_put_object api c bk k d e = (Inr u, e') \<Longrightarrow>
     obj e' = (obj e)((bk, k) \<mapsto> d)"
  by (simp add: s3_semantics_def)

lemma s3_put_raises:
  "s3_semantics api obj \<Longrightarrow> aws_put_object api c bk k d e = (Inl x, e') \<Longrightarrow>
     obj e' = obj e \<or> obj e' = (obj e)((bk, k) \<mapsto> d)"
  by (simp add: s3_semantics_def)

lemma assume_for_objects:
  assumes "s3_semantics api obj" and "assume_for api source (pr, e) = (r, (pr', e'))"
  shows "obj e' = obj e"
  using assms unfolding s3_semantics_def
  by (cases r)
     (fastforce simp: assume_for_def io_bind_Inl_iff io_bind_Inr_iff outside_def io_modify_def
       io_return_def Let_def split: option.splits prod.splits)+

lemma client_for_objects:
  assumes "s3_semantics api obj" and "client_for api source (pr, e) = (r, (pr', e'))"
  shows "obj e' = obj e"
proof -
  have clock: "obj e' = obj e" if "aws_clock api e = (r, e')" for e r e'
    using assms(1) that by (simp add: s3_semantics_def)
  have renew: "obj e' = obj e"
    if "io_bind (assume_for api source) (\<lambda>a. io_return (as_client a)) (pr, e) = (r, (pr', e'))" for e
    using that assume_for_objects [OF assms(1)]
    by (cases r) (auto simp: io_bind_Inl_iff io_bind_Inr_iff io_return_def)
  show ?thesis
  proof (cases "map_of (pr_cached pr) source")
    case None
    with assms(2) renew show ?thesis by (simp add: client_for_def)
  next
    case (Some a)
    obtain q e1 where q: "aws_clock api e = (q, e1)" by (cases "aws_clock api e")
    show ?thesis
      using assms(2) Some q renew [of e1] clock [OF q]
      by (cases q) (auto simp: client_for_def io_bind_def outside_def io_return_def split: if_splits)
  qed
qed

text \<open>Writing to S3 has the laws the sink relies on: a \<open>put\<close> that returns has left exactly the
  new object under \<open>ext/source/key\<close>, one that raises has left there the old object or the new
  one, every other object is as it was, and the log of written keys grows just on success.\<close>

theorem s3_put_laws:
  assumes "s3_semantics api obj" and "s3_put api source key data (st, e) = (r, (st', e'))"
  shows "(case r of
      Inr _ \<Rightarrow> obj e' = (obj e)((s3_bucket st, ''ext/'' @ source @ ''/'' @ key) \<mapsto> data) \<and>
        s3_written st' = s3_written st @ [''ext/'' @ source @ ''/'' @ key]
    | Inl _ \<Rightarrow> (obj e' = obj e \<or> obj e' = (obj e)((s3_bucket st, ''ext/'' @ source @ ''/'' @ key) \<mapsto> data)) \<and>
        s3_written st' = s3_written st) \<and> s3_bucket st' = s3_bucket st"
proof -
  obtain q st1 e1 where client: "s3_client_for api source (st, e) = (q, (st1, e1))"
    by (metis prod.exhaust)
  have same: "s3_bucket st1 = s3_bucket st" "s3_written st1 = s3_written st" "obj e1 = obj e"
    using client client_for_objects [OF assms(1)]
    by (auto simp: s3_client_for_def split: option.splits prod.splits)
  have key: "key_for source key = ''ext/'' @ source @ ''/'' @ key" by (simp add: key_for_def prefix_for_def)
  show ?thesis
  proof (cases q)
    case (Inl x)
    with client assms(2) same show ?thesis by (auto simp: s3_put_def io_bind_def)
  next
    case (Inr c)
    obtain p e2 where put: "aws_put_object api c (s3_bucket st1) (key_for source key) data e1 = (p, e2)"
      by (cases "aws_put_object api c (s3_bucket st1) (key_for source key) data e1")
    note law = s3_put_returns [OF assms(1)] s3_put_raises [OF assms(1)]
    show ?thesis
      using Inr client put assms(2) same
      by (cases p) (auto dest!: law simp: s3_put_def io_bind_def key)
  qed
qed

lemma s3_put_laws_witness:
  "\<exists>st' obj. s3_put plain_aws ''okta_group'' ''k'' (7::nat)
      (\<lparr>s3_bucket = ''lake'', s3_region = ''r'', s3_client = ''own'', s3_roles = None, s3_written = []\<rparr>,
       (Map.empty, 60)) = (Inr (), (st', obj, 60)) \<and>
     obj = [(''lake'', ''ext/okta_group/k'') \<mapsto> 7] \<and> s3_written st' = [''ext/okta_group/k'']"
proof -
  let ?st = "\<lparr>s3_bucket = ''lake'', s3_region = ''r'', s3_client = ''own'', s3_roles = None, s3_written = []\<rparr>"
  have "s3_semantics plain_aws (fst :: (_ \<times> _ \<Rightarrow> nat option) \<times> _ \<Rightarrow> _)"
    by (auto simp: s3_semantics_def plain_aws_def)
  moreover obtain st' obj where run: "s3_put plain_aws ''okta_group'' ''k'' (7::nat) (?st, (Map.empty, 60)) =
      (Inr (), (st', obj, 60))"
    by (simp add: s3_put_def s3_client_for_def io_bind_def plain_aws_def)
  ultimately show ?thesis
    using s3_put_laws [of plain_aws fst "''okta_group''" "''k''" "7::nat" ?st "(Map.empty, 60)" "Inr ()" st' "(obj, 60)"]
    by auto
qed

end
