(* ===== verification/Json.thy ===== *)
theory Json
  imports Prelude
begin

section \<open>JSON values\<close>

text \<open>
  The Python values \<open>json.loads\<close> makes, and what the connector does to them:
  truth (\<open>or\<close>, \<open>not\<close>), \<open>dict.get\<close>, \<open>json.dumps\<close> with its default separators and
  ASCII escapes. An object keeps its members in insertion order. A float is kept as the
  numeral \<open>repr\<close> prints.
\<close>

datatype json =
    JNull
  | JBool bool
  | JInt int
  | JFloat string
  | JStr string
  | JList "json list"
  | JObj "(string \<times> json) list"

type_synonym json_dict = "(string \<times> json) list"

fun truthy :: "json \<Rightarrow> bool" where
  "truthy JNull = False"
| "truthy (JBool b) = b"
| "truthy (JInt i) = (i \<noteq> 0)"
| "truthy (JFloat f) = (f \<noteq> ''0.0'' \<and> f \<noteq> ''-0.0'')"
| "truthy (JStr s) = (s \<noteq> [])"
| "truthy (JList xs) = (xs \<noteq> [])"
| "truthy (JObj d) = (d \<noteq> [])"

text \<open>\<open>d.get(k)\<close>, with \<open>None\<close> for a missing key.\<close>

definition dict_get :: "json_dict \<Rightarrow> string \<Rightarrow> json" where
  "dict_get d k = (case map_of d k of None \<Rightarrow> JNull | Some v \<Rightarrow> v)"

subsection \<open>\<open>json.dumps\<close>\<close>

definition hex_digit :: "nat \<Rightarrow> char" where
  "hex_digit n = (if n < 10 then char_of (48 + n) else char_of (87 + n))"

text \<open>Outside the printable ASCII range a character below 256 becomes \<open>\u00xy\<close>.\<close>

definition json_escape :: "char \<Rightarrow> string" where
  "json_escape c =
     (let n = (of_char c :: nat) in
        if n = 34 then [CHR 0x5C, CHR 0x22]
        else if n = 92 then [CHR 0x5C, CHR 0x5C]
        else if n = 10 then CHR 0x5C # ''n''
        else if n = 13 then CHR 0x5C # ''r''
        else if n = 9 then CHR 0x5C # ''t''
        else if n = 8 then CHR 0x5C # ''b''
        else if n = 12 then CHR 0x5C # ''f''
        else if 32 \<le> n \<and> n \<le> 126 then [c]
        else CHR 0x5C # ''u00'' @ [hex_digit (n div 16), hex_digit (n mod 16)])"

definition json_quote :: "string \<Rightarrow> string" where
  "json_quote s = [CHR 0x22] @ concat (map json_escape s) @ [CHR 0x22]"

text \<open>\<open>sep.join(xs)\<close>.\<close>

fun str_join :: "string \<Rightarrow> string list \<Rightarrow> string" where
  "str_join sep [] = []"
| "str_join sep [x] = x"
| "str_join sep (x # y # ys) = x @ sep @ str_join sep (y # ys)"

text \<open>\<open>json.dumps(v, sort_keys=sorting)\<close>.\<close>

fun json_dumps :: "bool \<Rightarrow> json \<Rightarrow> string" where
  "json_dumps sorting JNull = ''null''"
| "json_dumps sorting (JBool b) = (if b then ''true'' else ''false'')"
| "json_dumps sorting (JInt i) = int_str i"
| "json_dumps sorting (JFloat f) = f"
| "json_dumps sorting (JStr s) = json_quote s"
| "json_dumps sorting (JList xs) = ''['' @ str_join '', '' (map (json_dumps sorting) xs) @ '']''"
| "json_dumps sorting (JObj d) =
     (let members = map (\<lambda>(k, v). (k, json_dumps sorting v)) d;
          ordered = (if sorting then sort_key fst members else members)
      in ''{'' @ str_join '', '' (map (\<lambda>(k, s). json_quote k @ '': '' @ s) ordered) @ ''}'')"

subsection \<open>\<open>str\<close> and \<open>repr\<close>\<close>

text \<open>
  \<open>repr\<close> of a string prefers single quotes, and escapes what is not printable; of the characters
  below 256 those are the control characters, the no-break space and the soft hyphen.
\<close>

definition printable :: "nat \<Rightarrow> bool" where
  "printable n \<longleftrightarrow> 32 \<le> n \<and> n \<le> 126 \<or> 161 \<le> n \<and> n \<noteq> 173"

definition repr_char :: "char \<Rightarrow> char \<Rightarrow> string" where
  "repr_char quote c =
     (let n = (of_char c :: nat) in
        if c = quote \<or> n = 92 then [CHR 0x5C, c]
        else if n = 10 then CHR 0x5C # ''n''
        else if n = 13 then CHR 0x5C # ''r''
        else if n = 9 then CHR 0x5C # ''t''
        else if printable n then [c]
        else CHR 0x5C # ''x'' @ [hex_digit (n div 16), hex_digit (n mod 16)])"

definition repr_string :: "string \<Rightarrow> string" where
  "repr_string s =
     (let quote = (if CHR 0x27 \<in> set s \<and> CHR 0x22 \<notin> set s then CHR 0x22 else CHR 0x27)
      in [quote] @ concat (map (repr_char quote) s) @ [quote])"

fun py_repr :: "json \<Rightarrow> string" where
  "py_repr JNull = ''None''"
| "py_repr (JBool b) = (if b then ''True'' else ''False'')"
| "py_repr (JInt i) = int_str i"
| "py_repr (JFloat f) = f"
| "py_repr (JStr s) = repr_string s"
| "py_repr (JList xs) = ''['' @ str_join '', '' (map py_repr xs) @ '']''"
| "py_repr (JObj d) = ''{'' @ str_join '', '' (map (\<lambda>(k, v). repr_string k @ '': '' @ py_repr v) d) @ ''}''"

definition py_str :: "json \<Rightarrow> string" where
  "py_str v = (case v of JStr s \<Rightarrow> s | _ \<Rightarrow> py_repr v)"

text \<open>\<open>v or w\<close>.\<close>

definition json_or :: "json \<Rightarrow> json \<Rightarrow> json" where
  "json_or v w = (if truthy v then v else w)"

subsection \<open>Case\<close>

text \<open>\<open>upper\<close>, \<open>casefold\<close> and \<open>title\<close> on ASCII letters; other characters are kept.\<close>

definition upper_char :: "char \<Rightarrow> char" where
  "upper_char c = (let n = (of_char c :: nat) in if 97 \<le> n \<and> n \<le> 122 then char_of (n - 32) else c)"

definition lower_char :: "char \<Rightarrow> char" where
  "lower_char c = (let n = (of_char c :: nat) in if 65 \<le> n \<and> n \<le> 90 then char_of (n + 32) else c)"

definition is_letter :: "char \<Rightarrow> bool" where
  "is_letter c \<longleftrightarrow> (let n = (of_char c :: nat) in 65 \<le> n \<and> n \<le> 90 \<or> 97 \<le> n \<and> n \<le> 122)"

definition str_upper :: "string \<Rightarrow> string" where
  "str_upper s = map upper_char s"

definition str_casefold :: "string \<Rightarrow> string" where
  "str_casefold s = map lower_char s"

fun str_title_from :: "bool \<Rightarrow> string \<Rightarrow> string" where
  "str_title_from after_letter [] = []"
| "str_title_from after_letter (c # cs) =
     (if is_letter c
      then (if after_letter then lower_char c else upper_char c) # str_title_from True cs
      else c # str_title_from False cs)"

definition str_title :: "string \<Rightarrow> string" where
  "str_title s = str_title_from False s"

text \<open>\<open>t in s\<close> for strings.\<close>

fun str_contains :: "string \<Rightarrow> string \<Rightarrow> bool" where
  "str_contains t [] = (t = [])"
| "str_contains t (c # cs) = (take (length t) (c # cs) = t \<or> str_contains t cs)"

subsection \<open>White space and numerals\<close>

definition is_space :: "char \<Rightarrow> bool" where
  "is_space c \<longleftrightarrow> (let n = (of_char c :: nat) in
     9 \<le> n \<and> n \<le> 13 \<or> 28 \<le> n \<and> n \<le> 32 \<or> n = 133 \<or> n = 160)"

definition str_strip :: "string \<Rightarrow> string" where
  "str_strip s = rev (dropWhile is_space (rev (dropWhile is_space s)))"

fun underscored_digits :: "string \<Rightarrow> bool" where
  "underscored_digits [] = False"
| "underscored_digits [c] = is_digit c"
| "underscored_digits (c # d # cs) =
     (is_digit c \<and> (if d = CHR ''_'' then underscored_digits cs else underscored_digits (d # cs)))"

definition signed :: "string \<Rightarrow> int \<times> string" where
  "signed s =
     (case s of
        [] \<Rightarrow> (1, [])
      | c # cs \<Rightarrow> if c = CHR ''-'' then (-1, cs) else if c = CHR ''+'' then (1, cs) else (1, s))"

text \<open>\<open>int(s)\<close>: white space around it, a sign, and single underscores between digits.\<close>

definition int_of_string :: "string \<Rightarrow> exn + int" where
  "int_of_string s =
     (let (sign, digits) = signed (str_strip s)
      in if underscored_digits digits
         then Inr (sign * int (digits_val (filter (\<lambda>c. c \<noteq> CHR ''_'') digits)))
         else Inl (ValueError s))"

text \<open>\<open>int\<close> of a float: toward zero.\<close>

definition trunc :: "rat \<Rightarrow> int" where
  "trunc x = (if 0 \<le> x then \<lfloor>x\<rfloor> else \<lceil>x\<rceil>)"

text \<open>\<open>s.startswith(p)\<close>, \<open>s.rstrip("/")\<close> and \<open>s.split()\<close>.\<close>

definition starts_with :: "string \<Rightarrow> string \<Rightarrow> bool" where
  "starts_with s p \<longleftrightarrow> take (length p) s = p"

definition rstrip_slash :: "string \<Rightarrow> string" where
  "rstrip_slash s = rev (dropWhile (\<lambda>c. c = CHR ''/'') (rev s))"

fun split_words :: "string \<Rightarrow> string \<Rightarrow> string list" where
  "split_words acc [] = (if acc = [] then [] else [rev acc])"
| "split_words acc (c # cs) =
     (if is_space c then (if acc = [] then split_words [] cs else rev acc # split_words [] cs)
      else split_words (c # acc) cs)"

definition str_split :: "string \<Rightarrow> string list" where
  "str_split s = split_words [] s"

lemma starts_with_append [simp]: "starts_with (p @ s) p"
  by (simp add: starts_with_def)

lemma starts_with_iff: "starts_with s p \<longleftrightarrow> (\<exists>t. s = p @ t)"
  by (metis append_take_drop_id starts_with_append starts_with_def)

subsection \<open>Paths\<close>

text \<open>The value at a path of keys, if every step is into an object that has the key.\<close>

fun json_at :: "json \<Rightarrow> string list \<Rightarrow> json option" where
  "json_at v [] = Some v"
| "json_at (JObj d) (k # ks) = (case map_of d k of None \<Rightarrow> None | Some v \<Rightarrow> json_at v ks)"
| "json_at v (k # ks) = None"

lemma json_at_append: "json_at v (p @ q) = (case json_at v p of None \<Rightarrow> None | Some w \<Rightarrow> json_at w q)"
  by (induction v p rule: json_at.induct) (auto split: option.splits)

lemma dict_get_Some: "map_of d k = Some v \<Longrightarrow> dict_get d k = v"
  by (simp add: dict_get_def)

lemma dict_get_update [simp]:
  "dict_get (AList.update k v d) k' = (if k' = k then v else dict_get d k')"
  by (simp add: dict_get_def)

lemma truthy_dict_get: "truthy (dict_get d k) \<Longrightarrow> \<exists>v. map_of d k = Some v \<and> truthy v"
  by (auto simp: dict_get_def split: option.splits)

text \<open>
  Objects with the same members in any order print the same when sorted, so the
  \<open>unmapped\<close> column does not depend on the order in which a vendor sends attributes.
\<close>

lemma json_dumps_sorted:
  assumes "distinct (map fst d)" and "distinct (map fst d')" and "set d = set d'"
  shows "json_dumps True (JObj d) = json_dumps True (JObj d')"
proof -
  let ?f = "\<lambda>(k, v). (k, json_dumps True v)"
  have keys: "map fst (map ?f xs) = map fst xs" for xs by (simp add: split_def comp_def)
  have sets: "set (map ?f d) = set (map ?f d')" using assms(3) by simp
  have inj: "inj_on fst (set (map ?f d))"
    using assms(1) keys [of d] by (metis distinct_map)
  have sort: "distinct (map fst (sort_key fst ys))" if "distinct (map fst ys)" for ys :: "(string \<times> string) list"
    using that by (simp add: distinct_map)
  have "distinct (map fst (sort_key fst (map ?f d)))" "distinct (map fst (sort_key fst (map ?f d')))"
    using assms(1,2) keys by (metis sort)+
  then have "sort_key fst (map ?f d) = sort_key fst (map ?f d')"
    using inj sets by (intro map_sorted_distinct_set_unique [where f = fst]) (simp_all del: set_map)
  then show ?thesis by simp
qed

end
