(* ===== verification/Domain.thy ===== *)
theory Domain
  imports Json
begin

section \<open>What flows through the pipeline\<close>

text \<open>
  \<open>OcsfEvent\<close> of \<open>src/ocsf_connector/domain.py\<close>. A cursor, \<open>Cursor = str\<close> there, is a
  string: the URL to get next, never parsed.
\<close>

record ocsf_event =
  ev_class_uid :: int
  ev_time_ms :: int
  ev_uid :: string
  ev_body :: json_dict

end
