(* ===== verification/RunLoop.thy ===== *)
theory RunLoop
  imports Domain
begin

section \<open>The run loop\<close>

text \<open>
  \<open>src/ocsf_connector/runner/loop.py\<close>, the function \<open>run\<close>: fetch a page, map, drop what was
  delivered before, buffer, flush, and only then commit the cursor. The source, the mapper,
  the sink, the store and the callbacks are the fields of \<open>deps\<close>, effectful functions on a
  state \<open>'w\<close> any of which may raise; \<open>locals\<close> is the local variables of \<open>run\<close>. \<open>page_step\<close> is
  one iteration of the loop, and \<open>run_loop\<close> the loop, which need not end when \<open>max_pages\<close> is
  not given.
\<close>

record run_stats =
  rs_pages :: nat
  rs_mapped :: nat
  rs_written :: nat
  rs_duplicates_skipped :: nat
  rs_commits :: nat
  rs_exhausted :: bool
  rs_stopped_by :: "int option"

record 'r page =
  pg_records :: "'r list"
  pg_next_cursor :: "string option"

text \<open>The calls of \<open>metrics\<close>.\<close>

datatype metric =
    CountError string
  | CountEvents nat
  | IngestLag seconds
  | CommitLag seconds

record ('r, 'w) deps =
  d_get_cursor :: "(string option, 'w) io"
  d_start :: "(string, 'w) io"
  d_clock :: "(seconds, 'w) io"
  d_stop_signal :: "(int option, 'w) io option"
  d_fetch :: "string \<Rightarrow> ('r page, 'w) io"
  d_map :: "'r \<Rightarrow> (ocsf_event, 'w) io"
  d_filter_unseen :: "string list \<Rightarrow> (string list, 'w) io"
  d_record_published :: "int \<Rightarrow> (unit, 'w) io"
  d_write :: "ocsf_event list \<Rightarrow> (unit, 'w) io"
  d_should_flush :: "(bool, 'w) io"
  d_flush :: "string \<Rightarrow> (unit, 'w) io"
  d_commit :: "string option \<Rightarrow> string list \<Rightarrow> (unit, 'w) io"
  d_mark_caught_up :: "(unit, 'w) io"
  d_purge_expired :: "(unit, 'w) io"
  d_on_progress :: "(run_stats \<Rightarrow> (unit, 'w) io) option"
  d_on_idle :: "(unit, 'w) io option"
  d_metric :: "metric \<Rightarrow> 'w \<Rightarrow> 'w"
  d_max_pages :: "nat option"
  d_purge_every :: seconds
  d_caught_up_every :: seconds

record locals =
  l_cursor :: string
  l_batch_key :: string
  l_batch_opened_at :: seconds
  l_last_purge_at :: seconds
  l_last_caught_up_at :: "seconds option"
  l_pending :: "string list"
  l_pages :: nat
  l_mapped :: nat
  l_written :: nat
  l_duplicates :: nat
  l_commits :: nat
  l_exhausted :: bool

definition run_snapshot :: "locals \<Rightarrow> int option \<Rightarrow> run_stats" where
  "run_snapshot l stopped_by =
     \<lparr>rs_pages = l_pages l, rs_mapped = l_mapped l, rs_written = l_written l,
      rs_duplicates_skipped = l_duplicates l, rs_commits = l_commits l,
      rs_exhausted = l_exhausted l, rs_stopped_by = stopped_by\<rparr>"

text \<open>The statements before the loop.\<close>

definition run_open :: "('r, 'w) deps \<Rightarrow> (locals, 'w) io" where
  "run_open d =
     io_bind (d_get_cursor d) (\<lambda>stored.
     io_bind (case stored of None \<Rightarrow> d_start d | Some c \<Rightarrow> io_return c) (\<lambda>cursor.
     io_bind (d_clock d) (\<lambda>now.
     io_return \<lparr>l_cursor = cursor, l_batch_key = cursor, l_batch_opened_at = now,
       l_last_purge_at = now, l_last_caught_up_at = None, l_pending = [], l_pages = 0,
       l_mapped = 0, l_written = 0, l_duplicates = 0, l_commits = 0, l_exhausted = False\<rparr>)))"

text \<open>\<open>fresh\<close>: the events whose uid is in \<open>unseen\<close>, each uid taken once.\<close>

fun take_unseen :: "string set \<Rightarrow> ocsf_event list \<Rightarrow> ocsf_event list" where
  "take_unseen unseen [] = []"
| "take_unseen unseen (e # es) =
     (if ev_uid e \<in> unseen then e # take_unseen (unseen - {ev_uid e}) es else take_unseen unseen es)"

definition published_phase :: "('r, 'w) deps \<Rightarrow> ocsf_event list \<Rightarrow> (unit, 'w) io" where
  "published_phase d events =
     (let dated = filter (\<lambda>t. 0 < t) (map ev_time_ms events)
      in if dated = [] then io_return ()
         else (let newest = Max (set dated) in
           io_bind (d_record_published d newest) (\<lambda>_.
           io_bind (d_clock d) (\<lambda>now.
           io_modify (d_metric d (IngestLag (now - of_int newest / 1000)))))))"

text \<open>Map, drop what was delivered, note the publication time, buffer.\<close>

definition take_page :: "('r, 'w) deps \<Rightarrow> 'r page \<Rightarrow> locals \<Rightarrow> (locals, 'w) io" where
  "take_page d page l =
     io_bind (io_map (d_map d) (pg_records page)) (\<lambda>events.
     io_bind (d_filter_unseen d (map ev_uid events)) (\<lambda>us.
     let fresh = take_unseen (set us) events in
     io_bind (published_phase d events) (\<lambda>_.
     io_bind (d_write d fresh) (\<lambda>_.
     io_bind (io_modify (d_metric d (CountEvents (length fresh)))) (\<lambda>_.
     io_return (l\<lparr>l_mapped := l_mapped l + length events,
                  l_duplicates := l_duplicates l + (length events - length fresh),
                  l_pending := l_pending l @ map ev_uid fresh,
                  l_written := l_written l + length fresh,
                  l_exhausted := pg_next_cursor page = None\<rparr>))))))"

text \<open>Flush, then commit, then the housekeeping that follows a commit.\<close>

definition flush_phase :: "('r, 'w) deps \<Rightarrow> string option \<Rightarrow> locals \<Rightarrow> (locals, 'w) io" where
  "flush_phase d next_cursor l =
     io_bind (io_on_error (d_flush d (l_batch_key l)) (d_metric d (CountError ''sink''))) (\<lambda>_.
     io_bind (d_commit d next_cursor (l_pending l)) (\<lambda>_.
     io_bind (d_clock d) (\<lambda>t1.
     io_bind (io_modify (d_metric d (CommitLag (t1 - l_batch_opened_at l)))) (\<lambda>_.
     io_bind (d_clock d) (\<lambda>t2.
     let l' = l\<lparr>l_commits := l_commits l + 1, l_pending := [],
                l_batch_key := (case next_cursor of None \<Rightarrow> l_batch_key l | Some c \<Rightarrow> c),
                l_batch_opened_at := t2, l_last_caught_up_at := Some t2\<rparr>
     in if d_purge_every d \<le> t2 - l_last_purge_at l'
        then io_bind (d_purge_expired d) (\<lambda>_. io_return (l'\<lparr>l_last_purge_at := t2\<rparr>))
        else io_return l')))))"

definition idle_phase :: "('r, 'w) deps \<Rightarrow> locals \<Rightarrow> (locals, 'w) io" where
  "idle_phase d l =
     io_bind
       (if l_pending l = []
        then io_bind (d_clock d) (\<lambda>now.
          if (case l_last_caught_up_at l of None \<Rightarrow> True | Some t \<Rightarrow> d_caught_up_every d \<le> now - t)
          then io_bind (d_mark_caught_up d) (\<lambda>_. io_return (l\<lparr>l_last_caught_up_at := Some now\<rparr>))
          else io_return l)
        else io_return l)
       (\<lambda>l'. io_bind (case d_on_idle d of None \<Rightarrow> io_return () | Some idle \<Rightarrow> idle) (\<lambda>_. io_return l'))"

text \<open>The body of the loop after the stop check; \<open>Inl\<close> is \<open>break\<close>.\<close>

definition page_step :: "('r, 'w) deps \<Rightarrow> locals \<Rightarrow> (locals + locals, 'w) io" where
  "page_step d l =
     io_bind (io_on_error (d_fetch d (l_cursor l)) (d_metric d (CountError ''source''))) (\<lambda>page.
     io_bind (take_page d page (l\<lparr>l_pages := l_pages l + 1\<rparr>)) (\<lambda>l1.
     io_bind (if l_exhausted l1 then io_return True else d_should_flush d) (\<lambda>flushing.
     io_bind (if flushing then flush_phase d (pg_next_cursor page) l1 else io_return l1) (\<lambda>l2.
     io_bind (case d_on_progress d of None \<Rightarrow> io_return () | Some report \<Rightarrow> report (run_snapshot l2 None)) (\<lambda>_.
     case pg_next_cursor page of
       None \<Rightarrow> io_return (Inl l2)
     | Some c \<Rightarrow>
         (let l3 = l2\<lparr>l_cursor := c\<rparr> in
          if pg_records page = [] then io_bind (idle_phase d l3) (\<lambda>l4. io_return (Inr l4))
          else io_return (Inr l3)))))))"

text \<open>One turn of the \<open>while\<close>: the test of \<open>max_pages\<close>, the stop check, the body. \<open>Inl\<close> is the
  value \<open>run\<close> returns.\<close>

definition run_turn :: "('r, 'w) deps \<Rightarrow> locals \<Rightarrow> (run_stats + locals, 'w) io" where
  "run_turn d l =
     (if (case d_max_pages d of None \<Rightarrow> True | Some m \<Rightarrow> l_pages l < m)
      then io_bind (case d_stop_signal d of None \<Rightarrow> io_return None | Some poll \<Rightarrow> poll) (\<lambda>stopping.
        case stopping of
          Some n \<Rightarrow> io_return (Inl (run_snapshot l (Some n)))
        | None \<Rightarrow> io_bind (page_step d l) (\<lambda>r.
            case r of
              Inl l' \<Rightarrow> io_return (Inl (run_snapshot l' None))
            | Inr l' \<Rightarrow> io_return (Inr l')))
      else io_return (Inl (run_snapshot l None)))"

partial_function (option) run_loop ::
  "('r, 'w) deps \<Rightarrow> locals \<Rightarrow> 'w \<Rightarrow> ((exn + run_stats) \<times> 'w) option" where
  "run_loop d l w =
     (case run_turn d l w of
        (Inl x, w') \<Rightarrow> Some (Inl x, w')
      | (Inr (Inl stats), w') \<Rightarrow> Some (Inr stats, w')
      | (Inr (Inr l'), w') \<Rightarrow> run_loop d l' w')"

definition run :: "('r, 'w) deps \<Rightarrow> 'w \<Rightarrow> ((exn + run_stats) \<times> 'w) option" where
  "run d w =
     (case run_open d w of
        (Inl x, w') \<Rightarrow> Some (Inl x, w')
      | (Inr l, w') \<Rightarrow> run_loop d l w')"

subsection \<open>The rule of the loop\<close>

text \<open>What every turn keeps, the loop keeps, and what a turn that ends the loop establishes holds at
  the end, whether it returns or raises.\<close>

lemma run_loop_rule:
  assumes "run_loop d l w = Some (r, w')" and "I l w"
    and turn: "\<And>l. triple (I l) (run_turn d l)
      (\<lambda>q w. case q of Inl st \<Rightarrow> Q (Inr st) w | Inr l' \<Rightarrow> I l' w) (\<lambda>x w. Q (Inl x) w)"
  shows "Q r w'"
proof -
  have "d = d \<longrightarrow> I l w \<longrightarrow> Q (fst (r, w')) (snd (r, w'))"
  proof (rule run_loop.raw_induct [where P = "\<lambda>d' l w rw. d' = d \<longrightarrow> I l w \<longrightarrow> Q (fst rw) (snd rw)"])
    show "run_loop d l w = Some (r, w')" by (rule assms(1))
  next
    fix loop d' l w rw
    assume IH: "\<And>d' l w rw. loop d' l w = Some rw \<Longrightarrow> d' = d \<longrightarrow> I l w \<longrightarrow> Q (fst rw) (snd rw)"
      and body: "(case run_turn d' l w of (Inl x, w') \<Rightarrow> Some (Inl x, w')
        | (Inr (Inl stats), w') \<Rightarrow> Some (Inr stats, w') | (Inr (Inr l'), w') \<Rightarrow> loop d' l' w') = Some rw"
    show "d' = d \<longrightarrow> I l w \<longrightarrow> Q (fst rw) (snd rw)"
    proof (intro impI)
      assume d: "d' = d" and I: "I l w"
      obtain q w1 where q: "run_turn d l w = (q, w1)" by (cases "run_turn d l w")
      show "Q (fst rw) (snd rw)"
      proof (cases q)
        case (Inl x)
        with triple_Inl [OF turn I] q body d show ?thesis by auto
      next
        case (Inr p)
        with triple_Inr [OF turn I] q have post: "case p of Inl st \<Rightarrow> Q (Inr st) w1 | Inr l' \<Rightarrow> I l' w1" by blast
        show ?thesis using Inr post q body d IH by (cases p) auto
      qed
    qed
  qed
  with assms(2) show ?thesis by simp
qed

lemma run_rule:
  assumes "run d w = Some (r, w')"
    and "triple P (run_open d) I (\<lambda>x w. Q (Inl x) w)" and "P w"
    and "\<And>l. triple (I l) (run_turn d l)
      (\<lambda>q w. case q of Inl st \<Rightarrow> Q (Inr st) w | Inr l' \<Rightarrow> I l' w) (\<lambda>x w. Q (Inl x) w)"
  shows "Q r w'"
proof (cases "run_open d w")
  case (Pair q w1)
  show ?thesis
  proof (cases q)
    case (Inl x)
    with Pair assms(1) triple_Inl [OF assms(2,3)] show ?thesis by (auto simp: run_def)
  next
    case (Inr l)
    with Pair assms(1) have "run_loop d l w1 = Some (r, w')" by (simp add: run_def)
    with triple_Inr [OF assms(2,3)] Pair Inr assms(4) show ?thesis by (blast intro: run_loop_rule)
  qed
qed

text \<open>Raising is always allowed: the rule for a triple with no condition on it.\<close>

lemma triple_any: "(\<And>s x t. P s \<Longrightarrow> m s = (Inr x, t) \<Longrightarrow> Q x t) \<Longrightarrow> triple P m Q (\<lambda>_ _. True)"
  by (rule tripleI) auto

text \<open>The loop with fuel, for evaluating a run: what it returns, the loop returns.\<close>

fun run_fuel :: "nat \<Rightarrow> ('r, 'w) deps \<Rightarrow> locals \<Rightarrow> 'w \<Rightarrow> ((exn + run_stats) \<times> 'w) option" where
  "run_fuel 0 d l w = None"
| "run_fuel (Suc n) d l w =
     (case run_turn d l w of
        (Inl x, w') \<Rightarrow> Some (Inl x, w')
      | (Inr (Inl stats), w') \<Rightarrow> Some (Inr stats, w')
      | (Inr (Inr l'), w') \<Rightarrow> run_fuel n d l' w')"

definition run_with :: "nat \<Rightarrow> ('r, 'w) deps \<Rightarrow> 'w \<Rightarrow> ((exn + run_stats) \<times> 'w) option" where
  "run_with n d w =
     (case run_open d w of
        (Inl x, w') \<Rightarrow> Some (Inl x, w')
      | (Inr l, w') \<Rightarrow> run_fuel n d l w')"

lemma run_fuel_loop: "run_fuel n d l w = Some r \<Longrightarrow> run_loop d l w = Some r"
proof (induction n arbitrary: l w)
  case 0
  then show ?case by simp
next
  case (Suc n)
  obtain q w' where q: "run_turn d l w = (q, w')" by (cases "run_turn d l w")
  show ?case
    using Suc q by (subst run_loop.simps) (auto split: sum.splits)
qed

lemma run_with_run: "run_with n d w = Some r \<Longrightarrow> run d w = Some r"
  by (auto simp: run_with_def run_def dest: run_fuel_loop split: prod.splits sum.splits)

subsection \<open>What the counters say\<close>

lemma take_unseen_length: "length (take_unseen S es) \<le> length es"
  by (induction es arbitrary: S) (auto intro: le_SucI)

lemma set_take_unseen: "ev_uid ` set (take_unseen S es) = S \<inter> ev_uid ` set es"
  by (induction es arbitrary: S) auto

lemma distinct_take_unseen: "distinct (map ev_uid (take_unseen S es))"
proof (induction es arbitrary: S)
  case Nil
  then show ?case by simp
next
  case (Cons e es)
  then show ?case using set_take_unseen [of "S - {ev_uid e}" es] by auto
qed

lemma take_unseen_subset: "set (take_unseen S es) \<subseteq> set es"
  by (induction es arbitrary: S) auto

lemma io_map_length: "io_map f xs s = (Inr ys, t) \<Longrightarrow> length ys = length xs"
  by (induction xs arbitrary: s ys) (auto split: prod.splits sum.splits)

text \<open>The counters balance, pages bound commits, and \<open>exhausted\<close> is still false.\<close>

definition counters_ok :: "locals \<Rightarrow> bool" where
  "counters_ok l \<longleftrightarrow> l_written l + l_duplicates l = l_mapped l \<and> l_commits l \<le> l_pages l"

lemma run_open_counters:
  assumes "run_open d w = (Inr l, w')"
  shows "counters_ok l \<and> \<not> l_exhausted l \<and> l_pages l = 0"
  using assms by (auto simp: run_open_def io_bind_Inr_iff io_return_def counters_ok_def)

lemma take_page_counters:
  assumes "take_page d page l w = (Inr l1, w1)" and "l_written l + l_duplicates l = l_mapped l"
  shows "l_written l1 + l_duplicates l1 = l_mapped l1" and "l_pages l1 = l_pages l"
    and "l_commits l1 = l_commits l" and "l_exhausted l1 = (pg_next_cursor page = None)"
    and "l_mapped l1 = l_mapped l + length (pg_records page)"
proof -
  obtain events us where len: "length events = length (pg_records page)"
    and l1: "l1 = l\<lparr>l_mapped := l_mapped l + length events,
                  l_duplicates := l_duplicates l + (length events - length (take_unseen (set us) events)),
                  l_pending := l_pending l @ map ev_uid (take_unseen (set us) events),
                  l_written := l_written l + length (take_unseen (set us) events),
                  l_exhausted := pg_next_cursor page = None\<rparr>"
    using assms(1)
    by (auto simp: take_page_def io_bind_Inr_iff Let_def io_return_def io_modify_def dest!: io_map_length)
  show "l_written l1 + l_duplicates l1 = l_mapped l1"
    using take_unseen_length [of "set us" events] assms(2) by (simp add: l1)
  show "l_pages l1 = l_pages l" "l_commits l1 = l_commits l" "l_exhausted l1 = (pg_next_cursor page = None)"
    "l_mapped l1 = l_mapped l + length (pg_records page)"
    by (simp_all add: l1 len)
qed

lemma flush_phase_counters:
  assumes "flush_phase d c l w = (Inr l1, w1)"
  shows "l_written l1 = l_written l" and "l_duplicates l1 = l_duplicates l" and "l_mapped l1 = l_mapped l"
    and "l_pages l1 = l_pages l" and "l_commits l1 = l_commits l + 1" and "l_exhausted l1 = l_exhausted l"
  using assms
  by (auto simp: flush_phase_def io_bind_Inr_iff Let_def io_return_def split: if_splits)

lemma idle_phase_counters:
  assumes "idle_phase d l w = (Inr l1, w1)"
  shows "\<exists>t. l1 = l\<lparr>l_last_caught_up_at := t\<rparr>"
  using assms
  by (auto simp: idle_phase_def io_bind_Inr_iff io_return_def split: if_splits option.splits
      intro: exI [of _ "l_last_caught_up_at l"])

lemma page_step_counters:
  assumes "page_step d l w = (Inr r, w')" and "counters_ok l"
  shows "case r of Inl l' \<Rightarrow> counters_ok l' \<and> l_pages l' = l_pages l + 1 \<and> l_exhausted l'
    | Inr l' \<Rightarrow> counters_ok l' \<and> l_pages l' = l_pages l + 1 \<and> \<not> l_exhausted l'"
proof -
  obtain page w1 l1 w2 b w3 l2 w4 where
    p: "take_page d page (l\<lparr>l_pages := l_pages l + 1\<rparr>) w1 = (Inr l1, w2)"
    and f: "(if b then flush_phase d (pg_next_cursor page) l1 else io_return l1) w3 = (Inr l2, w4)"
    and rest: "\<exists>w5. (case pg_next_cursor page of
       None \<Rightarrow> io_return (Inl l2)
     | Some c \<Rightarrow>
         (let l3 = l2\<lparr>l_cursor := c\<rparr> in
          if pg_records page = [] then io_bind (idle_phase d l3) (\<lambda>l4. io_return (Inr l4))
          else io_return (Inr l3))) w5 = (Inr r, w')"
    using assms(1) unfolding page_step_def io_bind_Inr_iff by blast
  note tp = take_page_counters [OF p]
  have l1: "l_written l1 + l_duplicates l1 = l_mapped l1" "l_pages l1 = l_pages l + 1"
    "l_commits l1 = l_commits l" "l_exhausted l1 = (pg_next_cursor page = None)"
    using tp assms(2) by (simp_all add: counters_ok_def)
  have l2: "counters_ok l2" "l_pages l2 = l_pages l + 1" "l_exhausted l2 = (pg_next_cursor page = None)"
    using f l1 assms(2) flush_phase_counters [of d "pg_next_cursor page" l1 w3 l2 w4]
    by (auto simp: counters_ok_def io_return_def split: if_splits)
  show ?thesis
    using rest l2
    by (auto simp: Let_def io_return_def io_bind_Inr_iff counters_ok_def
        split: option.splits if_splits dest!: idle_phase_counters)
qed

lemma run_turn_continues:
  assumes "run_turn d l w = (Inr (Inr l'), w')"
  obtains w1 where "page_step d l w1 = (Inr (Inr l'), w')"
    and "case d_max_pages d of None \<Rightarrow> True | Some m \<Rightarrow> l_pages l < m"
proof (cases "case d_max_pages d of None \<Rightarrow> True | Some m \<Rightarrow> l_pages l < m")
  case False
  with assms show thesis by (simp add: run_turn_def io_return_def)
next
  case True
  obtain stopping w1 where s: "(case stopping of
      Some n \<Rightarrow> io_return (Inl (run_snapshot l (Some n)))
    | None \<Rightarrow> io_bind (page_step d l) (\<lambda>r. case r of
        Inl l' \<Rightarrow> io_return (Inl (run_snapshot l' None)) | Inr l' \<Rightarrow> io_return (Inr l'))) w1 = (Inr (Inr l'), w')"
    using assms unfolding run_turn_def if_P [OF True] io_bind_Inr_iff by blast
  then have "stopping = None" by (cases stopping) (auto simp: io_return_def)
  with s obtain r w2 where r: "page_step d l w1 = (Inr r, w2)"
    "(case r of Inl l' \<Rightarrow> io_return (Inl (run_snapshot l' None)) | Inr l' \<Rightarrow> io_return (Inr l')) w2 = (Inr (Inr l'), w')"
    by (auto simp: io_bind_Inr_iff)
  then have "r = Inr l'" "w2 = w'" by (auto simp: io_return_def split: sum.splits)
  with r(1) True that show thesis by blast
qed

lemma run_balances:
  fixes d :: "('r, 'w) deps"
  assumes "run d w = Some (Inr st, w')"
  shows "rs_written st + rs_duplicates_skipped st = rs_mapped st \<and> rs_commits st \<le> rs_pages st \<and>
      (case d_max_pages d of None \<Rightarrow> True | Some m \<Rightarrow> rs_pages st \<le> m)"
    and "(rs_exhausted st \<and> rs_stopped_by st = None \<or> \<not> rs_exhausted st \<and> rs_stopped_by st \<noteq> None \<or>
     \<not> rs_exhausted st \<and> rs_stopped_by st = None \<and> d_max_pages d = Some (rs_pages st))"
proof -
  define bounded where "bounded n \<longleftrightarrow> (case d_max_pages d of None \<Rightarrow> True | Some m \<Rightarrow> n \<le> m)" for n
  define good where "good st \<longleftrightarrow> rs_written st + rs_duplicates_skipped st = rs_mapped st \<and>
    rs_commits st \<le> rs_pages st \<and> bounded (rs_pages st) \<and>
    (rs_exhausted st \<and> rs_stopped_by st = None \<or> \<not> rs_exhausted st \<and> rs_stopped_by st \<noteq> None \<or>
     \<not> rs_exhausted st \<and> rs_stopped_by st = None \<and> d_max_pages d = Some (rs_pages st))" for st :: run_stats
  let ?I = "\<lambda>l (w :: 'w). counters_ok l \<and> \<not> l_exhausted l \<and> bounded (l_pages l)"
  let ?Q = "\<lambda>r (w :: 'w). case r of Inl _ \<Rightarrow> True | Inr st \<Rightarrow> good st"
  have "?Q (Inr st :: exn + run_stats) w'"
  proof (rule run_rule [OF assms, where P = "\<lambda>_. True" and I = ?I and Q = ?Q])
    show "triple (\<lambda>_. True) (run_open d) ?I (\<lambda>x w. ?Q (Inl x) w)"
      by (rule tripleI) (auto dest!: run_open_counters simp: bounded_def split: option.split)
  next
    fix l
    show "triple (?I l) (run_turn d l)
      (\<lambda>q w. case q of Inl st \<Rightarrow> ?Q (Inr st) w | Inr l' \<Rightarrow> ?I l' w) (\<lambda>x w. ?Q (Inl x) w)"
    proof (rule tripleI)
      fix w q t assume I: "?I l w" and turn: "run_turn d l w = (Inr q, t)"
      show "case q of Inl st \<Rightarrow> ?Q (Inr st) t | Inr l' \<Rightarrow> ?I l' t"
      proof (cases "case d_max_pages d of None \<Rightarrow> True | Some m \<Rightarrow> l_pages l < m")
        case False
        obtain m where m: "d_max_pages d = Some m" "m \<le> l_pages l"
          using False by (auto split: option.splits)
        then have "d_max_pages d = Some (l_pages l)" using I by (simp add: bounded_def)
        moreover have "q = Inl (run_snapshot l None)"
          using turn unfolding run_turn_def if_not_P [OF False] by (simp add: io_return_def)
        ultimately show ?thesis
          using I by (simp add: good_def run_snapshot_def counters_ok_def)
      next
        case True
        then have b: "bounded (l_pages l + 1)" by (auto simp: bounded_def split: option.splits)
        from True turn obtain stopping w1 where
          s: "(case stopping of
              Some n \<Rightarrow> io_return (Inl (run_snapshot l (Some n)))
            | None \<Rightarrow> io_bind (page_step d l) (\<lambda>r. case r of
                Inl l' \<Rightarrow> io_return (Inl (run_snapshot l' None)) | Inr l' \<Rightarrow> io_return (Inr l'))) w1 = (Inr q, t)"
          unfolding run_turn_def if_P [OF True] io_bind_Inr_iff by blast
        show ?thesis
        proof (cases stopping)
          case (Some n)
          with s have "q = Inl (run_snapshot l (Some n))" by (simp add: io_return_def)
          with I show ?thesis by (simp add: good_def run_snapshot_def counters_ok_def)
        next
          case None
          with s obtain r w2 where r: "page_step d l w1 = (Inr r, w2)"
            "(case r of Inl l' \<Rightarrow> io_return (Inl (run_snapshot l' None)) | Inr l' \<Rightarrow> io_return (Inr l')) w2 = (Inr q, t)"
            by (auto simp: io_bind_Inr_iff)
          note post = page_step_counters [OF r(1)]
          show ?thesis
          proof (cases r)
            case (Inl l')
            with r(2) have "q = Inl (run_snapshot l' None)" by (simp add: io_return_def)
            with post Inl I b show ?thesis by (simp add: good_def run_snapshot_def counters_ok_def)
          next
            case (Inr l')
            with r(2) have "q = Inr l'" by (simp add: io_return_def)
            with post Inr I b show ?thesis by simp
          qed
        qed
      qed
    qed simp
  qed simp
  then have "good st" by simp
  then show "rs_written st + rs_duplicates_skipped st = rs_mapped st \<and> rs_commits st \<le> rs_pages st \<and>
      (case d_max_pages d of None \<Rightarrow> True | Some m \<Rightarrow> rs_pages st \<le> m)"
    and "(rs_exhausted st \<and> rs_stopped_by st = None \<or> \<not> rs_exhausted st \<and> rs_stopped_by st \<noteq> None \<or>
     \<not> rs_exhausted st \<and> rs_stopped_by st = None \<and> d_max_pages d = Some (rs_pages st))"
    unfolding good_def bounded_def by blast+
qed

text \<open>C9: The numbers a run returns add up: every mapped event was either written or skipped as a
  duplicate, there is at most one commit per page and at most \<open>max_pages\<close> pages, and the run
  ended for exactly one reason: the range was exhausted, a signal stopped it, or the page limit
  was reached with neither.\<close>

theorem run_accounts:
  fixes d :: "('r, 'w) deps"
  assumes "run d w = Some (Inr st, w')"
  shows "rs_written st + rs_duplicates_skipped st = rs_mapped st \<and> rs_commits st \<le> rs_pages st \<and>
    (case d_max_pages d of None \<Rightarrow> True | Some m \<Rightarrow> rs_pages st \<le> m) \<and>
    (rs_exhausted st \<and> rs_stopped_by st = None \<or> \<not> rs_exhausted st \<and> rs_stopped_by st \<noteq> None \<or>
     \<not> rs_exhausted st \<and> rs_stopped_by st = None \<and> d_max_pages d = Some (rs_pages st))"
  using run_balances [OF assms] by blast

lemma run_ends:
  assumes "d_max_pages d = Some m"
  shows "\<exists>r w'. run d w = Some (r, w')"
proof -
  have loop: "\<exists>r w'. run_loop d l w = Some (r, w')" if "counters_ok l" for l w
    using that
  proof (induction "m - l_pages l" arbitrary: l w rule: less_induct)
    case less
    obtain q w1 where q: "run_turn d l w = (q, w1)" by (cases "run_turn d l w")
    show ?case
    proof (cases "\<exists>l'. q = Inr (Inr l')")
      case False
      then show ?thesis using q by (subst run_loop.simps) (auto split: sum.splits)
    next
      case True
      then obtain l' where l': "q = Inr (Inr l')" by blast
      from q [unfolded l'] obtain w2 where step: "page_step d l w2 = (Inr (Inr l'), w1)"
        and "case d_max_pages d of None \<Rightarrow> True | Some m \<Rightarrow> l_pages l < m"
        by (rule run_turn_continues)
      then have lt: "l_pages l < m" using assms by simp
      from page_step_counters [OF step less.prems] have "counters_ok l'" "l_pages l' = l_pages l + 1" by auto
      with less.hyps [of l' w1] lt have "\<exists>r w'. run_loop d l' w1 = Some (r, w')" by simp
      with q l' show ?thesis by (subst run_loop.simps) simp
    qed
  qed
  show ?thesis
  proof (cases "run_open d w")
    case (Pair q w1)
    have "counters_ok l" if "q = Inr l" for l
      using Pair that run_open_counters by fast
    with Pair loop show ?thesis by (cases q) (auto simp: run_def)
  qed
qed

text \<open>C19: A run with a page limit ends: it returns or raises after at most that many pages,
  whatever the source, the mapper, the sink and the store do.\<close>

theorem run_terminates:
  assumes "d_max_pages d = Some m"
  shows "\<exists>r w'. run d w = Some (r, w')"
  by (rule run_ends [OF assms])

subsection \<open>A scripted source\<close>

text \<open>
  A source that serves the given pages, a sink that remembers what was written and flushes only
  when told to, a store that keeps its promises (\<open>StateStore\<close>) within the time to live: the
  uids of a commit are withheld afterwards. The state is the written events and the commits.
\<close>

definition script_deps ::
  "(string \<times> ocsf_event page) list \<Rightarrow> (ocsf_event, ocsf_event list \<times> (string option \<times> string list) list) deps" where
  "script_deps pages =
     \<lparr>d_get_cursor = io_return None, d_start = io_return ''c0'', d_clock = io_return 0, d_stop_signal = None,
      d_fetch = (\<lambda>c. case map_of pages c of None \<Rightarrow> io_raise TransportErr | Some p \<Rightarrow> io_return p),
      d_map = io_return,
      d_filter_unseen = (\<lambda>us (wr, cs). (Inr (filter (\<lambda>u. u \<notin> set (concat (map snd cs))) (uniq us)), (wr, cs))),
      d_record_published = (\<lambda>_. io_return ()), d_write = (\<lambda>es (wr, cs). (Inr (), (wr @ es, cs))),
      d_should_flush = io_return False, d_flush = (\<lambda>_. io_return ()),
      d_commit = (\<lambda>c us (wr, cs). (Inr (), (wr, cs @ [(c, us)]))),
      d_mark_caught_up = io_return (), d_purge_expired = io_return (),
      d_on_progress = None, d_on_idle = None, d_metric = (\<lambda>_ w. w), d_max_pages = Some 5,
      d_purge_every = 3600, d_caught_up_every = 3600\<rparr>"

definition one_page :: "ocsf_event list \<Rightarrow> (string \<times> ocsf_event page) list" where
  "one_page es = [(''c0'', \<lparr>pg_records = es, pg_next_cursor = None\<rparr>)]"

definition two_pages :: "ocsf_event list \<Rightarrow> ocsf_event list \<Rightarrow> (string \<times> ocsf_event page) list" where
  "two_pages es fs =
     [(''c0'', \<lparr>pg_records = es, pg_next_cursor = Some ''c1''\<rparr>), (''c1'', \<lparr>pg_records = fs, pg_next_cursor = None\<rparr>)]"

lemmas script_run_simps =
  run_def run_open_def run_turn_def page_step_def take_page_def published_phase_def flush_phase_def
  idle_phase_def run_snapshot_def io_on_error_def io_bind_def io_return_def io_modify_def script_deps_def
  one_page_def two_pages_def uniq_def Let_def


definition plain_event :: "string \<Rightarrow> ocsf_event" where
  "plain_event uid = \<lparr>ev_class_uid = 0, ev_time_ms = 0, ev_uid = uid, ev_body = []\<rparr>"


lemma run_accounts_witness:
  "\<exists>st w'. run (script_deps (two_pages [plain_event ''u''] [plain_event ''v'', plain_event ''v''])) ([], []) = Some (Inr st, w') \<and>
     rs_written st + rs_duplicates_skipped st = rs_mapped st \<and> rs_mapped st = 3"
proof -
  obtain st w' where run: "run (script_deps (two_pages [plain_event ''u''] [plain_event ''v'', plain_event ''v''])) ([], []) = Some (Inr st, w')"
    and "rs_mapped st = 3"
    by (simp add: script_run_simps run_loop.simps plain_event_def)
  with run_accounts [OF run] show ?thesis by blast
qed

lemma run_terminates_witness: "run (script_deps (two_pages [] [])) ([], []) \<noteq> None"
  using run_terminates [of "script_deps (two_pages [] [])" 5 "([], [])"] by (auto simp: script_deps_def)

subsection \<open>The opening cursor\<close>

text \<open>The loop never opens: \<open>d_start\<close> is called before it, and only when the store has no cursor.\<close>

lemma run_turn_start: "run_turn (d\<lparr>d_start := st\<rparr>) l = run_turn d l"
  by (cases d, hypsubst)
     (unfold run_turn_def page_step_def take_page_def flush_phase_def idle_phase_def published_phase_def
        deps.select_convs deps.update_convs, rule refl)

lemma run_loop_start_le: "run_loop d l w = Some r \<Longrightarrow> run_loop (d\<lparr>d_start := st\<rparr>) l w = Some r"
proof -
  assume run: "run_loop d l w = Some r"
  have "d = d \<longrightarrow> run_loop (d\<lparr>d_start := st\<rparr>) l w = Some r"
  proof (rule run_loop.raw_induct [where P = "\<lambda>d' l w r. d' = d \<longrightarrow> run_loop (d\<lparr>d_start := st\<rparr>) l w = Some r"])
    show "run_loop d l w = Some r" by (rule run)
  next
    fix loop d' l w r
    assume "\<And>d' l w r. loop d' l w = Some r \<Longrightarrow> d' = d \<longrightarrow> run_loop (d\<lparr>d_start := st\<rparr>) l w = Some r"
      and "(case run_turn d' l w of (Inl x, w') \<Rightarrow> Some (Inl x, w')
        | (Inr (Inl stats), w') \<Rightarrow> Some (Inr stats, w') | (Inr (Inr l'), w') \<Rightarrow> loop d' l' w') = Some r"
    then show "d' = d \<longrightarrow> run_loop (d\<lparr>d_start := st\<rparr>) l w = Some r"
      by (subst run_loop.simps) (cases r; auto simp: run_turn_start split: prod.splits sum.splits)
  qed
  then show ?thesis by simp
qed

lemma run_loop_start: "run_loop (d\<lparr>d_start := st\<rparr>) l w = run_loop d l w"
proof (cases "run_loop d l w")
  case (Some r)
  then show ?thesis by (simp add: run_loop_start_le)
next
  case None
  have "run_loop (d\<lparr>d_start := st\<rparr>) l w \<noteq> Some r" for r
  proof
    assume "run_loop (d\<lparr>d_start := st\<rparr>) l w = Some r"
    from run_loop_start_le [OF this, of "d_start d"] None show False by simp
  qed
  with None show ?thesis by (cases "run_loop (d\<lparr>d_start := st\<rparr>) l w") auto
qed

lemma run_start_unread:
  assumes "fst (d_get_cursor d w) \<noteq> Inr None"
  shows "run (d\<lparr>d_start := st\<rparr>) w = run d w"
proof -
  have "run_open (d\<lparr>d_start := st\<rparr>) w = run_open d w"
    using assms by (cases "d_get_cursor d w") (auto simp: run_open_def io_bind_def split: sum.splits option.splits)
  then show ?thesis by (simp add: run_def run_loop_start split: prod.split sum.split)
qed

subsection \<open>What every call keeps\<close>

text \<open>If the calls of a run keep a predicate, raising aside, so does a turn of the loop.\<close>

definition keeps :: "('w \<Rightarrow> bool) \<Rightarrow> ('a, 'w) io \<Rightarrow> bool" where
  "keeps I m \<longleftrightarrow> triple I m (\<lambda>_. I) (\<lambda>_ _. True)"

definition deps_keep :: "('w \<Rightarrow> bool) \<Rightarrow> ('r, 'w) deps \<Rightarrow> bool" where
  "deps_keep I d \<longleftrightarrow>
     keeps I (d_get_cursor d) \<and> keeps I (d_start d) \<and> keeps I (d_clock d) \<and>
     (\<forall>poll. d_stop_signal d = Some poll \<longrightarrow> keeps I poll) \<and>
     (\<forall>c. keeps I (d_fetch d c)) \<and> (\<forall>r. keeps I (d_map d r)) \<and> (\<forall>us. keeps I (d_filter_unseen d us)) \<and>
     (\<forall>ms. keeps I (d_record_published d ms)) \<and> (\<forall>es. keeps I (d_write d es)) \<and> keeps I (d_should_flush d) \<and>
     (\<forall>key. keeps I (d_flush d key)) \<and> (\<forall>c us. keeps I (d_commit d c us)) \<and> keeps I (d_mark_caught_up d) \<and>
     keeps I (d_purge_expired d) \<and> (\<forall>report st. d_on_progress d = Some report \<longrightarrow> keeps I (report st)) \<and>
     (\<forall>idle. d_on_idle d = Some idle \<longrightarrow> keeps I idle) \<and> (\<forall>mt w. I w \<longrightarrow> I (d_metric d mt w))"

named_theorems keeps_rules \<open>calls that keep a predicate, put together\<close>

lemma keeps_bind [keeps_rules]: "keeps I m \<Longrightarrow> (\<And>x. keeps I (f x)) \<Longrightarrow> keeps I (io_bind m f)"
  unfolding keeps_def by (rule triple_bind)

lemma keeps_return [keeps_rules]: "keeps I (io_return x)"
  unfolding keeps_def by (rule triple_return)

lemma keeps_modify: "(\<And>w. I w \<Longrightarrow> I (f w)) \<Longrightarrow> keeps I (io_modify f)"
  unfolding keeps_def by (rule triple_modify)

lemma keeps_if [keeps_rules]: "(b \<Longrightarrow> keeps I m) \<Longrightarrow> (\<not> b \<Longrightarrow> keeps I n) \<Longrightarrow> keeps I (if b then m else n)"
  by simp

lemma keeps_on_error [keeps_rules]: "keeps I m \<Longrightarrow> keeps I (io_on_error m h)"
  unfolding keeps_def by (rule triple_on_error) simp_all

lemma keeps_map [keeps_rules]: "(\<And>x. keeps I (f x)) \<Longrightarrow> keeps I (io_map f xs)"
  unfolding keeps_def
  by (rule triple_weaken [OF triple_map [where A = "\<lambda>_ _. True" and P = I and R = "\<lambda>_ _. True"]]) simp_all

lemma keeps_option: "(v = None \<Longrightarrow> keeps I m) \<Longrightarrow> (\<And>x. v = Some x \<Longrightarrow> keeps I (f x)) \<Longrightarrow>
    keeps I (case v of None \<Rightarrow> m | Some x \<Rightarrow> f x)"
  by (cases v) simp_all

lemma keeps_sum: "(\<And>x. keeps I (g x)) \<Longrightarrow> (\<And>x. keeps I (f x)) \<Longrightarrow>
    keeps I (case v of Inl x \<Rightarrow> g x | Inr x \<Rightarrow> f x)"
  by (cases v) simp_all

lemma take_page_keeps:
  assumes "deps_keep I d" shows "keeps I (take_page d page l)"
  using assms unfolding take_page_def published_phase_def Let_def deps_keep_def
  by (intro keeps_rules keeps_modify) auto

lemma flush_phase_keeps:
  assumes "deps_keep I d" shows "keeps I (flush_phase d c l)"
  using assms unfolding flush_phase_def Let_def deps_keep_def
  by (intro keeps_rules keeps_modify) auto

lemma idle_phase_keeps:
  assumes "deps_keep I d" shows "keeps I (idle_phase d l)"
  using assms unfolding idle_phase_def deps_keep_def
  by (intro keeps_rules keeps_option) auto

lemma page_step_keeps:
  assumes "deps_keep I d" shows "keeps I (page_step d l)"
  using assms take_page_keeps [OF assms] flush_phase_keeps [OF assms] idle_phase_keeps [OF assms]
  unfolding page_step_def Let_def deps_keep_def
  by (intro keeps_rules keeps_option) auto

lemma run_open_keeps:
  assumes "deps_keep I d" shows "keeps I (run_open d)"
  using assms unfolding run_open_def deps_keep_def
  by (intro keeps_rules keeps_option) auto

lemma run_turn_keeps:
  assumes "deps_keep I d" shows "keeps I (run_turn d l)"
  using assms page_step_keeps [OF assms] unfolding run_turn_def deps_keep_def
  by (intro keeps_rules keeps_option keeps_sum) auto

end
