(* ===== verification/Calendar.thy ===== *)
theory Calendar
  imports Prelude
begin

section \<open>Dates\<close>

text \<open>
  What the connector uses of Python's \<open>datetime\<close>: the proleptic Gregorian calendar of
  \<open>date.fromordinal\<close> and \<open>date.toordinal\<close> (\<open>_ord2ymd\<close>, \<open>_ymd2ord\<close> of the standard
  library), years 1 to 9999. The main lemma is that the two are inverse, from which the
  formatted day of an instant determines the day.
\<close>

definition is_leap :: "int \<Rightarrow> bool" where
  "is_leap y \<longleftrightarrow> y mod 4 = 0 \<and> (y mod 100 \<noteq> 0 \<or> y mod 400 = 0)"

definition days_before_year :: "int \<Rightarrow> int" where
  "days_before_year y = (let p = y - 1 in p * 365 + p div 4 - p div 100 + p div 400)"

text \<open>Indexed by the month, 1 to 12; the first entry is a placeholder.\<close>

definition DAYS_IN_MONTH :: "int list" where
  "DAYS_IN_MONTH = [-1, 31, 28, 31, 30, 31, 30, 31, 31, 30, 31, 30, 31]"

definition DAYS_BEFORE_MONTH :: "int list" where
  "DAYS_BEFORE_MONTH = [-1, 0, 31, 59, 90, 120, 151, 181, 212, 243, 273, 304, 334]"

definition days_before_month :: "bool \<Rightarrow> nat \<Rightarrow> int" where
  "days_before_month leap m = DAYS_BEFORE_MONTH ! m + (if 2 < m \<and> leap then 1 else 0)"

definition days_in_month :: "bool \<Rightarrow> nat \<Rightarrow> int" where
  "days_in_month leap m = (if m = 2 \<and> leap then 29 else DAYS_IN_MONTH ! m)"

definition ymd2ord :: "int \<times> nat \<times> int \<Rightarrow> int" where
  "ymd2ord = (\<lambda>(y, m, d). days_before_year y + days_before_month (is_leap y) m + d)"

text \<open>Month and day of the day numbered \<open>n\<close> from 0 in a year: the estimate \<open>(n + 50) >> 5\<close> is
  right or one too large.\<close>

definition month_day :: "bool \<Rightarrow> int \<Rightarrow> nat \<times> int" where
  "month_day leap n =
     (let m = nat ((n + 50) div 32);
          p = days_before_month leap m
      in if n < p then (m - 1, n - (p - days_in_month leap (m - 1)) + 1) else (m, n - p + 1))"

definition ord2ymd :: "int \<Rightarrow> int \<times> nat \<times> int" where
  "ord2ymd ord =
     (let n = ord - 1;
          n400 = n div 146097; n = n mod 146097;
          n100 = n div 36524; n = n mod 36524;
          n4 = n div 1461; n = n mod 1461;
          n1 = n div 365; n = n mod 365;
          year = n400 * 400 + 1 + n100 * 100 + n4 * 4 + n1
      in if n1 = 4 \<or> n100 = 4 then (year - 1, 12, 31)
         else (year, month_day (n1 = 3 \<and> (n4 \<noteq> 24 \<or> n100 = 3)) n))"

subsection \<open>\<open>ymd2ord\<close> undoes \<open>ord2ymd\<close>\<close>

definition month_day_ok :: "bool \<Rightarrow> int \<Rightarrow> bool" where
  "month_day_ok leap n \<longleftrightarrow>
     (case month_day leap n of (m, d) \<Rightarrow>
        days_before_month leap m + d = n + 1 \<and> 1 \<le> m \<and> m \<le> 12 \<and> 1 \<le> d \<and> d \<le> days_in_month leap m)"

lemma month_day_ok_all: "list_all (\<lambda>n. month_day_ok False n \<and> month_day_ok True n) [0..364]"
  by code_simp

lemma month_day_ok_365: "month_day_ok True 365"
  by code_simp

lemma month_day_correct: "0 \<le> n \<Longrightarrow> n < 365 \<Longrightarrow> month_day_ok leap n"
  using month_day_ok_all by (cases leap) (auto simp: list_all_iff)

lemma year_parts:
  assumes "0 \<le> b" "b \<le> 3" "0 \<le> c" "c \<le> 24" "0 \<le> d" "d \<le> (3::int)"
  shows "days_before_year (a * 400 + 1 + b * 100 + c * 4 + d) =
      146097 * a + 36524 * b + 1461 * c + 365 * d"
    and "is_leap (a * 400 + 1 + b * 100 + c * 4 + d) \<longleftrightarrow> d = 3 \<and> (c \<noteq> 24 \<or> b = 3)"
proof -
  let ?p = "a * 400 + b * 100 + c * 4 + d"
  have 4: "?p div 4 = 100 * a + 25 * b + c" using assms by linarith
  have 100: "?p div 100 = 4 * a + b" using assms by linarith
  have 400: "?p div 400 = a" using assms by linarith
  show "days_before_year (a * 400 + 1 + b * 100 + c * 4 + d) =
      146097 * a + 36524 * b + 1461 * c + 365 * d"
    using 4 100 400 by (simp add: days_before_year_def Let_def algebra_simps)
  show "is_leap (a * 400 + 1 + b * 100 + c * 4 + d) \<longleftrightarrow> d = 3 \<and> (c \<noteq> 24 \<or> b = 3)"
  proof (cases "d = 3")
    case False
    then have d: "d = 0 \<or> d = 1 \<or> d = 2" using assms by linarith
    have "a * 400 + 1 + b * 100 + c * 4 + d = (d + 1) + 4 * (100 * a + 25 * b + c)" by simp
    then have "(a * 400 + 1 + b * 100 + c * 4 + d) mod 4 = (d + 1) mod 4"
      by (metis mod_mult_self2)
    then have "(a * 400 + 1 + b * 100 + c * 4 + d) mod 4 = d + 1" using d by auto
    with False assms show ?thesis by (simp add: is_leap_def)
  next
    case True
    have y: "a * 400 + 1 + b * 100 + c * 4 + d = 4 * (100 * a + 25 * b + c + 1)"
      using True by simp
    have "4 * (100 * a + 25 * b + c + 1) = 4 * (c + 1) + 100 * (4 * a + b)" by simp
    then have m100: "(4 * (100 * a + 25 * b + c + 1)) mod 100 = (4 * (c + 1)) mod 100"
      by (metis mod_mult_self2)
    have "4 * (100 * a + 25 * b + c + 1) = (100 * b + 4 * (c + 1)) + 400 * a" by simp
    then have m400: "(4 * (100 * a + 25 * b + c + 1)) mod 400 = (100 * b + 4 * (c + 1)) mod 400"
      by (metis mod_mult_self2)
    let ?y = "a * 400 + 1 + b * 100 + c * 4 + d"
    have y4: "?y mod 4 = 0" unfolding y by simp
    show ?thesis
    proof (cases "c = 24")
      case False
      have "(4 * (c + 1)) mod 100 = 4 * (c + 1)" using False assms by simp
      then have "?y mod 100 \<noteq> 0" unfolding y m100 using assms by simp
      with y4 True False show ?thesis by (simp only: is_leap_def) simp
    next
      case c: True
      have y100: "?y mod 100 = 0" unfolding y m100 using c by simp
      have "b = 0 \<or> b = 1 \<or> b = 2 \<or> b = 3" using assms by linarith
      then have "?y mod 400 = 0 \<longleftrightarrow> b = 3" unfolding y m400 using c by auto
      with y4 y100 True c show ?thesis by (simp only: is_leap_def) simp
    qed
  qed
qed

lemma dec31: "days_before_month True 12 + 31 = 366"
  by (simp add: days_before_month_def DAYS_BEFORE_MONTH_def)

text \<open>
  The two branches of \<open>ord2ymd\<close>: the last day of a leap year, where the quotients overshoot,
  and every other day.
\<close>

lemma ord2ymd_cases:
  obtains y where "ord2ymd ord = (y, 12, 31)" "is_leap y" "days_before_year y + 366 = ord"
  | y n m d where "ord2ymd ord = (y, m, d)" "month_day (is_leap y) n = (m, d)" "0 \<le> n" "n < 365"
      "days_before_year y + n + 1 = ord"
proof -
  define a where "a = (ord - 1) div 146097"
  define r where "r = (ord - 1) mod 146097"
  define b where "b = r div 36524"
  define r2 where "r2 = r mod 36524"
  define c where "c = r2 div 1461"
  define r3 where "r3 = r2 mod 1461"
  define d where "d = r3 div 365"
  define n where "n = r3 mod 365"
  have r: "ord - 1 = 146097 * a + r" "0 \<le> r" "r < 146097" by (auto simp: a_def r_def)
  have r2: "r = 36524 * b + r2" "0 \<le> r2" "r2 < 36524" by (auto simp: b_def r2_def)
  have r3: "r2 = 1461 * c + r3" "0 \<le> r3" "r3 < 1461" by (auto simp: c_def r3_def)
  have n: "r3 = 365 * d + n" "0 \<le> n" "n < 365" by (auto simp: d_def n_def)
  have b: "0 \<le> b" "b \<le> 4" using r r2 by linarith+
  have c: "0 \<le> c" "c \<le> 24" using r2 r3 by linarith+
  have d: "0 \<le> d" "d \<le> 4" using r3 n by linarith+
  have eq: "ord2ymd ord = (let year = a * 400 + 1 + b * 100 + c * 4 + d in
      if d = 4 \<or> b = 4 then (year - 1, 12, 31)
      else (year, month_day (d = 3 \<and> (c \<noteq> 24 \<or> b = 3)) n))"
    by (simp add: ord2ymd_def Let_def a_def b_def c_def d_def n_def r_def r2_def r3_def)
  consider "b = 4" | "b \<noteq> 4" "d = 4" | "b \<noteq> 4" "d \<noteq> 4" by blast
  then show thesis
  proof cases
    case 1
    then have z: "r2 = 0" "c = 0" "d = 0" "n = 0" using r r2 r3 n c d by linarith+
    have "ord2ymd ord = (a * 400 + 400, 12, 31)" using 1 z by (simp add: eq)
    then show thesis
      using year_parts [of 3 24 3 a] r r2 1 z by (intro that(1)) (simp_all add: algebra_simps)
  next
    case 2
    then have z: "n = 0" using r3 n by linarith
    with 2 have cb: "c \<noteq> 24 \<or> b = 3" using r r2 r3 n b by linarith
    have "ord2ymd ord = (a * 400 + 1 + b * 100 + c * 4 + 3, 12, 31)" using 2 by (simp add: eq)
    moreover have b3: "b \<le> 3" using 2 b by linarith
    note parts = year_parts [OF b(1) b3 c, of 3 a]
    have "is_leap (a * 400 + 1 + b * 100 + c * 4 + 3)" using parts(2) cb by simp
    moreover have "days_before_year (a * 400 + 1 + b * 100 + c * 4 + 3) =
        146097 * a + 36524 * b + 1461 * c + 365 * 3"
      using parts(1) by simp
    then have "days_before_year (a * 400 + 1 + b * 100 + c * 4 + 3) + 366 = ord"
      using 2 z r r2 r3 n by linarith
    ultimately show thesis by (intro that(1))
  next
    case 3
    then have b3: "b \<le> 3" and d3: "d \<le> 3" using b d by linarith+
    note parts = year_parts [OF b(1) b3 c d(1) d3, of a]
    obtain m e where me: "month_day (d = 3 \<and> (c \<noteq> 24 \<or> b = 3)) n = (m, e)" by force
    then have "ord2ymd ord = (a * 400 + 1 + b * 100 + c * 4 + d, m, e)" using 3 by (simp add: eq)
    moreover have "month_day (is_leap (a * 400 + 1 + b * 100 + c * 4 + d)) n = (m, e)"
      using me parts(2) by (simp only:)
    moreover have "days_before_year (a * 400 + 1 + b * 100 + c * 4 + d) + n + 1 = ord"
      using parts(1) r r2 r3 n by linarith
    ultimately show thesis using n(2,3) by (intro that(2))
  qed
qed

lemma month_day_bounds:
  assumes "month_day leap n = (m, d)" and "0 \<le> n" and "n < 365"
  shows "days_before_month leap m + d = n + 1" and "1 \<le> m" and "m \<le> 12" and "1 \<le> d" and "d \<le> 31"
proof -
  have ok: "days_before_month leap m + d = n + 1 \<and> 1 \<le> m \<and> m \<le> 12 \<and> 1 \<le> d \<and> d \<le> days_in_month leap m"
    using month_day_correct [OF assms(2,3), of leap] assms(1) by (simp add: month_day_ok_def)
  then show "days_before_month leap m + d = n + 1" "1 \<le> m" "m \<le> 12" "1 \<le> d" by blast+
  have "m \<in> set [1..<13]" using ok by auto
  then have "days_in_month leap m \<le> 31"
    by (auto simp: days_in_month_def DAYS_IN_MONTH_def upt_rec nth_Cons')
  with ok show "d \<le> 31" by linarith
qed

lemma ymd2ord_ord2ymd: "ymd2ord (ord2ymd ord) = ord"
proof (rule ord2ymd_cases [of ord])
  fix y assume "ord2ymd ord = (y, 12, 31)" "is_leap y" "days_before_year y + 366 = ord"
  then show ?thesis using dec31 by (simp add: ymd2ord_def)
next
  fix y n m d
  assume "ord2ymd ord = (y, m, d)" "month_day (is_leap y) n = (m, d)" "0 \<le> n" "n < 365"
    "days_before_year y + n + 1 = ord"
  then show ?thesis using month_day_bounds(1) [of "is_leap y" n m d] by (simp add: ymd2ord_def)
qed

lemma ord2ymd_inj: "ord2ymd a = ord2ymd b \<Longrightarrow> a = b"
  by (metis ymd2ord_ord2ymd)

subsection \<open>The formatted day of an instant\<close>

definition MAX_ORDINAL :: int where
  "MAX_ORDINAL = 3652059"

definition EPOCH_ORDINAL :: int where
  "EPOCH_ORDINAL = 719163"

text \<open>\<open>strftime("%Y%m%d")\<close>.\<close>

definition strftime_ymd :: "int \<times> nat \<times> int \<Rightarrow> string" where
  "strftime_ymd = (\<lambda>(y, m, d). pad_left 4 (nat_str (nat y)) @ pad_left 2 (nat_str m) @ pad_left 2 (nat_str (nat d)))"

text \<open>\<open>datetime.fromtimestamp(ms / 1000, UTC).strftime("%Y%m%d")\<close>; an instant outside the years
  1 to 9999 raises.\<close>

definition utc_day :: "int \<Rightarrow> exn + string" where
  "utc_day ms =
     (let ord = ms div 86400000 + EPOCH_ORDINAL in
        if 1 \<le> ord \<and> ord \<le> MAX_ORDINAL then Inr (strftime_ymd (ord2ymd ord))
        else Inl (ValueError (int_str ms)))"

lemma days_before_year_low:
  assumes "y \<le> 0"
  shows "days_before_year y \<le> - 366"
proof -
  define p q4 q100 q400 where "p = y - 1" "q4 = p div 4" "q100 = p div 100" "q400 = p div 400"
  have "q4 \<le> q100" unfolding p_q4_q100_q400_def using assms by (intro zdiv_mono2_neg) auto
  moreover have "q400 \<le> -1" unfolding p_q4_q100_q400_def using assms by linarith
  moreover have "p \<le> -1" unfolding p_q4_q100_q400_def using assms by simp
  moreover have "days_before_year y = p * 365 + q4 - q100 + q400"
    by (simp add: days_before_year_def Let_def p_q4_q100_q400_def)
  ultimately show ?thesis by linarith
qed

lemma days_before_year_high:
  assumes "10000 \<le> y"
  shows "MAX_ORDINAL \<le> days_before_year y"
proof -
  define p q s t where "p = y - 1" "q = p div 4" "s = q div 25" "t = p div 400"
  note defs = p_q_s_t_def
  have p: "9999 \<le> p" unfolding defs using assms by simp
  then have q: "2499 \<le> q" unfolding defs by linarith
  have "q = 25 * s + q mod 25" "0 \<le> q mod 25" "q mod 25 < 25" by (simp_all add: defs(3))
  with q have "2400 \<le> q - s" by linarith
  moreover have "24 \<le> t" using p unfolding defs(4) by linarith
  moreover have "p div 100 = s" by (simp add: defs(2,3) flip: zdiv_zmult2_eq)
  then have "days_before_year y = p * 365 + q - s + t"
    by (simp add: days_before_year_def Let_def defs(1,2,4))
  ultimately show ?thesis using p unfolding MAX_ORDINAL_def by linarith
qed

lemma month_day_of_ord2ymd:
  assumes "ord2ymd ord = (y, m, d)"
  shows "1 \<le> m" and "m \<le> 12" and "1 \<le> d" and "d \<le> 31"
    and "days_before_month (is_leap y) m + d \<in> {1..366}"
proof -
  have "1 \<le> m \<and> m \<le> 12 \<and> 1 \<le> d \<and> d \<le> 31 \<and> days_before_month (is_leap y) m + d \<in> {1..366}"
  proof (rule ord2ymd_cases [of ord])
    fix y' assume "ord2ymd ord = (y', 12, 31)" "is_leap y'"
    then show ?thesis using assms dec31 by simp
  next
    fix y' n m' d' assume "ord2ymd ord = (y', m', d')" "month_day (is_leap y') n = (m', d')" "0 \<le> n" "n < 365"
    then show ?thesis using assms month_day_bounds [of "is_leap y'" n m' d'] by simp
  qed
  then show "1 \<le> m" "m \<le> 12" "1 \<le> d" "d \<le> 31" "days_before_month (is_leap y) m + d \<in> {1..366}"
    by blast+
qed

lemma ord2ymd_range:
  assumes "1 \<le> ord" and "ord \<le> MAX_ORDINAL" and "ord2ymd ord = (y, m, d)"
  shows "1 \<le> y" and "y \<le> 9999"
proof -
  have "ord = days_before_year y + (days_before_month (is_leap y) m + d)"
    using ymd2ord_ord2ymd [of ord] assms(3) by (simp add: ymd2ord_def)
  then have b: "days_before_year y + 1 \<le> ord" "ord \<le> days_before_year y + 366"
    using month_day_of_ord2ymd(5) [OF assms(3)] by auto
  show "1 \<le> y" using days_before_year_low [of y] b assms(1) by (cases "y \<le> 0") auto
  show "y \<le> 9999" using days_before_year_high [of y] b assms(2) by (cases "10000 \<le> y") auto
qed

lemma append_fixed_inj:
  "length a = length b \<Longrightarrow> a @ c = b @ d \<Longrightarrow> a = b \<and> c = d"
  by simp

lemma strftime_inj:
  assumes "strftime_ymd (y, m, d) = strftime_ymd (y', m', d')"
    and "0 \<le> y" "y \<le> 9999" "0 \<le> y'" "y' \<le> 9999" "m \<le> 12" "m' \<le> 12" "0 \<le> d" "d \<le> 31" "0 \<le> d'" "d' \<le> 31"
  shows "(y, m, d) = (y', m', d')"
proof -
  have l4: "length (pad_left 4 (nat_str (nat x))) = 4" if "x \<le> 9999" for x
    using that by (intro length_pad length_nat_str) auto
  have l2: "length (pad_left 2 (nat_str x)) = 2" if "x \<le> 31" for x
    using that by (intro length_pad length_nat_str) auto
  have "pad_left 4 (nat_str (nat y)) = pad_left 4 (nat_str (nat y')) \<and>
      pad_left 2 (nat_str m) = pad_left 2 (nat_str m') \<and>
      pad_left 2 (nat_str (nat d)) = pad_left 2 (nat_str (nat d'))"
    using assms l4 [of y] l4 [of y'] l2 [of m] l2 [of m'] by (simp add: strftime_ymd_def)
  then have "nat y = nat y' \<and> m = m' \<and> nat d = nat d'"
    by (blast dest: pad_left_inj)
  with assms show ?thesis by auto
qed

text \<open>Two instants format to one day just if they fall on one UTC day.\<close>

lemma utc_day_eq_iff:
  assumes "utc_day a = Inr s" and "utc_day b = Inr t"
  shows "s = t \<longleftrightarrow> a div 86400000 = b div 86400000"
proof
  define oa where "oa = a div 86400000 + EPOCH_ORDINAL"
  define ob where "ob = b div 86400000 + EPOCH_ORDINAL"
  have ra: "1 \<le> oa" "oa \<le> MAX_ORDINAL" "s = strftime_ymd (ord2ymd oa)"
    and rb: "1 \<le> ob" "ob \<le> MAX_ORDINAL" "t = strftime_ymd (ord2ymd ob)"
    using assms by (auto simp: utc_day_def Let_def oa_def ob_def split: if_splits)
  assume st: "s = t"
  obtain y m d where a: "ord2ymd oa = (y, m, d)" by (cases "ord2ymd oa")
  obtain y' m' d' where b: "ord2ymd ob = (y', m', d')" by (cases "ord2ymd ob")
  have "(y, m, d) = (y', m', d')"
    using st ra(3) rb(3) a b ord2ymd_range [OF ra(1,2) a] ord2ymd_range [OF rb(1,2) b]
      month_day_of_ord2ymd [OF a] month_day_of_ord2ymd [OF b]
    by (intro strftime_inj) auto
  with a b have "oa = ob" by (intro ord2ymd_inj) simp
  then show "a div 86400000 = b div 86400000" by (simp add: oa_def ob_def)
next
  assume "a div 86400000 = b div 86400000"
  with assms show "s = t" by (simp add: utc_day_def Let_def split: if_splits)
qed

end
