(* ===== verification/LakeSink.thy ===== *)
theory LakeSink
  imports Domain ObjectStore Naming Calendar
begin

section \<open>The Security Lake sink\<close>

text \<open>
  \<open>src/ocsf_connector/sinks/security_lake.py\<close>: the buffer, the flush trigger, and \<open>flush\<close>,
  which writes one Parquet object per OCSF class and event day under a key derived from the
  batch key. pyarrow (building a column and writing the file) and SHA-256 are parameters, and
  so is the object store, whose laws are the locale \<open>object_store\<close>.
\<close>

definition MAX_BYTES :: int where
  "MAX_BYTES = 256 * 1024 * 1024"

definition MAX_SECONDS :: seconds where
  "MAX_SECONDS = 5 * 60"

subsection \<open>The table of an object\<close>

datatype arrow_type =
    Int32
  | Int64
  | Utf8
  | Struct "(string \<times> arrow_type) list"
  | ListOf arrow_type

definition SPINE :: "(string \<times> arrow_type) list" where
  "SPINE =
    [(''time'', Int64), (''class_uid'', Int32), (''category_uid'', Int32), (''activity_id'', Int32),
     (''type_uid'', Int64), (''severity_id'', Int32), (''status_id'', Int32), (''status'', Utf8),
     (''status_detail'', Utf8), (''message'', Utf8),
     (''metadata'', Struct
        [(''version'', Utf8), (''uid'', Utf8), (''original_time'', Utf8), (''event_code'', Utf8),
         (''product'', Struct [(''name'', Utf8), (''vendor_name'', Utf8)]),
         (''labels'', ListOf Utf8)]),
     (''unmapped'', Utf8)]"

text \<open>
  \<open>pa.array(values, type=t)\<close>, the type inferred where none is given, and \<open>pq.write_table\<close> with
  its row group size; either may raise.
\<close>

record ('c, 'b) arrow =
  ar_array :: "arrow_type option \<Rightarrow> json list \<Rightarrow> exn + 'c"
  ar_write_table :: "(string \<times> 'c) list \<Rightarrow> nat option \<Rightarrow> exn + 'b"

definition lake_row :: "ocsf_event \<Rightarrow> json_dict" where
  "lake_row e =
     (let u = dict_get (ev_body e) ''unmapped''
      in AList.update ''unmapped'' (JStr (json_dumps True (if truthy u then u else JObj []))) (ev_body e))"

definition extra_names :: "json_dict list \<Rightarrow> string list" where
  "extra_names rows =
     sort (filter (\<lambda>k. k \<notin> fst ` set SPINE) (uniq (concat (map (map fst) rows))))"

definition lake_table :: "('c, 'b) arrow \<Rightarrow> ocsf_event list \<Rightarrow> exn + (string \<times> 'c) list" where
  "lake_table A events =
     (let rows = map lake_row events;
          values = (\<lambda>k. map (\<lambda>row. dict_get row k) rows)
      in res_bind (res_map (\<lambda>(k, t). res_bind (ar_array A (Some t) (values k)) (\<lambda>c. Inr (k, c))) SPINE) (\<lambda>spine.
         res_bind (res_map (\<lambda>k. res_bind (ar_array A None (values k)) (\<lambda>c. Inr (k, c)))
             (filter (\<lambda>k. \<not> list_all (\<lambda>v. v = JNull) (values k)) (extra_names rows))) (\<lambda>extra.
         Inr (spine @ extra))))"

definition parquet_bytes :: "('c, 'b) arrow \<Rightarrow> ocsf_event list \<Rightarrow> exn + 'b" where
  "parquet_bytes A events =
     res_bind (lake_table A (sort_key ev_time_ms events)) (\<lambda>table.
       ar_write_table A table (if events = [] then None else Some (length events)))"

subsection \<open>Buckets\<close>

definition event_day :: "int \<Rightarrow> exn + string" where
  "event_day time_ms = utc_day time_ms"

fun bucket_from ::
  "((int \<times> string) \<times> ocsf_event list) list \<Rightarrow> ocsf_event list \<Rightarrow>
     exn + ((int \<times> string) \<times> ocsf_event list) list" where
  "bucket_from buckets [] = Inr buckets"
| "bucket_from buckets (e # es) =
     (case event_day (ev_time_ms e) of
        Inl x \<Rightarrow> Inl x
      | Inr day \<Rightarrow> bucket_from (dict_append (ev_class_uid e, day) e buckets) es)"

definition bucket :: "ocsf_event list \<Rightarrow> exn + ((int \<times> string) \<times> ocsf_event list) list" where
  "bucket events = bucket_from [] events"

definition estimate_bytes :: "ocsf_event \<Rightarrow> int" where
  "estimate_bytes e = int (length (json_dumps False (JObj (ev_body e))))"

subsection \<open>The sink\<close>

record lake_config =
  lc_source_name :: string
  lc_region :: string
  lc_account_id :: string
  lc_max_bytes :: int
  lc_max_seconds :: seconds

record 'o lake =
  lk_buffer :: "ocsf_event list"
  lk_buffered_bytes :: int
  lk_opened_at :: "seconds option"
  lk_store :: 'o
  lk_counted :: "int list"

definition new_lake :: "'o \<Rightarrow> 'o lake" where
  "new_lake store = \<lparr>lk_buffer = [], lk_buffered_bytes = 0, lk_opened_at = None, lk_store = store, lk_counted = []\<rparr>"

definition lake_write :: "seconds \<Rightarrow> ocsf_event list \<Rightarrow> 'o lake \<Rightarrow> 'o lake" where
  "lake_write now events lk =
     (if events = [] then lk
      else lk\<lparr>lk_opened_at := (case lk_opened_at lk of None \<Rightarrow> Some now | Some t \<Rightarrow> Some t),
              lk_buffer := lk_buffer lk @ events,
              lk_buffered_bytes := lk_buffered_bytes lk + sum_list (map estimate_bytes events)\<rparr>)"

definition lake_should_flush :: "lake_config \<Rightarrow> seconds \<Rightarrow> 'o lake \<Rightarrow> bool" where
  "lake_should_flush cfg now lk =
     (if lk_buffer lk = [] then False
      else if lc_max_bytes cfg \<le> lk_buffered_bytes lk then True
      else (case lk_opened_at lk of None \<Rightarrow> False | Some t \<Rightarrow> lc_max_seconds cfg \<le> now - t))"

definition lake_partition :: "lake_config \<Rightarrow> string \<Rightarrow> string \<Rightarrow> string" where
  "lake_partition cfg day digest =
     ''region='' @ lc_region cfg @ ''/accountId='' @ lc_account_id cfg @ ''/eventDay='' @ day @
     ''/'' @ digest @ ''.parquet''"

definition lake_digest :: "(string \<Rightarrow> string) \<Rightarrow> string \<Rightarrow> string" where
  "lake_digest sha256 batch_key = take 32 (sha256 batch_key)"

text \<open>The body of the loop of \<open>flush\<close>: encode, name the source, put, count.\<close>

definition lake_put ::
  "(string \<Rightarrow> string \<Rightarrow> 'b \<Rightarrow> (unit, 'o) io) \<Rightarrow> ('c, 'b) arrow \<Rightarrow> lake_config \<Rightarrow> string \<Rightarrow>
     (int \<times> string) \<times> ocsf_event list \<Rightarrow> (unit, 'o lake) io" where
  "lake_put put A cfg digest b lk =
     (case b of ((class_uid, day), events) \<Rightarrow>
        (case parquet_bytes A events of
           Inl x \<Rightarrow> (Inl x, lk)
         | Inr body \<Rightarrow>
             (case source_name (lc_source_name cfg) class_uid of
                Inl x \<Rightarrow> (Inl x, lk)
              | Inr source \<Rightarrow>
                  (case put source (lake_partition cfg day digest) body (lk_store lk) of
                     (Inl x, o') \<Rightarrow> (Inl x, lk\<lparr>lk_store := o'\<rparr>)
                   | (Inr _, o') \<Rightarrow>
                       (Inr (), lk\<lparr>lk_store := o', lk_counted := lk_counted lk @ [class_uid]\<rparr>)))))"

definition lake_flush ::
  "(string \<Rightarrow> string \<Rightarrow> 'b \<Rightarrow> (unit, 'o) io) \<Rightarrow> ('c, 'b) arrow \<Rightarrow> (string \<Rightarrow> string) \<Rightarrow> lake_config \<Rightarrow>
     string \<Rightarrow> (unit, 'o lake) io" where
  "lake_flush put A sha256 cfg batch_key lk =
     (if lk_buffer lk = [] then (Inr (), lk)
      else (case bucket (lk_buffer lk) of
              Inl x \<Rightarrow> (Inl x, lk)
            | Inr buckets \<Rightarrow>
                (case io_each (lake_put put A cfg (lake_digest sha256 batch_key)) buckets lk of
                   (Inl x, lk') \<Rightarrow> (Inl x, lk')
                 | (Inr _, lk') \<Rightarrow>
                     (Inr (), lk'\<lparr>lk_buffer := [], lk_buffered_bytes := 0, lk_opened_at := None\<rparr>))))"

subsection \<open>The buckets partition the batch\<close>

definition bucket_key :: "ocsf_event \<Rightarrow> (int \<times> string) option" where
  "bucket_key e = (case event_day (ev_time_ms e) of Inl _ \<Rightarrow> None | Inr day \<Rightarrow> Some (ev_class_uid e, day))"

lemma bucket_from_Inr:
  assumes "bucket_from acc es = Inr bs"
  shows "map_of bs k = (case map_of acc k of
      None \<Rightarrow> (case filter (\<lambda>e. bucket_key e = Some k) es of [] \<Rightarrow> None | xs \<Rightarrow> Some xs)
    | Some xs \<Rightarrow> Some (xs @ filter (\<lambda>e. bucket_key e = Some k) es))"
    and "list_all (\<lambda>e. bucket_key e \<noteq> None) es"
  using assms
proof (induction es arbitrary: acc)
  case Nil
  { case 1 then show ?case by (simp split: option.splits) }
  { case 2 then show ?case by simp }
next
  case (Cons e es)
  { case 1
    then obtain day where day: "event_day (ev_time_ms e) = Inr day"
      and rest: "bucket_from (dict_append (ev_class_uid e, day) e acc) es = Inr bs"
      by (auto split: sum.splits)
    have key: "bucket_key e = Some (ev_class_uid e, day)" using day by (simp add: bucket_key_def)
    show ?case using Cons.IH(1) [OF rest] key
      by (cases "k = (ev_class_uid e, day)")
         (auto simp: map_of_dict_append split: option.splits list.splits) }
  { case 2
    then obtain day where day: "event_day (ev_time_ms e) = Inr day"
      and rest: "bucket_from (dict_append (ev_class_uid e, day) e acc) es = Inr bs"
      by (auto split: sum.splits)
    show ?case using Cons.IH(2) [OF rest] day by (simp add: bucket_key_def [of e]) }
qed

lemma bucket_Inr:
  assumes "bucket es = Inr bs"
  shows "map_of bs k = (case filter (\<lambda>e. bucket_key e = Some k) es of [] \<Rightarrow> None | xs \<Rightarrow> Some xs)"
    and "list_all (\<lambda>e. bucket_key e \<noteq> None) es"
  using bucket_from_Inr [of "[]" es bs] assms by (auto simp: bucket_def)

lemma bucket_distinct: "bucket es = Inr bs \<Longrightarrow> distinct (map fst bs)"
proof -
  have "bucket_from acc es = Inr bs \<Longrightarrow> distinct (map fst acc) \<Longrightarrow> distinct (map fst bs)" for acc
    by (induction es arbitrary: acc) (auto simp: distinct_dict_append split: sum.splits)
  then show "bucket es = Inr bs \<Longrightarrow> distinct (map fst bs)" by (simp add: bucket_def)
qed

lemma bucket_Inl_iff: "(\<exists>x. bucket es = Inl x) \<longleftrightarrow> (\<exists>e \<in> set es. bucket_key e = None)"
proof -
  have "(\<exists>x. bucket_from acc es = Inl x) \<longleftrightarrow> (\<exists>e \<in> set es. bucket_key e = None)" for acc
    by (induction es arbitrary: acc) (auto simp: bucket_key_def split: sum.splits)
  then show ?thesis by (simp add: bucket_def)
qed

lemma bucket_member:
  assumes "bucket es = Inr bs" and "(k, xs) \<in> set bs"
  shows "xs = filter (\<lambda>e. bucket_key e = Some k) es" and "xs \<noteq> []"
  using bucket_Inr(1) [OF assms(1), of k] map_of_is_SomeI [OF bucket_distinct [OF assms(1)] assms(2)]
  by (auto split: list.splits)

lemma event_bucketed:
  assumes "bucket es = Inr bs" and "e \<in> set es"
  obtains k xs where "bucket_key e = Some k" "(k, xs) \<in> set bs" "e \<in> set xs"
proof -
  obtain k where k: "bucket_key e = Some k"
    using bucket_Inr(2) [OF assms(1)] assms(2) by (auto simp: list_all_iff)
  let ?xs = "filter (\<lambda>e. bucket_key e = Some k) es"
  have e: "e \<in> set ?xs" using k assms(2) by simp
  then have "?xs \<noteq> []" by (metis empty_iff empty_set)
  then have "map_of bs k = Some ?xs"
    using bucket_Inr(1) [OF assms(1), of k] by (auto split: list.splits)
  with k e that show thesis by (blast dest: map_of_SomeD)
qed

subsection \<open>Where a bucket goes\<close>

definition bucket_place ::
  "(string \<Rightarrow> string \<Rightarrow> string) \<Rightarrow> lake_config \<Rightarrow> string \<Rightarrow> int \<times> string \<Rightarrow> string option" where
  "bucket_place place cfg digest k =
     (case source_name (lc_source_name cfg) (fst k) of
        Inl _ \<Rightarrow> None
      | Inr source \<Rightarrow> Some (place source (lake_partition cfg (snd k) digest)))"

lemma source_name_no_slash:
  "source_name p c = Inr n \<Longrightarrow> CHR ''/'' \<notin> set p \<Longrightarrow> CHR ''/'' \<notin> set n"
  by (drule source_name_in) (auto simp: all_source_names_def derived_names_list)

lemma source_name_cong:
  "source_name p c = Inr n \<Longrightarrow> source_name p c' = Inr n \<Longrightarrow> c = c'"
  using slugs_distinct
  by (auto simp: source_name_def split: option.splits dest!: map_of_SomeD)
     (auto simp: CLASS_SOURCES_def)

lemma event_day_length: "event_day t = Inr d \<Longrightarrow> length d = 8"
proof -
  assume d: "event_day t = Inr d"
  define o' where "o' = t div 86400000 + EPOCH_ORDINAL"
  have o': "1 \<le> o'" "o' \<le> MAX_ORDINAL" "d = strftime_ymd (ord2ymd o')"
    using d by (auto simp: event_day_def utc_day_def Let_def o'_def split: if_splits)
  obtain y m e where ymd: "ord2ymd o' = (y, m, e)" by (cases "ord2ymd o'")
  have "length (pad_left 4 (nat_str (nat y))) = 4"
    using ord2ymd_range [OF o'(1,2) ymd] by (intro length_pad length_nat_str) auto
  moreover have "length (pad_left 2 (nat_str m)) = 2" "length (pad_left 2 (nat_str (nat e))) = 2"
    using month_day_of_ord2ymd [OF ymd] by (auto intro!: length_pad length_nat_str)
  ultimately show "length d = 8" by (simp add: o'(3) ymd strftime_ymd_def)
qed

lemma partition_inj:
  assumes "lake_partition cfg d dg = lake_partition cfg d' dg'" and "length d = length d'"
  shows "d = d' \<and> dg = dg'"
  using assms by (simp add: lake_partition_def)

text \<open>
  The specification of a flush: the objects of a batch as a map from places to contents.
\<close>

definition batch_objects ::
  "(string \<Rightarrow> string \<Rightarrow> string) \<Rightarrow> ('c, 'b) arrow \<Rightarrow> lake_config \<Rightarrow> string \<Rightarrow> ocsf_event list \<Rightarrow>
     string \<Rightarrow> 'b option" where
  "batch_objects place A cfg dg events =
     (case bucket events of
        Inl _ \<Rightarrow> Map.empty
      | Inr bs \<Rightarrow> map_of (concat (map (\<lambda>(k, es).
          (case bucket_place place cfg dg k of
             None \<Rightarrow> []
           | Some p \<Rightarrow> (case parquet_bytes A es of Inl _ \<Rightarrow> [] | Inr body \<Rightarrow> [(p, body)]))) bs)))"

lemma batch_objects_Nil [simp]: "batch_objects place A cfg dg [] = Map.empty"
  by (simp add: batch_objects_def bucket_def)

lemma batch_objects_SomeD:
  assumes "batch_objects place A cfg dg events p = Some body"
  obtains bs k es where "bucket events = Inr bs" "(k, es) \<in> set bs"
    "bucket_place place cfg dg k = Some p" "parquet_bytes A es = Inr body"
proof -
  obtain bs where bs: "bucket events = Inr bs" using assms
    by (auto simp: batch_objects_def split: sum.splits)
  with assms have "(p, body) \<in> set (concat (map (\<lambda>(k, es).
      (case bucket_place place cfg dg k of None \<Rightarrow> []
       | Some p \<Rightarrow> (case parquet_bytes A es of Inl _ \<Rightarrow> [] | Inr body \<Rightarrow> [(p, body)]))) bs))"
    by (auto simp: batch_objects_def dest!: map_of_SomeD)
  then show thesis using bs that by (auto split: option.splits sum.splits)
qed

lemma batch_objects_not_None:
  assumes "bucket events = Inr bs" "(k, es) \<in> set bs" "bucket_place place cfg dg k = Some p"
    "parquet_bytes A es = Inr body"
  shows "batch_objects place A cfg dg events p \<noteq> None"
proof -
  have "(p, body) \<in> set (concat (map (\<lambda>(k, es).
      (case bucket_place place cfg dg k of None \<Rightarrow> []
       | Some p \<Rightarrow> (case parquet_bytes A es of Inl _ \<Rightarrow> [] | Inr body \<Rightarrow> [(p, body)]))) bs))"
    using assms by (cases k) (auto intro!: bexI [of _ "(k, es)"])
  then show ?thesis using assms(1)
    by (auto simp: batch_objects_def map_of_eq_None_iff image_iff simp del: set_concat) (metis fst_conv)
qed

definition buckets_written ::
  "(string \<Rightarrow> string \<Rightarrow> string) \<Rightarrow> ('c, 'b) arrow \<Rightarrow> lake_config \<Rightarrow> string \<Rightarrow>
     ((int \<times> string) \<times> ocsf_event list) list \<Rightarrow> bool \<Rightarrow> (string \<Rightarrow> 'b option) \<Rightarrow> (string \<Rightarrow> 'b option) \<Rightarrow> bool" where
  "buckets_written place A cfg dg bs ok m m' \<longleftrightarrow>
     (\<forall>p. (\<forall>b \<in> set bs. bucket_place place cfg dg (fst b) \<noteq> Some p) \<longrightarrow> m' p = m p) \<and>
     (\<forall>b \<in> set bs. \<forall>p. bucket_place place cfg dg (fst b) = Some p \<longrightarrow>
        m' p = m p \<or> (\<exists>body. parquet_bytes A (snd b) = Inr body \<and> m' p = Some body)) \<and>
     (ok \<longrightarrow> (\<forall>b \<in> set bs. \<exists>p body. bucket_place place cfg dg (fst b) = Some p \<and>
        parquet_bytes A (snd b) = Inr body \<and> m' p = Some body))"

lemma bucket_key_length: "bucket_key e = Some k \<Longrightarrow> length (snd k) = 8"
  by (auto simp: bucket_key_def dest: event_day_length split: sum.splits)

lemma bucket_days:
  assumes "bucket events = Inr bs" and "(k, es) \<in> set bs"
  shows "length (snd k) = 8"
proof -
  obtain e where "e \<in> set es" using bucket_member(2) [OF assms] by (cases es) auto
  then have "bucket_key e = Some k" using bucket_member(1) [OF assms] by simp
  then show ?thesis by (rule bucket_key_length)
qed

context object_store begin

lemma bucket_place_inj:
  assumes "bucket_place place cfg dg k = Some p" and "bucket_place place cfg dg' k' = Some p"
    and "CHR ''/'' \<notin> set (lc_source_name cfg)" and "length (snd k) = length (snd k')"
  shows "k = k' \<and> dg = dg'"
proof -
  obtain n n' where n: "source_name (lc_source_name cfg) (fst k) = Inr n"
      "source_name (lc_source_name cfg) (fst k') = Inr n'"
      "place n (lake_partition cfg (snd k) dg) = place n' (lake_partition cfg (snd k') dg')"
    using assms(1,2) by (auto simp: bucket_place_def split: sum.splits)
  have "n = n' \<and> lake_partition cfg (snd k) dg = lake_partition cfg (snd k') dg'"
    using n source_name_no_slash assms(3) by (intro place_inj) auto
  with n partition_inj assms(4) source_name_cong show ?thesis by (metis prod.collapse)
qed

lemma lake_put_cases:
  assumes "lake_put put A cfg dg (k, es) lk = (r, lk')"
  obtains (raised) x where "r = Inl x" "lk' = lk"
    | (put) p body r' where "bucket_place place cfg dg k = Some p" "parquet_bytes A es = Inr body"
      "lk_buffer lk' = lk_buffer lk"
      "contents (lk_store lk') = (contents (lk_store lk))(p \<mapsto> body) \<or>
        (\<exists>x. r = Inl x) \<and> contents (lk_store lk') = contents (lk_store lk)"
proof -
  consider x where "r = Inl x" "lk' = lk"
    | body n st' q where "parquet_bytes A es = Inr body" "source_name (lc_source_name cfg) (fst k) = Inr n"
      "put n (lake_partition cfg (snd k) dg) body (lk_store lk) = (q, st')"
      "lk_store lk' = st'" "lk_buffer lk' = lk_buffer lk" "r = Inr () \<and> q = Inr () \<or> (\<exists>x. r = Inl x \<and> q = Inl x)"
    using assms by (cases k) (auto simp: lake_put_def split: sum.splits prod.splits)
  then show thesis
  proof cases
    case 1
    then show ?thesis by (rule raised)
  next
    case (2 body n st' q)
    then have "bucket_place place cfg dg k = Some (place n (lake_partition cfg (snd k) dg))"
      by (simp add: bucket_place_def)
    moreover have "contents st' = (contents (lk_store lk))(place n (lake_partition cfg (snd k) dg) \<mapsto> body) \<or>
        (\<exists>x. r = Inl x) \<and> contents st' = contents (lk_store lk)"
      using 2(3,6) put_done put_raised by metis
    ultimately show ?thesis using 2 by (intro put) auto
  qed
qed

text \<open>Over all buckets: nothing but their places is touched, and after success each holds its table.\<close>

lemma lake_puts:
  assumes "io_each (lake_put put A cfg dg) bs lk = (r, lk')"
    and "distinct (map fst bs)" and "CHR ''/'' \<notin> set (lc_source_name cfg)"
    and "\<forall>b \<in> set bs. length (snd (fst b)) = 8"
  shows "lk_buffer lk' = lk_buffer lk"
    and "buckets_written place A cfg dg bs (r = Inr ()) (contents (lk_store lk)) (contents (lk_store lk'))"
  using assms
proof (induction bs arbitrary: lk)
  case Nil
  { case 1 then show ?case by simp }
  { case 2 then show ?case by (simp add: buckets_written_def) }
next
  case (Cons b bs)
  obtain k es where b: "b = (k, es)" by (cases b)
  have main: "lk_buffer lk' = lk_buffer lk \<and>
      buckets_written place A cfg dg (b # bs) (r = Inr ()) (contents (lk_store lk)) (contents (lk_store lk'))"
    if prems: "io_each (lake_put put A cfg dg) (b # bs) lk = (r, lk')" "distinct (map fst (b # bs))"
      "\<forall>b \<in> set (b # bs). length (snd (fst b)) = 8" for lk
  proof -
    obtain q lk1 where q: "lake_put put A cfg dg (k, es) lk = (q, lk1)" by (metis prod.exhaust)
    have other: "bucket_place place cfg dg (fst b') \<noteq> Some p"
      if "b' \<in> set bs" "bucket_place place cfg dg k = Some p" for b' p
    proof
      assume "bucket_place place cfg dg (fst b') = Some p"
      moreover have "length (snd k) = length (snd (fst b'))" using prems(3) that(1) b by simp
      ultimately have "k = fst b'" using bucket_place_inj that(2) assms(3) by blast
      with prems(2) that(1) b show False by auto
    qed
    show ?thesis
    proof (cases q)
      case (Inl x)
      then have r: "r = Inl x" "lk' = lk1" using prems(1) q b by auto
      from q show ?thesis
        by (cases rule: lake_put_cases) (use b r other in \<open>auto simp: buckets_written_def\<close>)
    next
      case (Inr u)
      then have rest: "io_each (lake_put put A cfg dg) bs lk1 = (r, lk')" using prems(1) q b by auto
      from q Inr obtain p body where p: "bucket_place place cfg dg k = Some p" "parquet_bytes A es = Inr body"
        "lk_buffer lk1 = lk_buffer lk" "contents (lk_store lk1) = (contents (lk_store lk))(p \<mapsto> body)"
        by (cases rule: lake_put_cases) auto
      have "lk_buffer lk' = lk_buffer lk1"
        and IH: "buckets_written place A cfg dg bs (r = Inr ()) (contents (lk_store lk1)) (contents (lk_store lk'))"
        using Cons.IH [OF rest] prems(2,3) assms(3) by auto
      moreover have "contents (lk_store lk') p = Some body"
        using IH other p by (simp add: buckets_written_def)
      moreover have "bucket_place place cfg dg (fst b') = Some p' \<Longrightarrow> p' \<noteq> p" if "b' \<in> set bs" for b' p'
        using other [OF that p(1)] by auto
      ultimately show ?thesis
        unfolding buckets_written_def b list.set ball_simps fst_conv snd_conv p(1-4) fun_upd_apply
        using p(1-3) by (smt (verit, ccfv_threshold) option.inject)
    qed
  qed
  { case 1 then show ?case using main [OF 1(1,2,4)] by simp }
  { case 2 then show ?case using main [OF 2(1,2,4)] by simp }
qed

lemma lake_flush_spec:
  assumes "lake_flush put A sha cfg key lk = (r, lk')" and "CHR ''/'' \<notin> set (lc_source_name cfg)"
  shows "r = Inr () \<Longrightarrow>
      contents (lk_store lk') = contents (lk_store lk) ++ batch_objects place A cfg (lake_digest sha key) (lk_buffer lk) \<and>
      lk_buffer lk' = []"
    and "r = Inl x \<Longrightarrow> lk_buffer lk' = lk_buffer lk"
    and "contents (lk_store lk') p = contents (lk_store lk) p \<or>
      batch_objects place A cfg (lake_digest sha key) (lk_buffer lk) p \<noteq> None \<and>
      contents (lk_store lk') p = batch_objects place A cfg (lake_digest sha key) (lk_buffer lk) p"
proof -
  let ?dg = "lake_digest sha key" and ?B = "batch_objects place A cfg (lake_digest sha key) (lk_buffer lk)"
  have "(r = Inr () \<longrightarrow> contents (lk_store lk') = contents (lk_store lk) ++ ?B \<and> lk_buffer lk' = []) \<and>
    (r = Inl x \<longrightarrow> lk_buffer lk' = lk_buffer lk) \<and>
    (contents (lk_store lk') p = contents (lk_store lk) p \<or>
      ?B p \<noteq> None \<and> contents (lk_store lk') p = ?B p)"
  proof (cases "bucket (lk_buffer lk)")
    case (Inl y)
    with assms(1) show ?thesis by (auto simp: lake_flush_def bucket_def split: if_splits)
  next
    case (Inr bs)
    show ?thesis
    proof (cases "lk_buffer lk = []")
      case True
      with assms(1) show ?thesis by (auto simp: lake_flush_def)
    next
      case False
      obtain q lk1 where each: "io_each (lake_put put A cfg ?dg) bs lk = (q, lk1)" by (metis prod.exhaust)
      have lk': "r = q" "lk_store lk' = lk_store lk1"
        "lk_buffer lk' = (if r = Inr () then [] else lk_buffer lk1)"
        using assms(1) False Inr each by (auto simp: lake_flush_def split: sum.splits)
      have days: "\<forall>b \<in> set bs. length (snd (fst b)) = 8" using bucket_days [OF Inr] by auto
      note puts = lake_puts [OF each bucket_distinct [OF Inr] assms(2) days]
      have buffered: "lk_buffer lk1 = lk_buffer lk" by (rule puts(1))
      have frame: "contents (lk_store lk1) p = contents (lk_store lk) p"
        if "\<forall>b \<in> set bs. bucket_place place cfg ?dg (fst b) \<noteq> Some p" for p
        using puts(2) that unfolding buckets_written_def by blast
      have placed: "contents (lk_store lk1) p = contents (lk_store lk) p \<or>
          (\<exists>body. parquet_bytes A es = Inr body \<and> contents (lk_store lk1) p = Some body)"
        if "(k, es) \<in> set bs" "bucket_place place cfg ?dg k = Some p" for k es p
        using puts(2) that by (force simp: buckets_written_def)
      have written: "\<exists>p body. bucket_place place cfg ?dg k = Some p \<and> parquet_bytes A es = Inr body \<and>
                 contents (lk_store lk1) p = Some body"
        if "q = Inr ()" "(k, es) \<in> set bs" for k es
        using puts(2) that by (force simp: buckets_written_def)
      have same: "contents (lk_store lk') p = contents (lk_store lk) p \<or> ?B p \<noteq> None \<and>
          contents (lk_store lk') p = ?B p" for p
      proof (cases "\<forall>b \<in> set bs. bucket_place place cfg ?dg (fst b) \<noteq> Some p")
        case True
        then show ?thesis using frame [of p] lk'(2) by simp
      next
        case False
        then obtain k es where k: "(k, es) \<in> set bs" "bucket_place place cfg ?dg k = Some p" by force
        show ?thesis
        proof (cases "contents (lk_store lk1) p = contents (lk_store lk) p")
          case False
          then obtain body where body: "parquet_bytes A es = Inr body" "contents (lk_store lk1) p = Some body"
            using placed [OF k] by blast
          from batch_objects_not_None [OF Inr k body(1)] obtain body' where B: "?B p = Some body'" by blast
          then obtain k' es' where k': "(k', es') \<in> set bs" "bucket_place place cfg ?dg k' = Some p"
            "parquet_bytes A es' = Inr body'"
            using Inr by (elim batch_objects_SomeD) auto
          have "k' = k" using bucket_place_inj [OF k'(2) k(2) assms(2)] bucket_days [OF Inr] k(1) k'(1) by metis
          then have "es' = es" using k(1) k'(1) bucket_distinct [OF Inr] by (metis eq_key_imp_eq_value)
          with k'(3) body B lk'(2) show ?thesis by simp
        qed (simp add: lk'(2))
      qed
      moreover have "contents (lk_store lk') p = (contents (lk_store lk) ++ ?B) p" if "r = Inr ()" for p
      proof (cases "?B p")
        case None
        then show ?thesis using same [of p] by (simp add: map_add_def)
      next
        case (Some body)
        then obtain k es where k: "(k, es) \<in> set bs" "bucket_place place cfg ?dg k = Some p"
            "parquet_bytes A es = Inr body"
          using Inr by (elim batch_objects_SomeD) auto
        then have "contents (lk_store lk1) p = Some body" using written [OF _ k(1)] that lk'(1) by fastforce
        with Some lk'(2) show ?thesis by (simp add: map_add_def)
      qed
      ultimately show ?thesis using buffered lk' by auto
    qed
  qed
  then show "r = Inr () \<Longrightarrow> contents (lk_store lk') = contents (lk_store lk) ++ ?B \<and> lk_buffer lk' = []"
    and "r = Inl x \<Longrightarrow> lk_buffer lk' = lk_buffer lk"
    and "contents (lk_store lk') p = contents (lk_store lk) p \<or> ?B p \<noteq> None \<and> contents (lk_store lk') p = ?B p"
    by blast+
qed

text \<open>
  After a flush that raised anywhere, replaying the batch leaves what one clean flush would have.
\<close>

lemma replayed_flush:
  assumes "lake_flush put A sha cfg key lk = (r, lk1)" and "CHR ''/'' \<notin> set (lc_source_name cfg)"
    and "lk_store lk2 = lk_store lk1" and "lk_buffer lk2 = lk_buffer lk"
    and "lake_flush put A sha cfg key lk2 = (Inr (), lk3)"
  shows "contents (lk_store lk3) =
    contents (lk_store lk) ++ batch_objects place A cfg (lake_digest sha key) (lk_buffer lk)"
proof
  fix p
  show "contents (lk_store lk3) p =
      (contents (lk_store lk) ++ batch_objects place A cfg (lake_digest sha key) (lk_buffer lk)) p"
    using lake_flush_spec(1) [OF assms(5,2)] lake_flush_spec(3) [OF assms(1,2), of p] assms(3,4)
    by (auto simp: map_add_def split: option.splits)
qed

lemma flushed_event:
  assumes "lake_flush put A sha cfg key lk = (Inr u, lk')" and "CHR ''/'' \<notin> set (lc_source_name cfg)"
    and "e \<in> set (lk_buffer lk)"
  obtains k p body where "bucket_key e = Some k" and "bucket_place place cfg (lake_digest sha key) k = Some p"
    and "parquet_bytes A (filter (\<lambda>x. bucket_key x = Some k) (lk_buffer lk)) = Inr body"
    and "contents (lk_store lk') p = Some body"
proof -
  have ne: "lk_buffer lk \<noteq> []" using assms(3) by auto
  obtain bs lk1 where bs: "bucket (lk_buffer lk) = Inr bs"
    and each: "io_each (lake_put put A cfg (lake_digest sha key)) bs lk = (Inr (), lk1)"
    and lk': "lk_store lk' = lk_store lk1"
    using assms(1) ne by (auto simp: lake_flush_def split: sum.splits prod.splits)
  have days: "\<forall>b \<in> set bs. length (snd (fst b)) = 8" using bucket_days [OF bs] by auto
  obtain k xs where k: "bucket_key e = Some k" "(k, xs) \<in> set bs" "e \<in> set xs"
    using event_bucketed [OF bs assms(3)] .
  from lake_puts(2) [OF each bucket_distinct [OF bs] assms(2) days] k(2)
  obtain p body where "bucket_place place cfg (lake_digest sha key) k = Some p" "parquet_bytes A xs = Inr body"
    "contents (lk_store lk1) p = Some body"
    by (force simp: buckets_written_def)
  with k bucket_member(1) [OF bs k(2)] lk' that show thesis by simp
qed

lemma flushed_at:
  assumes "lake_flush put A sha cfg key lk = (Inr u, lk')" and "CHR ''/'' \<notin> set (lc_source_name cfg)"
    and "e \<in> set (lk_buffer lk)" and "bucket_key e = Some k"
  obtains p body where "bucket_place place cfg (lake_digest sha key) k = Some p"
    and "parquet_bytes A (filter (\<lambda>x. bucket_key x = Some k) (lk_buffer lk)) = Inr body"
    and "contents (lk_store lk') p = Some body"
  using flushed_event [OF assms(1-3)] assms(4) by (metis option.inject)

lemma batch_objects_elsewhere:
  assumes "bucket_key e = Some k" and "bucket_place place cfg dg k = Some p"
    and "k \<notin> {k. \<exists>x \<in> set es. bucket_key x = Some k}" and "CHR ''/'' \<notin> set (lc_source_name cfg)"
  shows "batch_objects place A cfg dg es p = None"
proof (rule ccontr)
  assume "batch_objects place A cfg dg es p \<noteq> None"
  then obtain body where "batch_objects place A cfg dg es p = Some body" by blast
  then obtain bs k' xs where bs: "bucket es = Inr bs" "(k', xs) \<in> set bs" "bucket_place place cfg dg k' = Some p"
    by (rule batch_objects_SomeD)
  have "length (snd k) = length (snd k')"
    using bucket_days [OF bs(1,2)] bucket_key_length [OF assms(1)] by simp
  then have "k' = k" using bucket_place_inj [OF bs(3) assms(2,4)] by simp
  moreover obtain x where "x \<in> set xs" using bucket_member(2) [OF bs(1,2)] by (cases xs) auto
  ultimately show False using bucket_member(1) [OF bs(1,2)] assms(3) by auto
qed

end

subsection \<open>Properties of the sink\<close>

lemma res_map_names:
  assumes "res_map (\<lambda>k. res_bind (f k) (\<lambda>c. Inr (g k, c))) ks = Inr t"
  shows "map fst t = map g ks"
  using assms by (induction ks arbitrary: t) (auto simp: res_bind_Inr_iff)

lemma dict_get_key: "dict_get d k \<noteq> JNull \<Longrightarrow> k \<in> fst ` set d"
  by (auto simp: dict_get_def in_fst_set_iff split: option.splits)

text \<open>The columns of an object: the declared ones always and first, in the declared order,
  whatever the class; then, in order of name and each once, exactly the other attributes that some
  record of the object has a value for.\<close>

theorem table_columns:
  assumes "lake_table A es = Inr t"
  shows "\<exists>extra. map fst t = map fst SPINE @ extra \<and> sorted extra \<and> distinct extra \<and>
    set extra = {k. k \<notin> fst ` set SPINE \<and> (\<exists>e. e \<in> set es \<and> dict_get (lake_row e) k \<noteq> JNull)}"
proof -
  let ?rows = "map lake_row es"
  let ?extra = "filter (\<lambda>k. \<not> list_all (\<lambda>v. v = JNull) (map (\<lambda>row. dict_get row k) ?rows)) (extra_names ?rows)"
  obtain spine ext where spine: "res_map (\<lambda>(k, t). res_bind (ar_array A (Some t) (map (\<lambda>row. dict_get row k) ?rows))
        (\<lambda>c. Inr (k, c))) SPINE = Inr spine"
    and ext: "res_map (\<lambda>k. res_bind (ar_array A None (map (\<lambda>row. dict_get row k) ?rows)) (\<lambda>c. Inr (k, c))) ?extra = Inr ext"
    and t: "t = spine @ ext"
    using assms unfolding lake_table_def Let_def by (auto simp only: res_bind_Inr_iff sum.inject)
  have "map fst spine = map fst SPINE"
    using spine res_map_names [where g = fst and f = "\<lambda>(k, t). ar_array A (Some t) (map (\<lambda>row. dict_get row k) ?rows)"]
    by (simp add: split_def)
  moreover have "map fst ext = ?extra" using res_map_names [where g = id] ext by fastforce
  moreover have "sorted ?extra" "distinct ?extra" by (simp_all add: extra_names_def sorted_wrt_filter)
  moreover have "set ?extra = {k. k \<notin> fst ` set SPINE \<and> (\<exists>e. e \<in> set es \<and> dict_get (lake_row e) k \<noteq> JNull)}"
  proof (rule set_eqI)
    fix k
    have "k \<in> set ?extra \<longleftrightarrow> k \<notin> fst ` set SPINE \<and> (\<exists>e \<in> set es. k \<in> fst ` set (lake_row e)) \<and>
        (\<exists>e \<in> set es. dict_get (lake_row e) k \<noteq> JNull)"
      by (auto simp: extra_names_def list_all_iff)
    then show "k \<in> set ?extra \<longleftrightarrow>
        k \<in> {k. k \<notin> fst ` set SPINE \<and> (\<exists>e. e \<in> set es \<and> dict_get (lake_row e) k \<noteq> JNull)}"
      using dict_get_key by blast
  qed
  ultimately show ?thesis using t by auto
qed

text \<open>An arrow library for the witnesses: a column is its values, a file its columns.\<close>

definition plain_arrow :: "(json list, (string \<times> json list) list) arrow" where
  "plain_arrow = \<lparr>ar_array = (\<lambda>t vs. Inr vs), ar_write_table = (\<lambda>cols n. Inr cols)\<rparr>"

definition sample_config :: lake_config where
  "sample_config = \<lparr>lc_source_name = ''okta'', lc_region = ''r'', lc_account_id = ''a'',
     lc_max_bytes = MAX_BYTES, lc_max_seconds = MAX_SECONDS\<rparr>"

definition sample_event :: "string \<Rightarrow> int \<Rightarrow> ocsf_event" where
  "sample_event uid ms = \<lparr>ev_class_uid = 3002, ev_time_ms = ms, ev_uid = uid,
     ev_body = [(''metadata'', JObj [(''uid'', JStr uid)])]\<rparr>"

definition sample_lake :: "ocsf_event list \<Rightarrow> 'b local_store \<Rightarrow> 'b local_store lake" where
  "sample_lake es store = lake_write 0 es (new_lake store)"

text \<open>C15: The buckets of a batch are its events by class and UTC day: every event that has a day is
  in the one bucket of its class and day, a bucket holds nothing of another class or day and is
  never empty, and inside it the events keep their order. Bucketing raises just if some event's
  time has no day.\<close>

theorem buckets_partition_batch:
  "(case bucket es of
      Inl _ \<Rightarrow> {e \<in> set es. bucket_key e = None} \<noteq> {}
    | Inr bs \<Rightarrow> distinct (map fst bs) \<and> {e \<in> set es. bucket_key e = None} = {} \<and>
        set bs = (\<lambda>k. (k, filter (\<lambda>e. bucket_key e = Some k) es)) ` {k. \<exists>e. e \<in> set es \<and> bucket_key e = Some k})"
proof (cases "bucket es")
  case (Inl x)
  then show ?thesis using bucket_Inl_iff [of es] by auto
next
  case (Inr bs)
  have "(k, xs) \<in> set bs \<longleftrightarrow> (\<exists>e. e \<in> set es \<and> bucket_key e = Some k) \<and>
      xs = filter (\<lambda>e. bucket_key e = Some k) es" for k xs
  proof
    assume "(k, xs) \<in> set bs"
    from bucket_member [OF Inr this] show "(\<exists>e. e \<in> set es \<and> bucket_key e = Some k) \<and>
        xs = filter (\<lambda>e. bucket_key e = Some k) es"
      by (auto simp: filter_empty_conv)
  next
    assume *: "(\<exists>e. e \<in> set es \<and> bucket_key e = Some k) \<and> xs = filter (\<lambda>e. bucket_key e = Some k) es"
    then obtain e where "e \<in> set es" "bucket_key e = Some k" by blast
    with event_bucketed [OF Inr] obtain ys where "(k, ys) \<in> set bs" by (metis option.inject)
    with bucket_member(1) [OF Inr this] * show "(k, xs) \<in> set bs" by simp
  qed
  then show ?thesis
    using Inr bucket_distinct [OF Inr] bucket_Inl_iff [of es] by (auto simp: image_iff)
qed

text \<open>C6: A flush that returns has overlaid exactly the objects of the batch, one per bucket at the
  place its class, day and batch key name, on what was stored, and emptied the buffer. A flush that
  raises keeps the whole buffer, and has put at some of those places the batch's object and changed
  nothing else.\<close>

theorem flush_stores_batch:
  assumes "lake_flush local_put A sha cfg key lk = (r, lk')" and "CHR ''/'' \<notin> set (lc_source_name cfg)"
  shows "let old = local_contents (lk_store lk); new = local_contents (lk_store lk');
             batch = batch_objects path_for A cfg (lake_digest sha key) (lk_buffer lk)
    in (case r of
          Inr _ \<Rightarrow> new = old ++ batch \<and> lk_buffer lk' = []
        | Inl _ \<Rightarrow> lk_buffer lk' = lk_buffer lk \<and> new \<in> {m. \<forall>p. m p = old p \<or> batch p \<noteq> None \<and> m p = batch p})"
  using local.lake_flush_spec [OF assms]
  by (cases r) (simp_all add: Let_def)

definition sample_store :: "(string \<times> json list) list local_store" where
  "sample_store = \<lparr>ls_files = [], ls_written = []\<rparr>"

definition sample_flush ::
  "string \<Rightarrow> (string \<times> json list) list local_store lake \<Rightarrow>
     (exn + unit) \<times> (string \<times> json list) list local_store lake" where
  "sample_flush key lk = lake_flush local_put plain_arrow id sample_config key lk"

lemma sample_flush_one:
  "fst (sample_flush ''c'' (sample_lake [sample_event ''u'' 0] sample_store)) = Inr ()"
  by code_simp

lemma flush_stores_batch_witness:
  "local_contents (lk_store (snd (sample_flush ''c'' (sample_lake [sample_event ''u'' 0] sample_store)))) =
     batch_objects path_for plain_arrow sample_config (lake_digest id ''c'') [sample_event ''u'' 0]"
proof -
  obtain r lk' where run: "sample_flush ''c'' (sample_lake [sample_event ''u'' 0] sample_store) = (r, lk')"
    by (metis prod.exhaust)
  with sample_flush_one have "r = Inr ()" by simp
  with flush_stores_batch [OF run [unfolded sample_flush_def]] run show ?thesis
    by (simp add: sample_config_def sample_lake_def lake_write_def new_lake_def sample_store_def
        local_contents_def Let_def)
qed

lemma table_columns_witness:
  "\<exists>t extra. lake_table plain_arrow [(sample_event ''u'' 0)\<lparr>ev_body := [(''user'', JStr ''x''), (''actor'', JNull)]\<rparr>] = Inr t \<and>
     map fst t = map fst SPINE @ extra \<and> set extra = {''user''}"
proof -
  let ?e = "(sample_event ''u'' 0)\<lparr>ev_body := [(''user'', JStr ''x''), (''actor'', JNull)]\<rparr>"
  obtain t where t: "lake_table plain_arrow [?e] = Inr t"
    by (simp add: lake_table_def plain_arrow_def Let_def split_def)
  from table_columns [OF t] t show ?thesis
    by (fastforce simp: lake_row_def SPINE_def sample_event_def dict_get_def Let_def)
qed

text \<open>C16: Delivery across a crash between the objects of a flush, or between the flush and the
  commit, is idempotent: whatever part of a batch a first flush wrote, flushing the same batch
  again under the same key leaves what one clean flush would have left.\<close>

theorem replay_is_idempotent:
  assumes "lake_flush local_put A sha cfg key lk = (r, lk1)" and "CHR ''/'' \<notin> set (lc_source_name cfg)"
    and "lk_store lk2 = lk_store lk1" and "lk_buffer lk2 = lk_buffer lk"
    and "lake_flush local_put A sha cfg key lk2 = (Inr (), lk3)"
  shows "local_contents (lk_store lk3) =
    local_contents (lk_store lk) ++ batch_objects path_for A cfg (lake_digest sha key) (lk_buffer lk)"
  by (rule local.replayed_flush [OF assms])

lemma replay_is_idempotent_witness:
  "local_contents (lk_store (snd (sample_flush ''c'' (sample_lake [sample_event ''u'' 0]
       (lk_store (snd (sample_flush ''c'' (sample_lake [sample_event ''u'' 0] sample_store)))))))) =
     batch_objects path_for plain_arrow sample_config (lake_digest id ''c'') [sample_event ''u'' 0]"
proof -
  obtain r lk1 where run1: "sample_flush ''c'' (sample_lake [sample_event ''u'' 0] sample_store) = (r, lk1)"
    by (metis prod.exhaust)
  obtain r2 lk3 where run2: "sample_flush ''c'' (sample_lake [sample_event ''u'' 0] (lk_store lk1)) = (r2, lk3)"
    by (metis prod.exhaust)
  have "fst (sample_flush ''c'' (sample_lake [sample_event ''u'' 0]
       (lk_store (snd (sample_flush ''c'' (sample_lake [sample_event ''u'' 0] sample_store)))))) = Inr ()"
    by code_simp
  with run1 run2 have "r2 = Inr ()" by simp
  with replay_is_idempotent [OF run1 [unfolded sample_flush_def], of "sample_lake [sample_event ''u'' 0] (lk_store lk1)" lk3]
    run1 run2 show ?thesis
    by (simp add: sample_flush_def sample_config_def sample_lake_def lake_write_def new_lake_def
        sample_store_def local_contents_def)
qed

text \<open>C17: A replay that covers fewer pages is not idempotent. If the replayed batch lacks an event
  whose class and day no other event of it has, the object the first attempt wrote for that event
  stays, and the batch that starts where the replay ended writes the event again under its own
  key: two objects hold it.\<close>

theorem shorter_replay_duplicates:
  assumes "lake_flush local_put A sha cfg key lk = (Inr (), lk1)" "lk_buffer lk = es @ [e]"
    and "lake_flush local_put A sha cfg key lk2 = (Inr (), lk3)" "lk_buffer lk2 = es" "lk_store lk2 = lk_store lk1"
    and "lake_flush local_put A sha cfg key' lk4 = (Inr (), lk5)" "lk_buffer lk4 = e # rest" "lk_store lk4 = lk_store lk3"
    and "bucket_key e = Some k" "k \<notin> {k. \<exists>x \<in> set es. bucket_key x = Some k}"
    and "lake_digest sha key \<noteq> lake_digest sha key'" "CHR ''/'' \<notin> set (lc_source_name cfg)"
  shows "\<exists>p q b c others. p \<noteq> q \<and> parquet_bytes A [e] = Inr b \<and> parquet_bytes A (e # others) = Inr c \<and>
    local_contents (lk_store lk5) p = Some b \<and> local_contents (lk_store lk5) q = Some c"
proof -
  obtain p b where p: "bucket_place path_for cfg (lake_digest sha key) k = Some p"
    "parquet_bytes A (filter (\<lambda>x. bucket_key x = Some k) (es @ [e])) = Inr b"
    "local_contents (lk_store lk1) p = Some b"
    using local.flushed_at [OF assms(1,12) _ assms(9)] assms(2) by auto
  have "filter (\<lambda>x. bucket_key x = Some k) (es @ [e]) = [e]"
    using assms(9,10) by (simp add: filter_empty_conv)
  with p(2) have b: "parquet_bytes A [e] = Inr b" by simp
  obtain q c where q: "bucket_place path_for cfg (lake_digest sha key') k = Some q"
    "parquet_bytes A (filter (\<lambda>x. bucket_key x = Some k) (e # rest)) = Inr c"
    "local_contents (lk_store lk5) q = Some c"
    using local.flushed_at [OF assms(6,12) _ assms(9)] assms(7) by auto
  have "p \<noteq> q" using local.bucket_place_inj [OF p(1) _ assms(12), of _ k] q(1) assms(11) by auto
  have "local_contents (lk_store lk3) p = Some b"
    using local.lake_flush_spec(1) [OF assms(3,12) refl] p(3) assms(4,5)
      local.batch_objects_elsewhere [OF assms(9) p(1) assms(10,12), of A] by (simp add: map_add_def)
  moreover have "batch_objects path_for A cfg (lake_digest sha key') (e # rest) p = None"
  proof (rule ccontr)
    assume "batch_objects path_for A cfg (lake_digest sha key') (e # rest) p \<noteq> None"
    then obtain body where "batch_objects path_for A cfg (lake_digest sha key') (e # rest) p = Some body" by blast
    then obtain bs k' xs where bs: "bucket (e # rest) = Inr bs" "(k', xs) \<in> set bs"
      "bucket_place path_for cfg (lake_digest sha key') k' = Some p"
      by (rule batch_objects_SomeD)
    then show False
      using local.bucket_place_inj [OF p(1) bs(3) assms(12)] assms(11) bucket_days [OF bs(1,2)]
        bucket_key_length [OF assms(9)] by simp
  qed
  ultimately have "local_contents (lk_store lk5) p = Some b"
    using local.lake_flush_spec(1) [OF assms(6,12) refl] assms(7,8) by (simp add: map_add_def)
  with b q \<open>p \<noteq> q\<close> assms(9) show ?thesis by auto
qed

lemma shorter_replay_duplicates_witness:
  "\<exists>p q. p \<noteq> q \<and>
     (\<exists>b. parquet_bytes plain_arrow [sample_event ''u'' 0] = Inr b \<and>
        local_contents (lk_store (snd (sample_flush ''d'' (sample_lake [sample_event ''u'' 0]
          (lk_store (snd (sample_flush ''c'' (sample_lake []
            (lk_store (snd (sample_flush ''c'' (sample_lake [sample_event ''u'' 0] sample_store)))))))))))) p = Some b) \<and>
     (\<exists>c others. parquet_bytes plain_arrow (sample_event ''u'' 0 # others) = Inr c \<and>
        local_contents (lk_store (snd (sample_flush ''d'' (sample_lake [sample_event ''u'' 0]
          (lk_store (snd (sample_flush ''c'' (sample_lake []
            (lk_store (snd (sample_flush ''c'' (sample_lake [sample_event ''u'' 0] sample_store)))))))))))) q = Some c)"
proof -
  let ?e = "sample_event ''u'' 0"
  obtain r1 lk1 where run1: "sample_flush ''c'' (sample_lake [?e] sample_store) = (r1, lk1)"
    by (metis prod.exhaust)
  obtain r3 lk3 where run3: "sample_flush ''c'' (sample_lake [] (lk_store lk1)) = (r3, lk3)"
    by (metis prod.exhaust)
  obtain r5 lk5 where run5: "sample_flush ''d'' (sample_lake [?e] (lk_store lk3)) = (r5, lk5)"
    by (metis prod.exhaust)
  have "fst (sample_flush ''d'' (sample_lake [?e]
          (lk_store (snd (sample_flush ''c'' (sample_lake []
            (lk_store (snd (sample_flush ''c'' (sample_lake [?e] sample_store)))))))))) = Inr ()"
    by code_simp
  then have r5: "r5 = Inr ()" using run1 run3 run5 by simp
  have r3: "r3 = Inr ()"
    using run3 by (simp add: sample_flush_def lake_flush_def sample_lake_def lake_write_def new_lake_def)
  have r1: "r1 = Inr ()" using sample_flush_one run1 by simp
  have "bucket_key ?e = Some (3002, ''19700101'')" by code_simp
  moreover have "CHR ''/'' \<notin> set (lc_source_name sample_config)" by (simp add: sample_config_def)
  ultimately show ?thesis
    using shorter_replay_duplicates [OF run1 [unfolded sample_flush_def r1] _ run3 [unfolded sample_flush_def r3] _ _
        run5 [unfolded sample_flush_def r5], of "[]" ?e "[]" "(3002, ''19700101'')"] run1 run3 run5
    by (simp add: sample_lake_def lake_write_def new_lake_def lake_digest_def) blast
qed

text \<open>C18: One event whose time is outside the years 1 to 9999 stops delivery: while it is buffered
  every flush raises before any object is written and leaves the sink as it was.\<close>

theorem undatable_event_blocks_flush:
  assumes "e \<in> set (lk_buffer lk)" and "ev_time_ms e div 86400000 + EPOCH_ORDINAL \<notin> {1..MAX_ORDINAL}"
  shows "snd (lake_flush put A sha cfg key lk) = lk \<and> (\<exists>x. fst (lake_flush put A sha cfg key lk) = Inl x)"
proof -
  have "bucket_key e = None"
    using assms(2) by (auto simp: bucket_key_def event_day_def utc_day_def Let_def)
  then obtain x where "bucket (lk_buffer lk) = Inl x" using assms(1) bucket_Inl_iff by blast
  moreover have "lk_buffer lk \<noteq> []" using assms(1) by auto
  ultimately show ?thesis by (simp add: lake_flush_def)
qed

lemma undatable_event_blocks_flush_witness:
  "\<exists>x. fst (lake_flush local_put plain_arrow id sample_config ''c''
     (sample_lake [sample_event ''u'' 253402300800000] \<lparr>ls_files = [], ls_written = []\<rparr>)) = Inl x"
  using undatable_event_blocks_flush [of "sample_event ''u'' 253402300800000"
      "sample_lake [sample_event ''u'' 253402300800000] \<lparr>ls_files = [], ls_written = []\<rparr>"
      local_put plain_arrow id sample_config "''c''"]
  by (simp add: sample_lake_def lake_write_def new_lake_def sample_event_def EPOCH_ORDINAL_def MAX_ORDINAL_def)

end
