(* ===== verification/StateStore.thy ===== *)
theory StateStore
  imports Prelude
begin

section \<open>State store: the resume position and the seen-set\<close>

text \<open>
  Models \<open>src/ocsf_connector/state/\<close>. \<open>store.py\<close> is the interface: the locale
  \<open>state_store\<close> has the operations the runner calls with the promises their docstrings
  make, and \<open>managed_state_store\<close> extends it with the owner's operations. The two
  implementations, \<open>MemoryStore\<close> and \<open>SqliteStore\<close>, interpret both locales, so the
  lemmas proved here from the promises hold of both.

  A method that reads its clock takes the reading as the argument \<open>now\<close>.
\<close>

record stream_row =
  row_cursor :: "string option"
  row_committed :: bool
  row_mapping_version :: "string option"
  row_last_published_ms :: "int option"
  row_caught_up_at :: "seconds option"

definition new_stream :: stream_row where
  "new_stream = \<lparr>row_cursor = None, row_committed = False, row_mapping_version = None,
     row_last_published_ms = None, row_caught_up_at = None\<rparr>"

subsection \<open>The interface\<close>

locale state_store =
  fixes get_cursor :: "'st \<Rightarrow> string \<Rightarrow> string option"
    and commit :: "'st \<Rightarrow> seconds \<Rightarrow> string \<Rightarrow> string option \<Rightarrow> string list \<Rightarrow> string \<Rightarrow> 'st"
    and mark_caught_up :: "'st \<Rightarrow> seconds \<Rightarrow> string \<Rightarrow> 'st"
    and filter_unseen :: "'st \<Rightarrow> seconds \<Rightarrow> string list \<Rightarrow> string list"
    and get_mapping_version :: "'st \<Rightarrow> string \<Rightarrow> string option"
    and record_published :: "'st \<Rightarrow> string \<Rightarrow> int \<Rightarrow> 'st"
    and purge_expired :: "'st \<Rightarrow> seconds \<Rightarrow> nat \<times> 'st"
    and expiry :: "'st \<Rightarrow> string \<Rightarrow> seconds option"
    and ttl :: "'st \<Rightarrow> seconds"
    and invar :: "'st \<Rightarrow> bool"
  assumes filter_unseen_spec: "invar st \<Longrightarrow>
      filter_unseen st now us =
        filter (\<lambda>u. \<not> (case expiry st u of None \<Rightarrow> False | Some e \<Rightarrow> now < e)) (uniq us)"
    and commit_cursor: "invar st \<Longrightarrow>
      get_cursor (commit st now s c us v) s' = (if s' = s then c else get_cursor st s')"
    and commit_version: "invar st \<Longrightarrow>
      get_mapping_version (commit st now s c us v) s' = (if s' = s then Some v else get_mapping_version st s')"
    and commit_expiry: "invar st \<Longrightarrow>
      expiry (commit st now s c us v) u = (if u \<in> set us then Some (now + ttl st) else expiry st u)"
    and commit_invar: "invar st \<Longrightarrow> invar (commit st now s c us v) \<and> ttl (commit st now s c us v) = ttl st"
    and mark_frame: "invar st \<Longrightarrow>
      get_cursor (mark_caught_up st now s) = get_cursor st \<and> expiry (mark_caught_up st now s) = expiry st \<and>
      get_mapping_version (mark_caught_up st now s) = get_mapping_version st \<and>
      ttl (mark_caught_up st now s) = ttl st \<and> invar (mark_caught_up st now s)"
    and published_frame: "invar st \<Longrightarrow>
      get_cursor (record_published st s ms) = get_cursor st \<and> expiry (record_published st s ms) = expiry st \<and>
      get_mapping_version (record_published st s ms) = get_mapping_version st \<and>
      ttl (record_published st s ms) = ttl st \<and> invar (record_published st s ms)"
    and purge_frame: "invar st \<Longrightarrow>
      get_cursor (snd (purge_expired st now)) = get_cursor st \<and>
      get_mapping_version (snd (purge_expired st now)) = get_mapping_version st \<and>
      ttl (snd (purge_expired st now)) = ttl st \<and> invar (snd (purge_expired st now))"
    and purge_expiry: "invar st \<Longrightarrow>
      expiry (snd (purge_expired st now)) u =
        (case expiry st u of None \<Rightarrow> None | Some e \<Rightarrow> if e \<le> now then None else Some e)"
begin

text \<open>What a client may rely on, from the promises alone.\<close>

lemma unseen_unique: "invar st \<Longrightarrow> distinct (filter_unseen st now us)"
  by (simp add: filter_unseen_spec)

lemma unseen_subset: "invar st \<Longrightarrow> set (filter_unseen st now us) \<subseteq> set us"
  by (auto simp: filter_unseen_spec)

lemma unseen_iff:
  "invar st \<Longrightarrow> u \<in> set (filter_unseen st now us) \<longleftrightarrow>
     u \<in> set us \<and> (\<forall>e. expiry st u = Some e \<longrightarrow> e \<le> now)"
  by (auto simp: filter_unseen_spec split: option.splits)

lemma committed_are_seen:
  assumes "invar st" and "u \<in> set us" and "t < now + ttl st"
  shows "u \<notin> set (filter_unseen (commit st now s c us v) t vs)"
  using assms commit_invar [OF assms(1)] by (simp add: unseen_iff commit_expiry)

lemma seen_set_is_shared:
  assumes "invar st" and "u \<notin> set us"
  shows "u \<in> set (filter_unseen (commit st now s c us v) t vs) \<longleftrightarrow> u \<in> set (filter_unseen st t vs)"
  using assms commit_invar [OF assms(1)] by (simp add: unseen_iff commit_expiry)

lemma purge_unobservable:
  assumes "invar st" and "now \<le> t"
  shows "filter_unseen (snd (purge_expired st now)) t us = filter_unseen st t us"
proof -
  have "invar (snd (purge_expired st now))" using purge_frame [OF assms(1)] by blast
  moreover have "(case expiry (snd (purge_expired st now)) u of None \<Rightarrow> False | Some e \<Rightarrow> t < e) \<longleftrightarrow>
      (case expiry st u of None \<Rightarrow> False | Some e \<Rightarrow> t < e)" for u
    using assms by (cases "expiry st u") (auto simp: purge_expiry)
  ultimately show ?thesis using assms(1) by (simp add: filter_unseen_spec)
qed

end

locale managed_state_store = state_store +
  fixes get_last_published :: "'a \<Rightarrow> string \<Rightarrow> int option"
    and has_committed :: "'a \<Rightarrow> string \<Rightarrow> bool"
    and caught_up_age :: "'a \<Rightarrow> seconds \<Rightarrow> string \<Rightarrow> seconds option"
  assumes commit_has: "invar st \<Longrightarrow>
      has_committed (commit st now s c us v) s' = (s' = s \<or> has_committed st s')"
    and commit_age: "invar st \<Longrightarrow>
      caught_up_age (commit st now s c us v) t s' = (if s' = s then Some (t - now) else caught_up_age st t s')"
    and mark_age: "invar st \<Longrightarrow>
      caught_up_age (mark_caught_up st now s) t s' =
        (if s' = s \<and> has_committed st s then Some (t - now) else caught_up_age st t s')"
    and mark_has: "invar st \<Longrightarrow> has_committed (mark_caught_up st now s) = has_committed st"
    and published_max: "invar st \<Longrightarrow> 0 \<le> ms \<Longrightarrow>
      get_last_published (record_published st s ms) s' =
        (if s' = s then Some (case get_last_published st s of None \<Rightarrow> ms | Some p \<Rightarrow> max p ms)
         else get_last_published st s')"
    and commit_published: "invar st \<Longrightarrow>
      get_last_published (commit st now s c us v) = get_last_published st"
begin

lemma finished_not_unstarted:
  "invar st \<Longrightarrow> get_cursor (commit st now s None us v) s = None \<and> has_committed (commit st now s None us v) s"
  by (simp add: commit_cursor commit_has)

lemma mark_needs_commit:
  "invar st \<Longrightarrow> \<not> has_committed st s \<Longrightarrow> caught_up_age (mark_caught_up st now s) t s' = caught_up_age st t s'"
  by (simp add: mark_age)

lemma published_never_regresses:
  assumes "invar st" and "0 \<le> ms" and "get_last_published st s = Some p"
  shows "\<exists>q. get_last_published (record_published st s ms) s = Some q \<and> p \<le> q"
  using assms by (simp add: published_max)

end

end
