(* ===== verification/MemoryStore.thy ===== *)
theory MemoryStore
  imports StateStore
begin

section \<open>The in-memory store\<close>

text \<open>
  Models \<open>src/ocsf_connector/state/memory.py\<close>: the dictionaries \<open>_streams\<close> and
  \<open>_seen\<close> and every method of \<open>InMemoryStateStore\<close>. The two interpretations show that it
  keeps the promises of \<open>store.py\<close>.
\<close>

record memory_store =
  ms_ttl :: seconds
  ms_streams :: "(string \<times> stream_row) list"
  ms_seen :: "(string \<times> seconds) list"

definition ms_row :: "memory_store \<Rightarrow> string \<Rightarrow> stream_row" where
  "ms_row st s = (case map_of (ms_streams st) s of None \<Rightarrow> new_stream | Some r \<Rightarrow> r)"

definition ms_get_cursor :: "memory_store \<Rightarrow> string \<Rightarrow> string option" where
  "ms_get_cursor st s = (case map_of (ms_streams st) s of None \<Rightarrow> None | Some r \<Rightarrow> row_cursor r)"

definition ms_commit ::
  "memory_store \<Rightarrow> seconds \<Rightarrow> string \<Rightarrow> string option \<Rightarrow> string list \<Rightarrow> string \<Rightarrow> memory_store" where
  "ms_commit st now s c us v =
     st\<lparr>ms_seen := foldl (\<lambda>d u. AList.update u (now + ms_ttl st) d) (ms_seen st) us,
        ms_streams := AList.update s
          ((ms_row st s)\<lparr>row_cursor := c, row_committed := True,
             row_mapping_version := Some v, row_caught_up_at := Some now\<rparr>) (ms_streams st)\<rparr>"

definition ms_mark_caught_up :: "memory_store \<Rightarrow> seconds \<Rightarrow> string \<Rightarrow> memory_store" where
  "ms_mark_caught_up st now s =
     (case map_of (ms_streams st) s of
        None \<Rightarrow> st
      | Some r \<Rightarrow>
          if row_committed r
          then st\<lparr>ms_streams := AList.update s (r\<lparr>row_caught_up_at := Some now\<rparr>) (ms_streams st)\<rparr>
          else st)"

definition ms_caught_up_age :: "memory_store \<Rightarrow> seconds \<Rightarrow> string \<Rightarrow> seconds option" where
  "ms_caught_up_age st now s =
     (case map_of (ms_streams st) s of
        None \<Rightarrow> None
      | Some r \<Rightarrow> (case row_caught_up_at r of None \<Rightarrow> None | Some stamp \<Rightarrow> Some (now - stamp)))"

text \<open>The loop keeps the set of uids already taken from this batch (\<open>within_batch\<close>).\<close>

fun ms_unseen_loop :: "(string \<times> seconds) list \<Rightarrow> seconds \<Rightarrow> string set \<Rightarrow> string list \<Rightarrow> string list" where
  "ms_unseen_loop seen now took [] = []"
| "ms_unseen_loop seen now took (u # us) =
     (if u \<in> took then ms_unseen_loop seen now took us
      else if (case map_of seen u of None \<Rightarrow> False | Some e \<Rightarrow> now < e)
      then ms_unseen_loop seen now took us
      else u # ms_unseen_loop seen now (insert u took) us)"

definition ms_filter_unseen :: "memory_store \<Rightarrow> seconds \<Rightarrow> string list \<Rightarrow> string list" where
  "ms_filter_unseen st now us = ms_unseen_loop (ms_seen st) now {} us"

definition ms_get_mapping_version :: "memory_store \<Rightarrow> string \<Rightarrow> string option" where
  "ms_get_mapping_version st s =
     (case map_of (ms_streams st) s of None \<Rightarrow> None | Some r \<Rightarrow> row_mapping_version r)"

definition ms_record_published :: "memory_store \<Rightarrow> string \<Rightarrow> int \<Rightarrow> memory_store" where
  "ms_record_published st s ms =
     (let r = ms_row st s in
        st\<lparr>ms_streams := AList.update s
           (case row_last_published_ms r of
              None \<Rightarrow> r\<lparr>row_last_published_ms := Some ms\<rparr>
            | Some p \<Rightarrow> if p < ms then r\<lparr>row_last_published_ms := Some ms\<rparr> else r) (ms_streams st)\<rparr>)"

definition ms_get_last_published :: "memory_store \<Rightarrow> string \<Rightarrow> int option" where
  "ms_get_last_published st s =
     (case map_of (ms_streams st) s of None \<Rightarrow> None | Some r \<Rightarrow> row_last_published_ms r)"

definition ms_has_committed :: "memory_store \<Rightarrow> string \<Rightarrow> bool" where
  "ms_has_committed st s =
     (case map_of (ms_streams st) s of None \<Rightarrow> False | Some r \<Rightarrow> row_committed r)"

definition ms_purge_expired :: "memory_store \<Rightarrow> seconds \<Rightarrow> nat \<times> memory_store" where
  "ms_purge_expired st now =
     (let stale = map fst (filter (\<lambda>(u, e). e \<le> now) (ms_seen st)) in
        (length stale, st\<lparr>ms_seen := foldl (\<lambda>d u. AList.delete u d) (ms_seen st) stale\<rparr>))"

definition ms_expiry :: "memory_store \<Rightarrow> string \<Rightarrow> seconds option" where
  "ms_expiry st = map_of (ms_seen st)"

text \<open>A Python dict has each key once.\<close>

definition ms_invar :: "memory_store \<Rightarrow> bool" where
  "ms_invar st \<longleftrightarrow> distinct (map fst (ms_streams st)) \<and> distinct (map fst (ms_seen st))"

named_theorems ms_defs \<open>the operations of the in-memory store\<close>

lemmas ms_operations [ms_defs] =
  ms_row_def ms_get_cursor_def ms_commit_def ms_mark_caught_up_def ms_caught_up_age_def
  ms_filter_unseen_def ms_get_mapping_version_def ms_record_published_def
  ms_get_last_published_def ms_has_committed_def ms_purge_expired_def ms_expiry_def
  new_stream_def

lemma map_of_fold_update:
  "map_of (foldl (\<lambda>d u. AList.update u e d) al us) u = (if u \<in> set us then Some e else map_of al u)"
  by (induction us arbitrary: al) auto

lemma distinct_fold_update:
  "distinct (map fst al) \<Longrightarrow> distinct (map fst (foldl (\<lambda>d u. AList.update u e d) al us))"
  by (induction us arbitrary: al) (auto simp: distinct_update)

lemma fold_delete: "foldl (\<lambda>d u. AList.delete u d) al us = filter (\<lambda>(k, _). k \<notin> set us) al"
  by (induction us arbitrary: al) (auto simp: AList.delete_eq intro!: filter_cong)

lemma stale_key_iff:
  assumes "distinct (map fst al)" and "(k, e) \<in> set al"
  shows "k \<in> set (map fst (filter (\<lambda>(u, e). e \<le> now) al)) \<longleftrightarrow> e \<le> now"
proof
  assume "k \<in> set (map fst (filter (\<lambda>(u, e). e \<le> now) al))"
  then obtain e' where "(k, e') \<in> set al" "e' \<le> now" by auto
  moreover from this(1) assms have "e' = e" by (metis eq_key_imp_eq_value)
  ultimately show "e \<le> now" by simp
next
  assume "e \<le> now"
  with assms(2) have "(k, e) \<in> set (filter (\<lambda>(u, e). e \<le> now) al)" by simp
  then show "k \<in> set (map fst (filter (\<lambda>(u, e). e \<le> now) al))" by force
qed

lemma stale_filter:
  assumes "distinct (map fst al)"
  shows "filter (\<lambda>(k, _). k \<notin> set (map fst (filter (\<lambda>(u, e). e \<le> now) al))) al =
    filter (\<lambda>(u, e). \<not> e \<le> now) al"
proof (rule filter_cong [OF refl])
  fix p assume p: "p \<in> set al"
  obtain k e where ke: "p = (k, e)" by (cases p)
  show "(case p of (k, _) \<Rightarrow> k \<notin> set (map fst (filter (\<lambda>(u, e). e \<le> now) al))) =
      (case p of (u, e) \<Rightarrow> \<not> e \<le> now)"
    using stale_key_iff [OF assms p [unfolded ke]] by (simp add: ke del: set_map)
qed

lemma map_of_filter_value:
  assumes "distinct (map fst al)"
  shows "map_of (filter (\<lambda>(u, e). P e) al) u =
    (case map_of al u of None \<Rightarrow> None | Some e \<Rightarrow> if P e then Some e else None)"
  using assms
proof (induction al)
  case Nil
  then show ?case by simp
next
  case (Cons p al)
  then show ?case
    by (cases p) (auto simp: map_of_eq_None_iff split: option.splits)
qed

lemma ms_purge_seen:
  "ms_invar st \<Longrightarrow>
     ms_purge_expired st now =
       (length (filter (\<lambda>(u, e). e \<le> now) (ms_seen st)),
        st\<lparr>ms_seen := filter (\<lambda>(u, e). \<not> e \<le> now) (ms_seen st)\<rparr>)"
  unfolding ms_purge_expired_def Let_def fold_delete ms_invar_def
  by (simp only: stale_filter length_map)

lemma ms_unseen_loop_eq:
  "ms_unseen_loop seen now S us =
     filter (\<lambda>u. \<not> (case map_of seen u of None \<Rightarrow> False | Some e \<Rightarrow> now < e)) (uniq_from S us)"
  by (induction us arbitrary: S)
     (auto simp: filter_uniq_from_insert [where P = "\<lambda>u. case map_of seen u of None \<Rightarrow> False | Some e \<Rightarrow> now < e"])

lemma ms_record_published_row:
  obtains r where "ms_record_published st s ms = st\<lparr>ms_streams := AList.update s r (ms_streams st)\<rparr>"
    and "row_cursor r = row_cursor (ms_row st s)"
    and "row_mapping_version r = row_mapping_version (ms_row st s)"
  by (cases "row_last_published_ms (ms_row st s)")
     (auto simp: ms_record_published_def Let_def split: if_splits)

interpretation mem: state_store ms_get_cursor ms_commit ms_mark_caught_up ms_filter_unseen
  ms_get_mapping_version ms_record_published ms_purge_expired ms_expiry ms_ttl ms_invar
proof (unfold_locales, goal_cases)
  case (1 st now us)
  then show ?case by (simp add: ms_filter_unseen_def ms_unseen_loop_eq uniq_def ms_expiry_def)
next
  case (2 st now s c us v s')
  then show ?case by (simp add: ms_defs)
next
  case (3 st now s c us v s')
  then show ?case by (simp add: ms_defs)
next
  case (4 st now s c us v u)
  then show ?case by (simp add: ms_defs map_of_fold_update)
next
  case (5 st now s c us v)
  then show ?case by (simp add: ms_invar_def ms_commit_def distinct_update distinct_fold_update)
next
  case (6 st now s)
  then show ?case
    by (auto simp: ms_invar_def ms_defs distinct_update fun_eq_iff split: option.splits)
next
  case (7 st s ms)
  obtain r where r: "ms_record_published st s ms = st\<lparr>ms_streams := AList.update s r (ms_streams st)\<rparr>"
      "row_cursor r = row_cursor (ms_row st s)" "row_mapping_version r = row_mapping_version (ms_row st s)"
    by (rule ms_record_published_row)
  have "ms_invar (ms_record_published st s ms)"
    using 7 r(1) by (simp add: ms_invar_def distinct_update)
  with r show ?case
    by (auto simp: ms_get_cursor_def ms_get_mapping_version_def ms_expiry_def ms_row_def new_stream_def
        fun_eq_iff split: option.splits)
next
  case (8 st now)
  then show ?case
    by (auto simp: ms_purge_seen) (auto simp: ms_invar_def ms_defs fun_eq_iff distinct_filter_keys)
next
  case (9 st now u)
  then show ?case
    by (auto simp: ms_purge_seen ms_expiry_def ms_invar_def
        map_of_filter_value [where P = "\<lambda>e. \<not> e \<le> now"] split: option.splits)
qed

interpretation memo: managed_state_store ms_get_cursor ms_commit ms_mark_caught_up ms_filter_unseen
  ms_get_mapping_version ms_record_published ms_purge_expired ms_expiry ms_ttl ms_invar
  ms_get_last_published ms_has_committed ms_caught_up_age
  by unfold_locales (auto simp: ms_defs Let_def fun_eq_iff max_def split: option.splits)

end
