(* ===== verification/SqliteStore.thy ===== *)
theory SqliteStore
  imports MemoryStore
begin

section \<open>The SQLite store\<close>

text \<open>
  \<open>SqliteStateStore\<close> of \<open>sqlite.py\<close>. The file (\<open>sq_disk\<close>) holds the two
  tables, keyed as their primary keys key them; \<open>sq_txn\<close> is the content as an open
  transaction of this connection sees it. Outside a transaction a statement commits at once
  (\<open>isolation_level=None\<close>). \<open>sq_committed\<close> is the set read when the file is opened,
  from which \<open>has_committed\<close> answers.

  A failing statement, a rollback and a process that dies with a transaction open are runs of
  the model, so the atomicity of a commit is a theorem about them. The store refines the
  in-memory one (\<open>mem_of\<close>), and takes its promises from there.
\<close>

record db =
  db_has_caught_up :: bool
  db_streams :: "(string \<times> stream_row) list"
  db_seen :: "(string \<times> seconds) list"

record sqlite_store =
  sq_ttl :: seconds
  sq_disk :: db
  sq_txn :: "db option"
  sq_committed :: "string set"

definition DEFAULT_TTL_SECONDS :: seconds where
  "DEFAULT_TTL_SECONDS = 24 * 60 * 60"

definition PARAMETER_CHUNK :: nat where
  "PARAMETER_CHUNK = 400"

text \<open>An empty file gets the current schema; one written before \<open>caught_up_at\<close> existed gains the
  column, NULL in every row.\<close>

definition empty_db :: db where
  "empty_db = \<lparr>db_has_caught_up = True, db_streams = [], db_seen = []\<rparr>"

definition sq_migrate :: "db \<Rightarrow> db" where
  "sq_migrate d =
     (if db_has_caught_up d then d
      else d\<lparr>db_has_caught_up := True,
             db_streams := map (\<lambda>(s, r). (s, r\<lparr>row_caught_up_at := None\<rparr>)) (db_streams d)\<rparr>)"

text \<open>\<open>SELECT stream FROM streams WHERE committed = 1\<close>.\<close>

definition select_committed :: "db \<Rightarrow> string set" where
  "select_committed d = set (map fst (filter (\<lambda>(s, r). row_committed r) (db_streams d)))"

definition sq_open :: "seconds \<Rightarrow> db \<Rightarrow> sqlite_store" where
  "sq_open ttl d =
     \<lparr>sq_ttl = ttl, sq_disk = sq_migrate d, sq_txn = None,
      sq_committed = select_committed (sq_migrate d)\<rparr>"

definition sq_view :: "sqlite_store \<Rightarrow> db" where
  "sq_view st = (case sq_txn st of None \<Rightarrow> sq_disk st | Some d \<Rightarrow> d)"

datatype stmt =
    BeginImmediate
  | UpsertCommit string "string option" string seconds
  | InsertSeen string seconds
  | CommitTxn
  | Rollback

definition db_row :: "db \<Rightarrow> string \<Rightarrow> stream_row" where
  "db_row d s = (case map_of (db_streams d) s of None \<Rightarrow> new_stream | Some r \<Rightarrow> r)"

definition db_apply :: "(db \<Rightarrow> db) \<Rightarrow> sqlite_store \<Rightarrow> sqlite_store" where
  "db_apply f st =
     (case sq_txn st of
        None \<Rightarrow> st\<lparr>sq_disk := f (sq_disk st)\<rparr>
      | Some d \<Rightarrow> st\<lparr>sq_txn := Some (f d)\<rparr>)"

fun sq_exec :: "stmt \<Rightarrow> sqlite_store \<Rightarrow> sqlite_store" where
  "sq_exec BeginImmediate st = st\<lparr>sq_txn := Some (sq_disk st)\<rparr>"
| "sq_exec (UpsertCommit s c v now) st =
     db_apply (\<lambda>d. d\<lparr>db_streams := AList.update s
       ((db_row d s)\<lparr>row_cursor := c, row_committed := True,
          row_mapping_version := Some v, row_caught_up_at := Some now\<rparr>) (db_streams d)\<rparr>) st"
| "sq_exec (InsertSeen u e) st =
     db_apply (\<lambda>d. d\<lparr>db_seen := AList.update u e (db_seen d)\<rparr>) st"
| "sq_exec CommitTxn st = (case sq_txn st of None \<Rightarrow> st | Some d \<Rightarrow> st\<lparr>sq_disk := d, sq_txn := None\<rparr>)"
| "sq_exec Rollback st = st\<lparr>sq_txn := None\<rparr>"

text \<open>
  A list of statements, the one numbered by the fault (if any) raising before it takes effect.
\<close>

fun sq_run :: "nat option \<Rightarrow> stmt list \<Rightarrow> (unit, sqlite_store) io" where
  "sq_run fault [] st = (Inr (), st)"
| "sq_run fault (x # xs) st =
     (case fault of
        Some 0 \<Rightarrow> (Inl (OSErr ''sqlite''), st)
      | Some (Suc k) \<Rightarrow> sq_run (Some k) xs (sq_exec x st)
      | None \<Rightarrow> sq_run None xs (sq_exec x st))"

definition sq_commit_body ::
  "sqlite_store \<Rightarrow> seconds \<Rightarrow> string \<Rightarrow> string option \<Rightarrow> string list \<Rightarrow> string \<Rightarrow> stmt list" where
  "sq_commit_body st now s c us v =
     UpsertCommit s c v now # map (\<lambda>u. InsertSeen u (now + sq_ttl st)) us @ [CommitTxn]"

text \<open>\<open>BEGIN\<close> is outside the \<open>try\<close>: its failure raises with nothing to roll back.\<close>

definition sq_commit_io ::
  "nat option \<Rightarrow> seconds \<Rightarrow> string \<Rightarrow> string option \<Rightarrow> string list \<Rightarrow> string \<Rightarrow> (unit, sqlite_store) io" where
  "sq_commit_io fault now s c us v st =
     (case fault of
        Some 0 \<Rightarrow> (Inl (OSErr ''sqlite''), st)
      | _ \<Rightarrow>
        (case sq_run (map_option (\<lambda>k. k - 1) fault) (sq_commit_body st now s c us v)
                (sq_exec BeginImmediate st) of
           (Inl e, st') \<Rightarrow> (Inl e, sq_exec Rollback st')
         | (Inr _, st') \<Rightarrow> (Inr (), st'\<lparr>sq_committed := insert s (sq_committed st')\<rparr>)))"

definition sq_commit ::
  "sqlite_store \<Rightarrow> seconds \<Rightarrow> string \<Rightarrow> string option \<Rightarrow> string list \<Rightarrow> string \<Rightarrow> sqlite_store" where
  "sq_commit st now s c us v = snd (sq_commit_io None now s c us v st)"

text \<open>
  The process dies after \<open>k\<close> statements of a commit, and the file is opened again: what an
  open transaction wrote is not in it.
\<close>

definition sq_killed_commit ::
  "nat \<Rightarrow> seconds \<Rightarrow> string \<Rightarrow> string option \<Rightarrow> string list \<Rightarrow> string \<Rightarrow> sqlite_store \<Rightarrow> sqlite_store" where
  "sq_killed_commit k now s c us v st =
     (let st' = foldl (\<lambda>t x. sq_exec x t) st (take k (BeginImmediate # sq_commit_body st now s c us v))
      in sq_open (sq_ttl st) (sq_disk st'))"

definition sq_get_cursor :: "sqlite_store \<Rightarrow> string \<Rightarrow> string option" where
  "sq_get_cursor st s =
     (case map_of (db_streams (sq_view st)) s of None \<Rightarrow> None | Some r \<Rightarrow> row_cursor r)"

text \<open>\<open>range(0, len(unique), PARAMETER_CHUNK)\<close> and the slices it makes.\<close>

function sq_chunks :: "nat \<Rightarrow> 'a list \<Rightarrow> 'a list list" where
  "sq_chunks k xs = (if k = 0 \<or> xs = [] then [] else take k xs # sq_chunks k (drop k xs))"
  by pat_completeness auto
termination
  by (relation "measure (\<lambda>(k, xs). length xs)") auto

definition sq_select_live :: "sqlite_store \<Rightarrow> seconds \<Rightarrow> string list \<Rightarrow> string list" where
  "sq_select_live st now chunk =
     map fst (filter (\<lambda>(u, e). now < e \<and> u \<in> set chunk) (db_seen (sq_view st)))"

definition sq_filter_unseen :: "sqlite_store \<Rightarrow> seconds \<Rightarrow> string list \<Rightarrow> string list" where
  "sq_filter_unseen st now us =
     (let unique = uniq us;
          delivered = \<Union> (set (map (\<lambda>ch. set (sq_select_live st now ch)) (sq_chunks PARAMETER_CHUNK unique)))
      in if unique = [] then [] else filter (\<lambda>u. u \<notin> delivered) unique)"

definition sq_get_mapping_version :: "sqlite_store \<Rightarrow> string \<Rightarrow> string option" where
  "sq_get_mapping_version st s =
     (case map_of (db_streams (sq_view st)) s of None \<Rightarrow> None | Some r \<Rightarrow> row_mapping_version r)"

text \<open>An inserted row takes the value as it is; an existing one takes
  \<open>MAX(COALESCE(last_published_ms, 0), excluded.last_published_ms)\<close>.\<close>

definition sq_record_published :: "sqlite_store \<Rightarrow> string \<Rightarrow> int \<Rightarrow> sqlite_store" where
  "sq_record_published st s ms =
     db_apply (\<lambda>d. d\<lparr>db_streams := AList.update s
       (case map_of (db_streams d) s of
          None \<Rightarrow> new_stream\<lparr>row_last_published_ms := Some ms\<rparr>
        | Some r \<Rightarrow> r\<lparr>row_last_published_ms :=
             Some (max (case row_last_published_ms r of None \<Rightarrow> 0 | Some p \<Rightarrow> p) ms)\<rparr>) (db_streams d)\<rparr>) st"

definition sq_mark_caught_up :: "sqlite_store \<Rightarrow> seconds \<Rightarrow> string \<Rightarrow> sqlite_store" where
  "sq_mark_caught_up st now s =
     db_apply (\<lambda>d. case map_of (db_streams d) s of
        None \<Rightarrow> d
      | Some r \<Rightarrow>
          if row_committed r
          then d\<lparr>db_streams := AList.update s (r\<lparr>row_caught_up_at := Some now\<rparr>) (db_streams d)\<rparr>
          else d) st"

definition sq_caught_up_age :: "sqlite_store \<Rightarrow> seconds \<Rightarrow> string \<Rightarrow> seconds option" where
  "sq_caught_up_age st now s =
     (case map_of (db_streams (sq_view st)) s of
        None \<Rightarrow> None
      | Some r \<Rightarrow> (case row_caught_up_at r of None \<Rightarrow> None | Some stamp \<Rightarrow> Some (now - stamp)))"

definition sq_get_last_published :: "sqlite_store \<Rightarrow> string \<Rightarrow> int option" where
  "sq_get_last_published st s =
     (case map_of (db_streams (sq_view st)) s of None \<Rightarrow> None | Some r \<Rightarrow> row_last_published_ms r)"

definition sq_has_committed :: "sqlite_store \<Rightarrow> string \<Rightarrow> bool" where
  "sq_has_committed st s \<longleftrightarrow> s \<in> sq_committed st"

definition sq_purge_expired :: "sqlite_store \<Rightarrow> seconds \<Rightarrow> nat \<times> sqlite_store" where
  "sq_purge_expired st now =
     (length (filter (\<lambda>(u, e). e \<le> now) (db_seen (sq_view st))),
      db_apply (\<lambda>d. d\<lparr>db_seen := filter (\<lambda>(u, e). \<not> e \<le> now) (db_seen d)\<rparr>) st)"

definition sq_expiry :: "sqlite_store \<Rightarrow> string \<Rightarrow> seconds option" where
  "sq_expiry st = map_of (db_seen (sq_view st))"

text \<open>
  Between calls no transaction is open, the tables have their primary keys, and the cached
  set is the \<open>committed\<close> column.
\<close>

definition sq_invar :: "sqlite_store \<Rightarrow> bool" where
  "sq_invar st \<longleftrightarrow> sq_txn st = None \<and> db_has_caught_up (sq_disk st) \<and>
     distinct (map fst (db_streams (sq_disk st))) \<and> distinct (map fst (db_seen (sq_disk st))) \<and>
     sq_committed st = select_committed (sq_disk st)"

named_theorems sq_defs \<open>the operations of the SQLite store\<close>

lemmas sq_operations [sq_defs] =
  sq_get_cursor_def sq_get_mapping_version_def sq_record_published_def sq_mark_caught_up_def
  sq_caught_up_age_def sq_get_last_published_def sq_has_committed_def sq_purge_expired_def
  sq_expiry_def sq_view_def db_apply_def db_row_def

subsection \<open>A commit is one transaction\<close>

definition is_write :: "stmt \<Rightarrow> bool" where
  "is_write x \<longleftrightarrow> (case x of UpsertCommit _ _ _ _ \<Rightarrow> True | InsertSeen _ _ \<Rightarrow> True | _ \<Rightarrow> False)"

lemma exec_write_in_txn:
  "is_write x \<Longrightarrow> \<exists>d'. sq_exec x (st\<lparr>sq_txn := Some d\<rparr>) = st\<lparr>sq_txn := Some d'\<rparr>"
  by (cases x) (auto simp: is_write_def db_apply_def)

lemma writes_in_txn:
  "list_all is_write xs \<Longrightarrow>
     \<exists>d'. foldl (\<lambda>t x. sq_exec x t) (st\<lparr>sq_txn := Some d\<rparr>) xs = st\<lparr>sq_txn := Some d'\<rparr>"
proof (induction xs arbitrary: d)
  case Nil
  then show ?case by auto
next
  case (Cons x xs)
  then obtain d1 where "sq_exec x (st\<lparr>sq_txn := Some d\<rparr>) = st\<lparr>sq_txn := Some d1\<rparr>"
    using exec_write_in_txn by fastforce
  with Cons show ?case by simp
qed

lemma run_no_fault: "sq_run None xs st = (Inr (), foldl (\<lambda>t x. sq_exec x t) st xs)"
  by (induction xs arbitrary: st) auto

lemma run_fault:
  "sq_run (Some k) xs st =
     (if k < length xs then (Inl (OSErr ''sqlite''), foldl (\<lambda>t x. sq_exec x t) st (take k xs))
      else (Inr (), foldl (\<lambda>t x. sq_exec x t) st xs))"
  by (induction xs arbitrary: st k) (auto split: nat.splits simp: take_Cons')

lemma take_body:
  assumes "k < length us + 2"
  shows "list_all is_write (take k (sq_commit_body st now s c us v))"
proof -
  have "take k (sq_commit_body st now s c us v) =
      take k (UpsertCommit s c v now # map (\<lambda>u. InsertSeen u (now + sq_ttl st)) us)"
    using assms by (cases k) (simp_all add: sq_commit_body_def)
  moreover have "list_all is_write (UpsertCommit s c v now # map (\<lambda>u. InsertSeen u (now + sq_ttl st)) us)"
    by (simp add: is_write_def list_all_iff)
  ultimately show ?thesis
    by (metis append_take_drop_id list_all_append)
qed

lemma length_body [simp]: "length (sq_commit_body st now s c us v) = length us + 2"
  by (simp add: sq_commit_body_def)

lemma faulty_commit_rolls_back:
  assumes "sq_txn st = None" and "k < length us + 3"
  shows "sq_commit_io (Some k) now s c us v st = (Inl (OSErr ''sqlite''), st)"
proof (cases k)
  case 0
  then show ?thesis by (simp add: sq_commit_io_def)
next
  case (Suc j)
  then have j: "j < length us + 2" using assms(2) by simp
  obtain d' where "foldl (\<lambda>t x. sq_exec x t) (st\<lparr>sq_txn := Some (sq_disk st)\<rparr>)
      (take j (sq_commit_body st now s c us v)) = st\<lparr>sq_txn := Some d'\<rparr>"
    using writes_in_txn [OF take_body [OF j]] by blast
  with Suc j assms(1) show ?thesis by (simp add: sq_commit_io_def run_fault)
qed

lemma late_fault_is_none:
  assumes "length us + 3 \<le> k"
  shows "sq_commit_io (Some k) now s c us v st = sq_commit_io None now s c us v st"
  using assms by (cases k) (auto simp: sq_commit_io_def run_fault run_no_fault)

lemma commit_inserts:
  "foldl (\<lambda>t x. sq_exec x t) (st\<lparr>sq_txn := Some d\<rparr>) (map (\<lambda>u. InsertSeen u e) us) =
     st\<lparr>sq_txn := Some (d\<lparr>db_seen := foldl (\<lambda>al u. AList.update u e al) (db_seen d) us\<rparr>)\<rparr>"
  by (induction us arbitrary: d) (auto simp: db_apply_def)

definition committed_db ::
  "seconds \<Rightarrow> seconds \<Rightarrow> string \<Rightarrow> string option \<Rightarrow> string list \<Rightarrow> string \<Rightarrow> db \<Rightarrow> db" where
  "committed_db ttl now s c us v d =
     d\<lparr>db_streams := AList.update s ((db_row d s)\<lparr>row_cursor := c, row_committed := True,
          row_mapping_version := Some v, row_caught_up_at := Some now\<rparr>) (db_streams d),
       db_seen := foldl (\<lambda>al u. AList.update u (now + ttl) al) (db_seen d) us\<rparr>"

lemma commit_run:
  "foldl (\<lambda>t x. sq_exec x t) (st\<lparr>sq_txn := Some (sq_disk st)\<rparr>) (sq_commit_body st now s c us v) =
     st\<lparr>sq_disk := committed_db (sq_ttl st) now s c us v (sq_disk st), sq_txn := None\<rparr>"
  by (simp add: sq_commit_body_def commit_inserts committed_db_def db_apply_def)

lemma commit_io_None:
  "sq_commit_io None now s c us v st =
     (Inr (), st\<lparr>sq_disk := committed_db (sq_ttl st) now s c us v (sq_disk st), sq_txn := None,
                 sq_committed := insert s (sq_committed st)\<rparr>)"
  by (simp add: sq_commit_io_def run_no_fault commit_run)

lemma sq_commit_eq:
  "sq_commit st now s c us v =
     st\<lparr>sq_disk := committed_db (sq_ttl st) now s c us v (sq_disk st), sq_txn := None,
        sq_committed := insert s (sq_committed st)\<rparr>"
  by (simp add: sq_commit_def commit_io_None)

lemma killed_commit:
  "sq_killed_commit k now s c us v st =
     (if k < length us + 3 then sq_open (sq_ttl st) (sq_disk st)
      else sq_open (sq_ttl st) (sq_disk (sq_commit st now s c us v)))"
proof (cases k)
  case 0
  then show ?thesis by (simp add: sq_killed_commit_def)
next
  case (Suc j)
  show ?thesis
  proof (cases "j < length us + 2")
    case True
    obtain d' where "foldl (\<lambda>t x. sq_exec x t) (st\<lparr>sq_txn := Some (sq_disk st)\<rparr>)
        (take j (sq_commit_body st now s c us v)) = st\<lparr>sq_txn := Some d'\<rparr>"
      using writes_in_txn [OF take_body [OF True]] by blast
    with Suc True show ?thesis by (simp add: sq_killed_commit_def Let_def)
  next
    case False
    with Suc show ?thesis by (simp add: sq_killed_commit_def Let_def commit_run sq_commit_eq)
  qed
qed

subsection \<open>The SQLite store refines the in-memory one\<close>

definition mem_of :: "sqlite_store \<Rightarrow> memory_store" where
  "mem_of st = \<lparr>ms_ttl = sq_ttl st, ms_streams = db_streams (sq_disk st), ms_seen = db_seen (sq_disk st)\<rparr>"

declare sq_chunks.simps [simp del]

lemma concat_chunks: "0 < k \<Longrightarrow> \<Union> (set ` set (sq_chunks k xs)) = set xs"
proof (induction k xs rule: sq_chunks.induct)
  case (1 k xs)
  show ?case
  proof (cases "xs = []")
    case True
    then show ?thesis by (simp add: sq_chunks.simps)
  next
    case False
    then have "sq_chunks k xs = take k xs # sq_chunks k (drop k xs)"
      using "1.prems" by (simp add: sq_chunks.simps)
    moreover have "\<Union> (set ` set (sq_chunks k (drop k xs))) = set (drop k xs)"
      using 1 False by simp
    ultimately have "\<Union> (set ` set (sq_chunks k xs)) = set (take k xs) \<union> set (drop k xs)"
      by simp
    then show ?thesis by (metis append_take_drop_id set_append)
  qed
qed

lemma select_live_iff:
  assumes "distinct (map fst (db_seen (sq_view st)))"
  shows "u \<in> set (sq_select_live st now ch) \<longleftrightarrow>
    u \<in> set ch \<and> (case map_of (db_seen (sq_view st)) u of None \<Rightarrow> False | Some e \<Rightarrow> now < e)"
  using scan_keys_iff [OF assms, of u "\<lambda>u e. now < e \<and> u \<in> set ch"]
  by (auto simp: sq_select_live_def split: option.splits)

lemma select_committed_iff:
  assumes "distinct (map fst (db_streams d))"
  shows "s \<in> select_committed d \<longleftrightarrow>
    (case map_of (db_streams d) s of None \<Rightarrow> False | Some r \<Rightarrow> row_committed r)"
  unfolding select_committed_def
  using scan_keys_iff [OF assms, of s "\<lambda>_ r. row_committed r"] by simp

lemma filter_unseen_refines:
  assumes "sq_invar st"
  shows "sq_filter_unseen st now us = ms_filter_unseen (mem_of st) now us"
proof -
  have view: "sq_view st = sq_disk st" using assms by (simp add: sq_view_def sq_invar_def)
  have d: "distinct (map fst (db_seen (sq_view st)))" using assms view by (simp add: sq_invar_def)
  have "u \<in> \<Union> (set (map (\<lambda>ch. set (sq_select_live st now ch)) (sq_chunks PARAMETER_CHUNK (uniq us)))) \<longleftrightarrow>
      (case map_of (db_seen (sq_disk st)) u of None \<Rightarrow> False | Some e \<Rightarrow> now < e)"
    if "u \<in> set (uniq us)" for u
    using that concat_chunks [of PARAMETER_CHUNK "uniq us"]
    by (auto simp: select_live_iff [OF d] view PARAMETER_CHUNK_def split: option.splits)
  then have "filter (\<lambda>u. u \<notin> \<Union> (set (map (\<lambda>ch. set (sq_select_live st now ch))
        (sq_chunks PARAMETER_CHUNK (uniq us))))) (uniq us) =
      filter (\<lambda>u. \<not> (case map_of (db_seen (sq_disk st)) u of None \<Rightarrow> False | Some e \<Rightarrow> now < e)) (uniq us)"
    by (intro filter_cong [OF refl]) blast
  moreover have "ms_filter_unseen (mem_of st) now us =
      filter (\<lambda>u. \<not> (case map_of (db_seen (sq_disk st)) u of None \<Rightarrow> False | Some e \<Rightarrow> now < e)) (uniq us)"
    by (simp add: ms_filter_unseen_def ms_unseen_loop_eq uniq_def mem_of_def)
  ultimately show ?thesis
    by (cases "uniq us = []") (simp_all add: sq_filter_unseen_def Let_def)
qed

text \<open>Each write of the SQLite store is the in-memory one, seen through \<open>mem_of\<close>.\<close>

lemma commit_refines:
  "mem_of (sq_commit st now s c us v) = ms_commit (mem_of st) now s c us v"
  by (simp add: sq_commit_eq committed_db_def mem_of_def ms_commit_def ms_row_def db_row_def)

lemma mark_refines:
  "sq_invar st \<Longrightarrow> mem_of (sq_mark_caught_up st now s) = ms_mark_caught_up (mem_of st) now s"
  by (auto simp: sq_mark_caught_up_def db_apply_def mem_of_def ms_mark_caught_up_def sq_invar_def
      split: option.splits)

lemma published_same [simp]:
  "row_last_published_ms r = Some p \<Longrightarrow> r\<lparr>row_last_published_ms := Some p\<rparr> = r"
  by (cases r) simp

lemma published_refines:
  "sq_invar st \<Longrightarrow> 0 \<le> ms \<Longrightarrow>
     mem_of (sq_record_published st s ms) = ms_record_published (mem_of st) s ms"
  by (auto simp: sq_record_published_def db_apply_def mem_of_def ms_record_published_def ms_row_def
      sq_invar_def new_stream_def Let_def max_def split: option.splits)

lemma purge_refines:
  assumes "sq_invar st"
  shows "fst (sq_purge_expired st now) = fst (ms_purge_expired (mem_of st) now)"
    and "mem_of (snd (sq_purge_expired st now)) = snd (ms_purge_expired (mem_of st) now)"
proof -
  have "ms_invar (mem_of st)" using assms by (simp add: mem_of_def ms_invar_def sq_invar_def)
  then show "fst (sq_purge_expired st now) = fst (ms_purge_expired (mem_of st) now)"
    and "mem_of (snd (sq_purge_expired st now)) = snd (ms_purge_expired (mem_of st) now)"
    using assms
    by (simp_all add: ms_purge_seen sq_purge_expired_def mem_of_def db_apply_def sq_view_def sq_invar_def)
qed

text \<open>The readers agree too.\<close>

lemma reads_refine:
  assumes "sq_invar st"
  shows "sq_get_cursor st s = ms_get_cursor (mem_of st) s"
    and "sq_get_mapping_version st s = ms_get_mapping_version (mem_of st) s"
    and "sq_get_last_published st s = ms_get_last_published (mem_of st) s"
    and "sq_has_committed st s = ms_has_committed (mem_of st) s"
    and "sq_caught_up_age st now s = ms_caught_up_age (mem_of st) now s"
    and "sq_expiry st u = ms_expiry (mem_of st) u"
  using assms
  by (auto simp: sq_defs ms_defs mem_of_def sq_invar_def select_committed_iff split: option.splits)

text \<open>Every operation keeps the invariant.\<close>

lemma sq_invar_mem: "sq_invar st \<Longrightarrow> ms_invar (mem_of st)"
  by (simp add: sq_invar_def ms_invar_def mem_of_def)

lemma select_committed_update:
  assumes "distinct (map fst (db_streams d))"
  shows "select_committed (d\<lparr>db_streams := AList.update s r (db_streams d)\<rparr>) =
    (if row_committed r then insert s (select_committed d) else select_committed d - {s})"
proof (rule set_eqI)
  fix x
  show "x \<in> select_committed (d\<lparr>db_streams := AList.update s r (db_streams d)\<rparr>) \<longleftrightarrow>
      x \<in> (if row_committed r then insert s (select_committed d) else select_committed d - {s})"
    using assms by (cases "x = s") (simp_all add: select_committed_iff distinct_update)
qed

lemma select_committed_seen [simp]:
  "select_committed (d\<lparr>db_seen := x\<rparr>) = select_committed d"
  by (simp add: select_committed_def)

lemma commit_keeps: "sq_invar st \<Longrightarrow> sq_invar (sq_commit st now s c us v)"
  by (simp add: sq_invar_def sq_commit_eq committed_db_def distinct_update distinct_fold_update
      select_committed_update)

lemma row_update_keeps:
  assumes "sq_invar st" and "row_committed r = row_committed (db_row (sq_disk st) s)"
  shows "sq_invar (st\<lparr>sq_disk := (sq_disk st)\<lparr>db_streams := AList.update s r (db_streams (sq_disk st))\<rparr>\<rparr>)"
proof -
  have d: "distinct (map fst (db_streams (sq_disk st)))" using assms(1) by (simp add: sq_invar_def)
  have "row_committed r \<longleftrightarrow> s \<in> select_committed (sq_disk st)"
    using assms(2) by (simp add: select_committed_iff [OF d] db_row_def new_stream_def split: option.splits)
  then have "select_committed ((sq_disk st)\<lparr>db_streams := AList.update s r (db_streams (sq_disk st))\<rparr>) =
      select_committed (sq_disk st)"
    by (auto simp: select_committed_update [OF d])
  with assms(1) show ?thesis by (simp add: sq_invar_def distinct_update)
qed

lemma mark_keeps:
  assumes "sq_invar st"
  shows "sq_invar (sq_mark_caught_up st now s)"
proof (cases "map_of (db_streams (sq_disk st)) s")
  case None
  then have "sq_mark_caught_up st now s = st"
    using assms by (simp add: sq_mark_caught_up_def db_apply_def sq_invar_def)
  with assms show ?thesis by simp
next
  case (Some r)
  have "sq_invar (st\<lparr>sq_disk := (sq_disk st)\<lparr>db_streams :=
      AList.update s (r\<lparr>row_caught_up_at := Some now\<rparr>) (db_streams (sq_disk st))\<rparr>\<rparr>)"
    using Some by (intro row_update_keeps [OF assms]) (simp add: db_row_def)
  with Some assms show ?thesis
    by (simp add: sq_mark_caught_up_def db_apply_def sq_invar_def)
qed

lemma published_keeps:
  assumes "sq_invar st"
  shows "sq_invar (sq_record_published st s ms)"
proof -
  have txn: "sq_txn st = None" using assms by (simp add: sq_invar_def)
  show ?thesis
    unfolding sq_record_published_def db_apply_def txn option.case(1)
    by (rule row_update_keeps [OF assms]) (simp add: db_row_def new_stream_def split: option.splits)
qed

lemma purge_keeps: "sq_invar st \<Longrightarrow> sq_invar (snd (sq_purge_expired st now))"
  by (simp add: sq_purge_expired_def db_apply_def sq_invar_def distinct_filter_keys select_committed_def)

lemmas sq_keeps = commit_keeps mark_keeps published_keeps purge_keeps

interpretation sql: state_store sq_get_cursor sq_commit sq_mark_caught_up sq_filter_unseen
  sq_get_mapping_version sq_record_published sq_purge_expired sq_expiry sq_ttl sq_invar
proof (unfold_locales, goal_cases)
  case (1 st now us)
  then show ?case
    using mem.filter_unseen_spec [OF sq_invar_mem [OF 1]] reads_refine(6) [OF 1]
    by (simp add: filter_unseen_refines)
next
  case (2 st now s c us v s')
  then show ?case
    using mem.commit_cursor [OF sq_invar_mem [OF 2]] by (simp add: reads_refine commit_keeps commit_refines)
next
  case (3 st now s c us v s')
  then show ?case
    using mem.commit_version [OF sq_invar_mem [OF 3]] by (simp add: reads_refine commit_keeps commit_refines)
next
  case (4 st now s c us v u)
  then show ?case
    using mem.commit_expiry [OF sq_invar_mem [OF 4]]
    by (simp add: reads_refine commit_keeps commit_refines) (simp add: mem_of_def)
next
  case (5 st now s c us v)
  then show ?case by (simp add: commit_keeps) (simp add: sq_commit_eq)
next
  case (6 st now s)
  have "sq_ttl (sq_mark_caught_up st now s) = sq_ttl st"
    by (simp add: sq_mark_caught_up_def db_apply_def split: option.splits)
  with 6 show ?case
    using mem.mark_frame [OF sq_invar_mem [OF 6]]
    by (simp add: fun_eq_iff reads_refine mark_keeps mark_refines)
next
  case (7 st s ms)
  then show ?case
    by (simp add: published_keeps)
       (auto simp: sq_defs fun_eq_iff sq_invar_def new_stream_def split: option.splits)
next
  case (8 st now)
  have "sq_ttl (snd (sq_purge_expired st now)) = sq_ttl st"
    by (simp add: sq_purge_expired_def db_apply_def split: option.splits)
  with 8 show ?case
    using mem.purge_frame [OF sq_invar_mem [OF 8]]
    by (simp add: fun_eq_iff reads_refine purge_keeps purge_refines)
next
  case (9 st now u)
  then show ?case
    using mem.purge_expiry [OF sq_invar_mem [OF 9]]
    by (simp add: reads_refine purge_keeps purge_refines)
qed

interpretation sqlo: managed_state_store sq_get_cursor sq_commit sq_mark_caught_up sq_filter_unseen
  sq_get_mapping_version sq_record_published sq_purge_expired sq_expiry sq_ttl sq_invar
  sq_get_last_published sq_has_committed sq_caught_up_age
proof (unfold_locales, goal_cases)
  case (1 st now s c us v s')
  then show ?case
    using memo.commit_has [OF sq_invar_mem [OF 1]] by (simp add: reads_refine commit_keeps commit_refines)
next
  case (2 st now s c us v t s')
  then show ?case
    using memo.commit_age [OF sq_invar_mem [OF 2]] by (simp add: reads_refine commit_keeps commit_refines)
next
  case (3 st now s t s')
  then show ?case
    using memo.mark_age [OF sq_invar_mem [OF 3]] by (simp add: reads_refine mark_keeps mark_refines)
next
  case (4 st now s)
  then show ?case
    using memo.mark_has [OF sq_invar_mem [OF 4]]
    by (simp add: fun_eq_iff reads_refine mark_keeps mark_refines)
next
  case (5 st ms s s')
  then show ?case
    using memo.published_max [OF sq_invar_mem [OF 5(1)] 5(2)]
    by (simp add: reads_refine published_keeps published_refines)
next
  case (6 st now s c us v)
  then show ?case
    using memo.commit_published [OF sq_invar_mem [OF 6]]
    by (simp add: fun_eq_iff reads_refine commit_keeps commit_refines)
qed

subsection \<open>Sequences of calls\<close>

text \<open>The calls a client makes, each with the clock reading it gets, and what they return.\<close>

datatype store_call =
    GetCursor string
  | Commit seconds string "string option" "string list" string
  | MarkCaughtUp seconds string
  | CaughtUpAge seconds string
  | FilterUnseen seconds "string list"
  | GetMappingVersion string
  | RecordPublished string int
  | GetLastPublished string
  | HasCommitted string
  | PurgeExpired seconds

datatype store_reply =
    RUnit
  | RCursor "string option"
  | RAge "seconds option"
  | RUids "string list"
  | RVersion "string option"
  | RMillis "int option"
  | RBool bool
  | RCount nat

fun sq_call :: "store_call \<Rightarrow> sqlite_store \<Rightarrow> store_reply \<times> sqlite_store" where
  "sq_call (GetCursor s) st = (RCursor (sq_get_cursor st s), st)"
| "sq_call (Commit now s c us v) st = (RUnit, sq_commit st now s c us v)"
| "sq_call (MarkCaughtUp now s) st = (RUnit, sq_mark_caught_up st now s)"
| "sq_call (CaughtUpAge now s) st = (RAge (sq_caught_up_age st now s), st)"
| "sq_call (FilterUnseen now us) st = (RUids (sq_filter_unseen st now us), st)"
| "sq_call (GetMappingVersion s) st = (RVersion (sq_get_mapping_version st s), st)"
| "sq_call (RecordPublished s ms) st = (RUnit, sq_record_published st s ms)"
| "sq_call (GetLastPublished s) st = (RMillis (sq_get_last_published st s), st)"
| "sq_call (HasCommitted s) st = (RBool (sq_has_committed st s), st)"
| "sq_call (PurgeExpired now) st = (RCount (fst (sq_purge_expired st now)), snd (sq_purge_expired st now))"


fun run_calls :: "('c \<Rightarrow> 's \<Rightarrow> 'r \<times> 's) \<Rightarrow> 'c list \<Rightarrow> 's \<Rightarrow> 'r list \<times> 's" where
  "run_calls f [] st = ([], st)"
| "run_calls f (c # cs) st =
     (let (r, st') = f c st; (rs, st'') = run_calls f cs st' in (r # rs, st''))"

text \<open>A publication time from 1970 on.\<close>

definition published_ok :: "store_call \<Rightarrow> bool" where
  "published_ok c = (case c of RecordPublished s ms \<Rightarrow> 0 \<le> ms | _ \<Rightarrow> True)"

lemma call_keeps: "sq_invar st \<Longrightarrow> sq_invar (snd (sq_call c st))"
  by (cases c) (simp_all add: sq_keeps)


lemma run_calls_keeps: "sq_invar st \<Longrightarrow> sq_invar (snd (run_calls sq_call cs st))"
  using call_keeps by (induction cs arbitrary: st) (simp_all add: split_def Let_def)

lemma open_invar:
  "distinct (map fst (db_streams d)) \<Longrightarrow> distinct (map fst (db_seen d)) \<Longrightarrow> sq_invar (sq_open ttl d)"
  by (auto simp: sq_open_def sq_invar_def sq_migrate_def comp_def split_def)

subsection \<open>Properties of the store\<close>

lemma commit_io_cases:
  assumes "sq_invar st"
  shows "sq_commit_io fault now s c us v st = (Inl (OSErr ''sqlite''), st) \<or>
    sq_commit_io fault now s c us v st = (Inr (), sq_commit st now s c us v)"
proof (cases fault)
  case None
  then show ?thesis by (simp add: commit_io_None sq_commit_eq)
next
  case (Some k)
  then show ?thesis
    using faulty_commit_rolls_back [of st k us now s c v] late_fault_is_none [of us k now s c v st] assms
    by (cases "k < length us + 3") (simp_all add: sq_invar_def commit_io_None sq_commit_eq)
qed

text \<open>C5: A commit is all or nothing. Whatever statement of it fails, the call that raised has left
  file, connection and cached set as they were, and the call that returned has made the whole
  commit; a process killed after any number of its statements leaves the file, once reopened,
  either as before or with the whole commit.\<close>

theorem commit_all_or_nothing:
  assumes "sq_invar st"
  shows "sq_commit_io fault now s c us v st \<in>
      {(Inl (OSErr ''sqlite''), st), (Inr (), sq_commit st now s c us v)} \<and>
    sq_killed_commit k now s c us v st \<in>
      {sq_open (sq_ttl st) (sq_disk st), sq_open (sq_ttl st) (sq_disk (sq_commit st now s c us v))}"
  using commit_io_cases [OF assms] by (auto simp: killed_commit)

lemma commit_all_or_nothing_witness:
  "sq_commit_io (Some 2) 5 ''okta'' (Some ''c'') [''u''] ''1'' (sq_open 9 empty_db) =
      (Inl (OSErr ''sqlite''), sq_open 9 empty_db) \<and>
   sq_commit_io (Some 2) 5 ''okta'' (Some ''c'') [''u''] ''1'' (sq_open 9 empty_db) \<in>
      {(Inl (OSErr ''sqlite''), sq_open 9 empty_db),
       (Inr (), sq_commit (sq_open 9 empty_db) 5 ''okta'' (Some ''c'') [''u''] ''1'')}"
  using commit_all_or_nothing [OF open_invar, of empty_db "Some 2" 5 "''okta''" "Some ''c''" "[''u'']" "''1''" 9]
    faulty_commit_rolls_back [of "sq_open 9 empty_db" 2 "[''u'']"]
  by (auto simp: empty_db_def sq_open_def)



text \<open>C13: A uid committed with a batch is withheld from every later batch until its time to
  live has passed, whatever else is committed, marked, published or purged meanwhile; the
  uids of the filter are the given ones, each once, in their order.\<close>

theorem committed_uid_withheld:
  assumes "sq_invar st" and "u \<in> set us" and "list_all published_ok cs"
    and "list_all (\<lambda>c. case c of Commit n s c us v \<Rightarrow> now \<le> n | _ \<Rightarrow> True) cs"
    and "t < now + sq_ttl st"
    and "list_all (\<lambda>c. case c of PurgeExpired n \<Rightarrow> n \<le> t | _ \<Rightarrow> True) cs"
  shows "u \<notin> set (sq_filter_unseen (snd (run_calls sq_call cs (sq_commit st now s c us v))) t vs)"
proof -
  define st0 where "st0 = sq_commit st now s c us v"
  have "\<exists>e. sq_expiry (snd (run_calls sq_call cs st0)) u = Some e \<and> t < e"
    if "sq_invar st0" "sq_ttl st0 = sq_ttl st" "sq_expiry st0 u = Some e" "t < e" for e
    using that assms(3,4,6)
  proof (induction cs arbitrary: st0 e)
    case Nil
    then show ?case by simp
  next
    case (Cons x cs)
    have "sq_invar (snd (sq_call x st0))" using Cons.prems by (intro call_keeps)
    moreover have "sq_ttl (snd (sq_call x st0)) = sq_ttl st \<and>
        (\<exists>e. sq_expiry (snd (sq_call x st0)) u = Some e \<and> t < e)"
      using Cons.prems assms(5) sql.mark_frame [OF Cons.prems(1)] sql.published_frame [OF Cons.prems(1)]
        sql.purge_frame [OF Cons.prems(1)] sql.commit_invar [OF Cons.prems(1)]
      by (cases x) (auto simp: sql.commit_expiry sql.purge_expiry)
    ultimately obtain e' where "sq_invar (snd (sq_call x st0))" "sq_ttl (snd (sq_call x st0)) = sq_ttl st"
      "sq_expiry (snd (sq_call x st0)) u = Some e'" "t < e'" by blast
    from Cons.IH [OF this] Cons.prems show ?case by (simp add: split_def Let_def)
  qed
  moreover have "sq_invar st0" "sq_ttl st0 = sq_ttl st" "sq_expiry st0 u = Some (now + sq_ttl st)"
    using sql.commit_invar [OF assms(1)] sql.commit_expiry [OF assms(1)] assms(2) by (auto simp: st0_def)
  ultimately obtain e where e: "sq_expiry (snd (run_calls sq_call cs st0)) u = Some e" "t < e"
    using assms(5) by blast
  have "sq_invar (snd (run_calls sq_call cs st0))"
    using \<open>sq_invar st0\<close> by (rule run_calls_keeps)
  with e show ?thesis by (simp add: sql.unseen_iff st0_def)
qed

lemma committed_uid_withheld_witness:
  "''u'' \<notin> set (sq_filter_unseen (snd (run_calls sq_call [PurgeExpired 12, MarkCaughtUp 12 ''okta'']
     (sq_commit (sq_open 9 empty_db) 5 ''okta'' None [''u''] ''1''))) 13 [''u'', ''v''])"
  by (rule committed_uid_withheld [OF open_invar])
     (simp_all add: empty_db_def published_ok_def sq_open_def)

text \<open>The two stores disagree about a publication time before 1970: for a stream that has a
  row with no time yet, the SQLite upsert takes the maximum with 0 and the in-memory store takes
  the time as it is. The docstrings promise one behaviour.\<close>

theorem published_before_1970_differs:
  assumes "sq_invar st" and "ms < 0"
  shows "sq_get_last_published (sq_record_published (sq_commit st now s c us v) s ms) s \<noteq>
      ms_get_last_published (ms_record_published (mem_of (sq_commit st now s c us v)) s ms) s \<longleftrightarrow>
    sq_get_last_published st s = None"
proof -
  have "sq_txn st = None" using assms(1) by (simp add: sq_invar_def)
  with assms(2) show ?thesis
    by (cases "map_of (db_streams (sq_disk st)) s")
       (auto simp: sq_commit_eq committed_db_def mem_of_def sq_defs ms_defs Let_def max_def
         split: option.splits)
qed

lemma published_before_1970_differs_witness:
  "sq_get_last_published
      (sq_record_published (sq_commit (sq_open 9 empty_db) 5 ''okta'' None [] ''1'') ''okta'' (- 3)) ''okta'' \<noteq>
   ms_get_last_published
      (ms_record_published (mem_of (sq_commit (sq_open 9 empty_db) 5 ''okta'' None [] ''1'')) ''okta'' (- 3)) ''okta''"
  using published_before_1970_differs [OF open_invar, of empty_db "- 3" 9 5 "''okta''" None "[]" "''1''"]
  by (simp add: empty_db_def) (simp add: sq_open_def sq_migrate_def sq_defs)

end
