(* ===== verification/Connector.thy ===== *)
theory Connector
  imports RunLoop LakeSink SqliteStore
begin

section \<open>What a run promises about the log\<close>

text \<open>
  The argument that no event is lost, over any source, mapper, store and sink that keep their
  promises. A \<open>scene\<close> is what stays fixed while processes come and go: the streams with their
  logs and cursors, the event a record maps to, and where and how objects are written. A
  \<open>standing\<close> is what the argument needs of the world: the SQLite store, the objects by place,
  and the buffer of the sink. The locale \<open>connector\<close> states what each call of a run
  (\<open>RunLoop.deps\<close>) may do to the standing; from that alone, a run keeps \<open>committed_ok\<close>.
  \<open>Delivery\<close> interprets it on a faulty environment, and \<open>Wire\<close> proves it of the assembled program.
\<close>

record ('r, 'c, 'b) scene =
  sc_streams :: "string set"
  sc_log :: "string \<Rightarrow> 'r list"
  sc_event :: "'r \<Rightarrow> exn + ocsf_event"
  sc_cur :: "string \<Rightarrow> nat \<Rightarrow> string"
  sc_place :: "string \<Rightarrow> string \<Rightarrow> string"
  sc_arrow :: "('c, 'b) arrow"
  sc_sha256 :: "string \<Rightarrow> string"
  sc_config :: lake_config

record 'b standing =
  st_db :: sqlite_store
  st_objects :: "string \<Rightarrow> 'b option"
  st_buffer :: "ocsf_event list"

text \<open>A range is finished when its stream has committed the end of the range.\<close>

definition finished :: "'b standing \<Rightarrow> string \<Rightarrow> bool" where
  "finished s stream \<longleftrightarrow> sq_has_committed (st_db s) stream \<and> sq_get_cursor (st_db s) stream = None"

definition log_length :: "('r, 'c, 'b) scene \<Rightarrow> string \<Rightarrow> nat" where
  "log_length sc stream = length (sc_log sc stream)"

definition log_event :: "('r, 'c, 'b) scene \<Rightarrow> string \<Rightarrow> nat \<Rightarrow> exn + ocsf_event" where
  "log_event sc stream i = sc_event sc (sc_log sc stream ! i)"

definition logged :: "('r, 'c, 'b) scene \<Rightarrow> ocsf_event set" where
  "logged sc = {e. \<exists>stream \<in> sc_streams sc. Inr e \<in> sc_event sc ` set (sc_log sc stream)}"

text \<open>An event is stored if some object is the table of events it is one of; a uid is delivered if
  an event of the log with it is stored.\<close>

definition stored :: "('r, 'c, 'b) scene \<Rightarrow> 'b standing \<Rightarrow> ocsf_event \<Rightarrow> bool" where
  "stored sc s e \<longleftrightarrow>
     (\<exists>p body es. st_objects s p = Some body \<and> parquet_bytes (sc_arrow sc) es = Inr body \<and> e \<in> set es)"

definition delivered :: "('r, 'c, 'b) scene \<Rightarrow> 'b standing \<Rightarrow> string \<Rightarrow> bool" where
  "delivered sc s u \<longleftrightarrow> (\<exists>e \<in> logged sc. ev_uid e = u \<and> stored sc s e)"

text \<open>The same of one of the objects of the batch with the given key.\<close>

definition held_at :: "('r, 'c, 'b) scene \<Rightarrow> 'b standing \<Rightarrow> string \<Rightarrow> string \<Rightarrow> bool" where
  "held_at sc s key u \<longleftrightarrow>
     (\<exists>k p body es. \<exists>e \<in> set es. bucket_place (sc_place sc) (sc_config sc) (lake_digest (sc_sha256 sc) key) k = Some p \<and>
        length (snd k) = 8 \<and> st_objects s p = Some body \<and> parquet_bytes (sc_arrow sc) es = Inr body \<and>
        e \<in> logged sc \<and> ev_uid e = u)"

text \<open>The custom source prefix has no slash, and the digests tell all cursors of all logs apart.\<close>

definition scene_ok :: "('r, 'c, 'b) scene \<Rightarrow> bool" where
  "scene_ok sc \<longleftrightarrow> CHR ''/'' \<notin> set (lc_source_name (sc_config sc)) \<and>
     inj_on (\<lambda>(stream, n). lake_digest (sc_sha256 sc) (sc_cur sc stream n))
       {(stream, n). stream \<in> sc_streams sc \<and> n \<le> log_length sc stream}"

text \<open>\<open>P\<close> gives for each stream the position it has committed; its batches before are done.\<close>

definition done_keys :: "('r, 'c, 'b) scene \<Rightarrow> (string \<Rightarrow> nat) \<Rightarrow> string set" where
  "done_keys sc P = {sc_cur sc stream n | stream n. stream \<in> sc_streams sc \<and> n < P stream}"

definition safe :: "('r, 'c, 'b) scene \<Rightarrow> (string \<Rightarrow> nat) \<Rightarrow> 'b standing \<Rightarrow> string \<Rightarrow> bool" where
  "safe sc P s u \<longleftrightarrow> (\<exists>key \<in> done_keys sc P. held_at sc s key u)"

definition cursor_at :: "('r, 'c, 'b) scene \<Rightarrow> (string \<Rightarrow> nat) \<Rightarrow> 'b standing \<Rightarrow> string \<Rightarrow> bool" where
  "cursor_at sc P s stream \<longleftrightarrow>
     (case sq_get_cursor (st_db s) stream of
        None \<Rightarrow> P stream = (if sq_has_committed (st_db s) stream then log_length sc stream else 0)
      | Some c \<Rightarrow> c = sc_cur sc stream (P stream))"

definition passed :: "('r, 'c, 'b) scene \<Rightarrow> (string \<Rightarrow> nat) \<Rightarrow> 'b standing \<Rightarrow> string \<Rightarrow> nat \<Rightarrow> string set \<Rightarrow> bool" where
  "passed sc P s stream i U \<longleftrightarrow> (\<exists>e. log_event sc stream i = Inr e \<and> (safe sc P s (ev_uid e) \<or> ev_uid e \<in> U))"

text \<open>
  The invariant between runs: the store stands at \<open>P\<close>, and what lies before and what the seen-set
  holds is in objects of batches that are done, which no later flush overwrites.
\<close>

definition committed_ok :: "('r, 'c, 'b) scene \<Rightarrow> (string \<Rightarrow> nat) \<Rightarrow> 'b standing \<Rightarrow> bool" where
  "committed_ok sc P s \<longleftrightarrow> scene_ok sc \<and> sq_invar (st_db s) \<and>
     (\<forall>u. sq_expiry (st_db s) u \<noteq> None \<longrightarrow> safe sc P s u) \<and>
     (\<forall>stream \<in> sc_streams sc. P stream \<le> log_length sc stream \<and> cursor_at sc P s stream \<and>
        (\<forall>i < P stream. passed sc P s stream i {}))"

text \<open>
  The invariant of a run whose open batch began at \<open>P stream\<close> and has reached \<open>p\<close>: every event
  between is buffered, or was dropped because its uid is safe.
\<close>

definition batch_ok ::
  "('r, 'c, 'b) scene \<Rightarrow> string \<Rightarrow> (string \<Rightarrow> nat) \<Rightarrow> nat \<Rightarrow> locals \<Rightarrow> 'b standing \<Rightarrow> bool" where
  "batch_ok sc stream P p l s \<longleftrightarrow> committed_ok sc P s \<and> stream \<in> sc_streams sc \<and> l_batch_key l = sc_cur sc stream (P stream) \<and>
     P stream \<le> p \<and> p \<le> log_length sc stream \<and> l_pending l = map ev_uid (st_buffer s) \<and>
     set (st_buffer s) \<subseteq> logged sc \<and> (st_buffer s \<noteq> [] \<longrightarrow> P stream < p) \<and>
     (\<forall>i. P stream \<le> i \<and> i < p \<longrightarrow> passed sc P s stream i (set (l_pending l)))"

text \<open>Between the flush and the commit: with the batch's end committed, all before it is safe.\<close>

definition flushed_ok ::
  "('r, 'c, 'b) scene \<Rightarrow> string \<Rightarrow> (string \<Rightarrow> nat) \<Rightarrow> nat \<Rightarrow> string list \<Rightarrow> 'b standing \<Rightarrow> bool" where
  "flushed_ok sc stream P q us s \<longleftrightarrow> committed_ok sc P s \<and> stream \<in> sc_streams sc \<and> st_buffer s = [] \<and>
     P stream \<le> q \<and> q \<le> log_length sc stream \<and>
     (\<forall>i < q. passed sc (P(stream := q)) s stream i {}) \<and> (\<forall>u \<in> set us. safe sc (P(stream := q)) s u)"

definition any_committed :: "('r, 'c, 'b) scene \<Rightarrow> 'b standing \<Rightarrow> bool" where
  "any_committed sc s \<longleftrightarrow> (\<exists>P. committed_ok sc P s)"

definition page_between :: "('r, 'c, 'b) scene \<Rightarrow> string \<Rightarrow> nat \<Rightarrow> nat \<Rightarrow> 'r page \<Rightarrow> bool" where
  "page_between sc stream p q page \<longleftrightarrow> p \<le> q \<and> q \<le> log_length sc stream \<and>
     pg_records page = take (q - p) (drop p (sc_log sc stream)) \<and>
     (pg_next_cursor page = Some (sc_cur sc stream q) \<or> pg_next_cursor page = None \<and> q = log_length sc stream)"

lemma scene_slash: "scene_ok sc \<Longrightarrow> CHR ''/'' \<notin> set (lc_source_name (sc_config sc))"
  by (simp add: scene_ok_def)

lemma digest_inj:
  assumes "scene_ok sc" and "s \<in> sc_streams sc" "t \<in> sc_streams sc" "m \<le> log_length sc s" "n \<le> log_length sc t"
    and "lake_digest (sc_sha256 sc) (sc_cur sc s m) = lake_digest (sc_sha256 sc) (sc_cur sc t n)"
  shows "s = t \<and> m = n"
proof -
  have "inj_on (\<lambda>(stream, n). lake_digest (sc_sha256 sc) (sc_cur sc stream n))
       {(stream, n). stream \<in> sc_streams sc \<and> n \<le> log_length sc stream}"
    using assms(1) by (simp add: scene_ok_def)
  from inj_onD [OF this, of "(s, m)" "(t, n)"] assms(2-) show ?thesis by simp
qed

subsection \<open>What the invariants depend on\<close>

lemma held_atI:
  assumes "bucket_place (sc_place sc) (sc_config sc) (lake_digest (sc_sha256 sc) key) k = Some p"
    and "length (snd k) = 8" and "st_objects s p = Some body" and "parquet_bytes (sc_arrow sc) es = Inr body"
    and "e \<in> set es" and "e \<in> logged sc" and "ev_uid e = u"
  shows "held_at sc s key u"
  unfolding held_at_def using assms by blast

lemma safe_mono: "safe sc P s u \<Longrightarrow> (\<And>t. P t \<le> Q t) \<Longrightarrow> safe sc Q s u"
  by (force simp: safe_def done_keys_def intro: less_le_trans)

lemma safe_upd: "safe sc P s u \<Longrightarrow> P stream \<le> q \<Longrightarrow> safe sc (P(stream := q)) s u"
  by (erule safe_mono) simp

lemma safe_delivered: "safe sc P s u \<Longrightarrow> delivered sc s u"
  by (auto simp: safe_def held_at_def delivered_def stored_def)

lemma passed_mono:
  "passed sc P s stream i U \<Longrightarrow> (\<And>u. safe sc P s u \<Longrightarrow> safe sc Q t u) \<Longrightarrow> U \<subseteq> V \<Longrightarrow> passed sc Q t stream i V"
  unfolding passed_def by blast

lemma safe_frame: "st_objects t = st_objects s \<Longrightarrow> safe sc P t = safe sc P s"
  by (simp add: safe_def held_at_def fun_eq_iff)

lemma passed_frame: "st_objects t = st_objects s \<Longrightarrow> passed sc P t = passed sc P s"
  by (simp add: passed_def safe_frame [of t s] fun_eq_iff)

lemma frame_simps [simp]:
  "safe sc P (s\<lparr>st_db := db\<rparr>) = safe sc P s" "safe sc P (s\<lparr>st_buffer := b\<rparr>) = safe sc P s"
  "passed sc P (s\<lparr>st_db := db\<rparr>) = passed sc P s" "passed sc P (s\<lparr>st_buffer := b\<rparr>) = passed sc P s"
  by (rule safe_frame passed_frame, simp)+

lemma cursor_at_frame [simp]:
  "cursor_at sc P (s\<lparr>st_buffer := b\<rparr>) = cursor_at sc P s" "cursor_at sc P (s\<lparr>st_objects := ob\<rparr>) = cursor_at sc P s"
  by (simp_all add: cursor_at_def fun_eq_iff)

lemma committed_buffer [simp]: "committed_ok sc P (s\<lparr>st_buffer := b\<rparr>) = committed_ok sc P s"
  by (simp add: committed_ok_def)

lemma batch_committed: "batch_ok sc stream P p l s \<Longrightarrow> committed_ok sc P s"
  by (simp add: batch_ok_def)

lemma committed_invar: "committed_ok sc P s \<Longrightarrow> sq_invar (st_db s)"
  by (simp add: committed_ok_def)

lemma committed_any: "committed_ok sc P s \<Longrightarrow> any_committed sc s"
  by (auto simp: any_committed_def)

lemma batch_any: "batch_ok sc stream P p l s \<Longrightarrow> any_committed sc s"
  by (blast intro: committed_any batch_committed)

text \<open>A change of the file that keeps every cursor and adds no uid.\<close>

definition same_cursors :: "sqlite_store \<Rightarrow> sqlite_store \<Rightarrow> bool" where
  "same_cursors db db' \<longleftrightarrow> sq_get_cursor db' = sq_get_cursor db \<and> sq_has_committed db' = sq_has_committed db \<and>
     (\<forall>u. sq_expiry db' u \<noteq> None \<longrightarrow> sq_expiry db u \<noteq> None)"

lemma committed_db:
  assumes "committed_ok sc P s" and "sq_invar db" and "same_cursors (st_db s) db"
  shows "committed_ok sc P (s\<lparr>st_db := db\<rparr>)"
proof -
  have "cursor_at sc P (s\<lparr>st_db := db\<rparr>) t = cursor_at sc P s t" for t
    using assms(3) by (simp add: same_cursors_def cursor_at_def)
  with assms show ?thesis unfolding committed_ok_def same_cursors_def by auto
qed

lemma batch_db:
  assumes "batch_ok sc stream P p l s" and "sq_invar db" and "same_cursors (st_db s) db"
  shows "batch_ok sc stream P p l (s\<lparr>st_db := db\<rparr>)"
proof -
  have "committed_ok sc P (s\<lparr>st_db := db\<rparr>)"
    using batch_committed [OF assms(1)] assms(2,3) by (rule committed_db)
  with assms(1) show ?thesis by (auto simp: batch_ok_def)
qed

lemma batch_locals:
  assumes "l_batch_key l' = l_batch_key l" and "l_pending l' = l_pending l"
  shows "batch_ok sc stream P p l' = batch_ok sc stream P p l"
  using assms by (simp add: batch_ok_def fun_eq_iff)

subsection \<open>The calls of a run\<close>

text \<open>A call that leaves the standing alone; what a call that returns has answered; and a call
  whose effect is one of the given changes of the file. A call that raised has had its effect or
  none.\<close>

definition quiet :: "('w \<Rightarrow> 'b standing) \<Rightarrow> ('a, 'w) io \<Rightarrow> bool" where
  "quiet look m \<longleftrightarrow> (\<forall>w. look (snd (m w)) = look w)"

definition answers :: "('w \<Rightarrow> 'b standing) \<Rightarrow> ('a, 'w) io \<Rightarrow> ('a \<Rightarrow> 'b standing \<Rightarrow> bool) \<Rightarrow> bool" where
  "answers look m A \<longleftrightarrow> (\<forall>w x. fst (m w) = Inr x \<longrightarrow> A x (look w))"

definition changes :: "('w \<Rightarrow> 'b standing) \<Rightarrow> ('a, 'w) io \<Rightarrow> ('b standing \<Rightarrow> 'b standing) set \<Rightarrow> bool" where
  "changes look m F \<longleftrightarrow> (\<forall>w. sq_invar (st_db (look w)) \<longrightarrow>
     isl (fst (m w)) \<and> look (snd (m w)) = look w \<or> (\<exists>f \<in> F. look (snd (m w)) = f (look w)))"

text \<open>A call that flushes the sink, or raises with the sink left alone, or raises after the flush.\<close>

definition flushes ::
  "(string \<Rightarrow> string \<Rightarrow> 'b \<Rightarrow> (unit, 'o) io) \<Rightarrow> ('o \<Rightarrow> string \<Rightarrow> 'b option) \<Rightarrow> ('r, 'c, 'b) scene \<Rightarrow>
   ('w \<Rightarrow> 'b standing) \<Rightarrow> string \<Rightarrow> (unit, 'w) io \<Rightarrow> bool" where
  "flushes put contents sc look key m \<longleftrightarrow> (\<forall>w. isl (fst (m w)) \<and> look (snd (m w)) = look w \<or>
     (\<exists>lk r lk'. lake_flush put (sc_arrow sc) (sc_sha256 sc) (sc_config sc) key lk = (r, lk') \<and>
        (fst (m w) = r \<or> isl (fst (m w))) \<and>
        st_objects (look w) = contents (lk_store lk) \<and> st_buffer (look w) = lk_buffer lk \<and>
        look (snd (m w)) = (look w)\<lparr>st_objects := contents (lk_store lk'), st_buffer := lk_buffer lk'\<rparr>))"

lemma triple_quiet:
  assumes "quiet look m"
  shows "triple (\<lambda>w. P (look w)) m (\<lambda>_ w. P (look w)) (\<lambda>_ w. P (look w))"
  using assms by (intro tripleI) (simp_all add: quiet_def, (metis snd_conv)+)

lemma triple_answers:
  assumes "quiet look m" and "answers look m A"
  shows "triple (\<lambda>w. P (look w)) m (\<lambda>x w. P (look w) \<and> A x (look w)) (\<lambda>_ w. P (look w))"
  using assms by (intro tripleI) (simp_all add: quiet_def answers_def, (metis fst_conv snd_conv)+)

lemma triple_changes:
  assumes "changes look m F" and "\<And>s. P s \<Longrightarrow> sq_invar (st_db s)" and "\<And>s f. P s \<Longrightarrow> f \<in> F \<Longrightarrow> Q (f s)"
    and "\<And>s. P s \<Longrightarrow> R s" and "\<And>s. Q s \<Longrightarrow> R s"
  shows "triple (\<lambda>w. P (look w)) m (\<lambda>_ w. Q (look w)) (\<lambda>_ w. R (look w))"
proof (rule tripleI)
  fix w x w' assume "P (look w)" and "m w = (Inr x, w')"
  with assms(1) [unfolded changes_def, rule_format, of w] assms(2,3) show "Q (look w')" by auto
next
  fix w e w' assume "P (look w)" and "m w = (Inl e, w')"
  with assms(1) [unfolded changes_def, rule_format, of w] assms(2-5) show "R (look w')" by auto
qed

text \<open>The changes of the file that are not commits.\<close>

lemma record_same:
  assumes "sq_invar db"
  shows "sq_invar (sq_record_published db t ms)" and "same_cursors db (sq_record_published db t ms)"
  using published_keeps [OF assms] sql.published_frame [OF assms]
  by (auto simp: same_cursors_def fun_eq_iff sq_has_committed_def sq_record_published_def db_apply_def split: option.split)

lemma mark_same:
  assumes "sq_invar db"
  shows "sq_invar (sq_mark_caught_up db now t)" and "same_cursors db (sq_mark_caught_up db now t)"
  using mark_keeps [OF assms] sql.mark_frame [OF assms]
  by (auto simp: same_cursors_def fun_eq_iff sq_has_committed_def sq_mark_caught_up_def db_apply_def split: option.split)

lemma purge_same:
  assumes "sq_invar db"
  shows "sq_invar (snd (sq_purge_expired db now))" and "same_cursors db (snd (sq_purge_expired db now))"
  using purge_keeps [OF assms] sql.purge_frame [OF assms] sql.purge_expiry [OF assms, of now]
  by (auto simp: same_cursors_def fun_eq_iff sq_has_committed_def sq_purge_expired_def db_apply_def split: option.splits if_splits)

text \<open>A process that opens the file finds what was there.\<close>

lemma open_same:
  assumes "sq_invar db"
  shows "sq_invar (sq_open ttl (sq_disk db))" and "same_cursors db (sq_open ttl (sq_disk db))"
proof -
  have "sq_open ttl (sq_disk db) = db\<lparr>sq_ttl := ttl\<rparr>"
    using assms by (simp add: sq_open_def sq_migrate_def sq_invar_def)
  then show "sq_invar (sq_open ttl (sq_disk db))" and "same_cursors db (sq_open ttl (sq_disk db))"
    using assms
    by (simp_all add: same_cursors_def fun_eq_iff sq_invar_def sq_get_cursor_def sq_has_committed_def sq_expiry_def
        sq_view_def split: option.split)
qed

lemma reopened_committed:
  assumes "any_committed sc s" and "t = s\<lparr>st_db := sq_open ttl (sq_disk (st_db s)), st_buffer := []\<rparr>"
  shows "any_committed sc t" and "finished t = finished s"
proof -
  obtain P where P: "committed_ok sc P s" using assms(1) by (auto simp: any_committed_def)
  note same = open_same [OF committed_invar [OF P], of ttl]
  have "committed_ok sc P (s\<lparr>st_db := sq_open ttl (sq_disk (st_db s))\<rparr>)"
    using P same by (intro committed_db) simp_all
  then show "any_committed sc t" by (auto simp: any_committed_def assms(2))
  show "finished t = finished s"
    using same by (simp add: assms(2) finished_def same_cursors_def fun_eq_iff)
qed

text \<open>A file without rows, whatever objects there are.\<close>

lemma empty_committed:
  assumes "scene_ok sc" and "st_db s = sq_open ttl empty_db"
  shows "any_committed sc s"
proof -
  have "sq_invar (sq_open ttl empty_db)" by (rule open_invar) (simp_all add: empty_db_def)
  moreover have "sq_get_cursor (sq_open ttl empty_db) = (\<lambda>_. None)" "sq_expiry (sq_open ttl empty_db) = (\<lambda>_. None)"
    "sq_has_committed (sq_open ttl empty_db) = (\<lambda>_. False)"
    by (auto simp: fun_eq_iff sq_get_cursor_def sq_expiry_def sq_has_committed_def sq_view_def sq_open_def sq_migrate_def
        empty_db_def select_committed_def)
  ultimately have "committed_ok sc (\<lambda>_. 0) s"
    using assms by (simp add: committed_ok_def cursor_at_def)
  then show ?thesis by (rule committed_any)
qed

text \<open>What a commit needs and what it leaves.\<close>

definition committed_empty :: "('r, 'c, 'b) scene \<Rightarrow> string \<Rightarrow> string option \<Rightarrow> nat \<Rightarrow> 'b standing \<Rightarrow> bool" where
  "committed_empty sc stream c q s \<longleftrightarrow>
     (\<exists>P. committed_ok sc P s \<and> P stream = q) \<and> stream \<in> sc_streams sc \<and> st_buffer s = [] \<and> (c = None \<longrightarrow> finished s stream)"

lemma commit_keeps_committed:
  assumes F: "flushed_ok sc stream P q us s"
    and c: "c = Some (sc_cur sc stream q) \<or> c = None \<and> q = log_length sc stream"
  shows "committed_empty sc stream c q (s\<lparr>st_db := sq_commit (st_db s) now stream c us v\<rparr>)"
proof -
  let ?P = "P(stream := q)" and ?db = "sq_commit (st_db s) now stream c us v"
  have C: "committed_ok sc P s" and q: "P stream \<le> q" "q \<le> log_length sc stream"
    using F by (auto simp: flushed_ok_def)
  then have I: "sq_invar (st_db s)" by (simp add: committed_ok_def)
  have up: "safe sc ?P s u" if "safe sc P s u" for u using that q(1) by (rule safe_upd)
  have seen: "safe sc ?P s u" if u: "sq_expiry ?db u \<noteq> None" for u
  proof (cases "u \<in> set us")
    case True
    with F show ?thesis by (simp add: flushed_ok_def)
  next
    case False
    with u have "sq_expiry (st_db s) u \<noteq> None" by (simp add: sql.commit_expiry [OF I])
    then have "safe sc P s u" using C by (auto simp: committed_ok_def)
    then show ?thesis by (rule up)
  qed
  have each: "?P t \<le> log_length sc t \<and> cursor_at sc ?P (s\<lparr>st_db := ?db\<rparr>) t \<and> (\<forall>i < ?P t. passed sc ?P s t i {})"
    if t: "t \<in> sc_streams sc" for t
  proof (cases "t = stream")
    case True
    have "cursor_at sc ?P (s\<lparr>st_db := ?db\<rparr>) stream"
      using c by (auto simp: cursor_at_def sql.commit_cursor [OF I] sqlo.commit_has [OF I])
    with True F show ?thesis by (simp add: flushed_ok_def)
  next
    case False
    have old: "P t \<le> log_length sc t" "cursor_at sc P s t" "\<forall>i < P t. passed sc P s t i {}"
      using C t by (simp_all add: committed_ok_def)
    have "cursor_at sc ?P (s\<lparr>st_db := ?db\<rparr>) t"
      using old(2) False
      by (simp add: cursor_at_def sql.commit_cursor [OF I] sqlo.commit_has [OF I] split: option.splits)
    with old False passed_mono [OF _ up] show ?thesis by auto
  qed
  have "committed_ok sc ?P (s\<lparr>st_db := ?db\<rparr>)"
    using C seen each commit_keeps [OF I] by (simp add: committed_ok_def)
  moreover have "finished (s\<lparr>st_db := ?db\<rparr>) stream" if "c = None"
    using that by (simp add: finished_def sql.commit_cursor [OF I] sqlo.commit_has [OF I])
  ultimately show ?thesis using F by (auto simp: committed_empty_def flushed_ok_def intro!: exI [of _ ?P])
qed

definition loop_ok :: "('r, 'c, 'b) scene \<Rightarrow> string \<Rightarrow> locals \<Rightarrow> 'b standing \<Rightarrow> bool" where
  "loop_ok sc stream l s \<longleftrightarrow>
     (\<exists>P p. batch_ok sc stream P p l s \<and> l_cursor l = sc_cur sc stream p) \<and> \<not> l_exhausted l"

text \<open>When a run ends: if it is exhausted, its stream is finished.\<close>

definition ended_ok :: "('r, 'c, 'b) scene \<Rightarrow> string \<Rightarrow> bool \<Rightarrow> 'b standing \<Rightarrow> bool" where
  "ended_ok sc stream exhausted s \<longleftrightarrow> any_committed sc s \<and> (exhausted \<longrightarrow> finished s stream)"

lemma committed_empty_any: "committed_empty sc stream c q s \<Longrightarrow> any_committed sc s"
  by (auto simp: committed_empty_def any_committed_def)

lemma committed_empty_batch:
  assumes "committed_empty sc stream c q s" and "l_batch_key l = sc_cur sc stream q" and "l_pending l = []"
  shows "\<exists>P. batch_ok sc stream P q l s"
proof -
  obtain P where P: "committed_ok sc P s" "P stream = q" "st_buffer s = []"
    using assms(1) by (auto simp: committed_empty_def)
  moreover have "q \<le> log_length sc stream" using P assms(1) by (auto simp: committed_ok_def committed_empty_def)
  ultimately show ?thesis using assms by (intro exI [of _ P]) (auto simp: batch_ok_def committed_empty_def)
qed

text \<open>The promises, one for each call.\<close>

locale connector = object_store put contents "sc_place sc"
  for put :: "string \<Rightarrow> string \<Rightarrow> 'b \<Rightarrow> (unit, 'o) io" and contents :: "'o \<Rightarrow> string \<Rightarrow> 'b option"
    and sc :: "('r, 'c, 'b) scene" +
  fixes look :: "'w \<Rightarrow> 'b standing" and stream :: string and d :: "('r, 'w) deps"
  assumes cursor_quiet: "quiet look (d_get_cursor d)"
    and cursor_law: "answers look (d_get_cursor d) (\<lambda>c s. c = sq_get_cursor (st_db s) stream)"
    and start_quiet: "quiet look (d_start d)"
    and start_law: "answers look (d_start d) (\<lambda>c s. c = sc_cur sc stream 0)"
    and clock_quiet: "quiet look (d_clock d)"
    and poll_quiet: "d_stop_signal d = Some poll \<Longrightarrow> quiet look poll"
    and fetch_quiet: "quiet look (d_fetch d c)"
    and fetch_law: "scene_ok sc \<Longrightarrow> stream \<in> sc_streams sc \<Longrightarrow> p \<le> log_length sc stream \<Longrightarrow>
      answers look (d_fetch d (sc_cur sc stream p)) (\<lambda>page s. \<exists>q. page_between sc stream p q page)"
    and map_quiet: "quiet look (d_map d r)"
    and map_law: "answers look (d_map d r) (\<lambda>e s. sc_event sc r = Inr e)"
    and unseen_quiet: "quiet look (d_filter_unseen d us)"
    and unseen_law: "answers look (d_filter_unseen d us) (\<lambda>vs s. \<exists>now. vs = sq_filter_unseen (st_db s) now us)"
    and published_law: "changes look (d_record_published d ms)
      {\<lambda>s. s\<lparr>st_db := sq_record_published (st_db s) stream ms\<rparr>}"
    and write_law: "changes look (d_write d es) {\<lambda>s. s\<lparr>st_buffer := st_buffer s @ es\<rparr>}"
    and should_quiet: "quiet look (d_should_flush d)"
    and should_law: "answers look (d_should_flush d) (\<lambda>b s. b \<longrightarrow> st_buffer s \<noteq> [])"
    and flush_law: "flushes put contents sc look key (d_flush d key)"
    and commit_law: "changes look (d_commit d next_cursor us)
      {\<lambda>s. s\<lparr>st_db := sq_commit (st_db s) now stream next_cursor us v\<rparr> | now v. True}"
    and mark_law: "changes look (d_mark_caught_up d)
      {\<lambda>s. s\<lparr>st_db := sq_mark_caught_up (st_db s) now stream\<rparr> | now. True}"
    and purge_law: "changes look (d_purge_expired d)
      {\<lambda>s. s\<lparr>st_db := snd (sq_purge_expired (st_db s) now)\<rparr> | now. True}"
    and progress_quiet: "d_on_progress d = Some report \<Longrightarrow> quiet look (report stats)"
    and idle_quiet: "d_on_idle d = Some idle \<Longrightarrow> quiet look idle"
    and metric_quiet: "look (d_metric d m w) = look w"
begin

text \<open>An invariant of the standing, as a condition on the world.\<close>

abbreviation here :: "('b standing \<Rightarrow> bool) \<Rightarrow> 'w \<Rightarrow> bool" where
  "here I w \<equiv> I (look w)"

lemma clock_triple: "triple (here I) (d_clock d) (\<lambda>_. here I) (\<lambda>_. here I)"
  by (rule triple_quiet [OF clock_quiet])

lemma into_any:
  assumes "triple (here I) m Q (\<lambda>_. here I)" and "\<And>s. I s \<Longrightarrow> any_committed sc s"
  shows "triple (here I) m Q (\<lambda>_. here (any_committed sc))"
  using assms by (auto intro: triple_weaken)

lemma metric_triple: "triple (here I) (io_modify (d_metric d m)) (\<lambda>_. here I) (\<lambda>_. here I)"
  by (rule triple_modify) (simp add: metric_quiet)

end

subsection \<open>Flush, then commit\<close>

context connector begin

text \<open>A flush of the open batch leaves the objects of the batches that are done alone.\<close>

lemma flush_keeps_safe:
  assumes C: "committed_ok sc P s" and stream: "stream \<in> sc_streams sc"
    and flush: "lake_flush put (sc_arrow sc) (sc_sha256 sc) (sc_config sc) (sc_cur sc stream (P stream)) lk = (r, lk')"
    and ob: "st_objects s = contents (lk_store lk)" "st_objects s' = contents (lk_store lk')"
    and safe: "safe sc P s u"
  shows "safe sc P s' u"
proof -
  let ?dg = "\<lambda>key. lake_digest (sc_sha256 sc) key" and ?key = "sc_cur sc stream (P stream)"
  have scene: "scene_ok sc" and P: "\<And>t. t \<in> sc_streams sc \<Longrightarrow> P t \<le> log_length sc t"
    using C by (auto simp: committed_ok_def)
  note slash = scene_slash [OF scene]
  let ?place = "bucket_place (sc_place sc) (sc_config sc)"
  obtain key where key: "key \<in> done_keys sc P" "held_at sc s key u" using safe by (auto simp: safe_def)
  obtain t n where tn: "key = sc_cur sc t n" "t \<in> sc_streams sc" "n < P t" using key(1) by (auto simp: done_keys_def)
  obtain k p body es e where held: "?place (?dg key) k = Some p" "length (snd k) = 8"
      "st_objects s p = Some body" "parquet_bytes (sc_arrow sc) es = Inr body" "e \<in> set es" "e \<in> logged sc" "ev_uid e = u"
    using key(2) by (auto simp: held_at_def)
  have "batch_objects (sc_place sc) (sc_arrow sc) (sc_config sc) (?dg ?key) (lk_buffer lk) p = None"
  proof (rule ccontr)
    assume "batch_objects (sc_place sc) (sc_arrow sc) (sc_config sc) (?dg ?key) (lk_buffer lk) p \<noteq> None"
    then obtain b where "batch_objects (sc_place sc) (sc_arrow sc) (sc_config sc) (?dg ?key) (lk_buffer lk) p = Some b"
      by blast
    then obtain bs k' xs where k': "bucket (lk_buffer lk) = Inr bs" "(k', xs) \<in> set bs" "?place (?dg ?key) k' = Some p"
      by (rule batch_objects_SomeD)
    have "length (snd k) = length (snd k')" using bucket_days [OF k'(1,2)] held(2) by simp
    then have "?dg key = ?dg ?key" using bucket_place_inj [OF held(1) k'(3) slash] by blast
    moreover have "n \<le> log_length sc t" using tn P [OF tn(2)] by linarith
    ultimately have "t = stream \<and> n = P stream"
      using digest_inj [OF scene tn(2) stream _ P [OF stream]] unfolding tn(1) by blast
    then show False using tn(3) by simp
  qed
  then have "st_objects s' p = st_objects s p"
    using lake_flush_spec(3) [OF flush slash, of p] ob by auto
  with held have "held_at sc s' key u" by (intro held_atI) auto
  with key(1) show ?thesis by (auto simp: safe_def)
qed

lemma flush_keeps_committed:
  assumes C: "committed_ok sc P s" and stream: "stream \<in> sc_streams sc"
    and flush: "lake_flush put (sc_arrow sc) (sc_sha256 sc) (sc_config sc) (sc_cur sc stream (P stream)) lk = (r, lk')"
    and ob: "st_objects s = contents (lk_store lk)"
    and s': "s' = s\<lparr>st_objects := contents (lk_store lk'), st_buffer := b\<rparr>"
  shows "committed_ok sc P s'"
proof -
  have ob': "st_objects s' = contents (lk_store lk')" by (simp add: s')
  have keep: "safe sc P s' u" if "safe sc P s u" for u
    by (rule flush_keeps_safe [OF C stream flush ob ob' that])
  have "passed sc P s' t i {}" if "passed sc P s t i {}" for t i
    by (rule passed_mono [OF that keep]) simp_all
  moreover have "cursor_at sc P s' t = cursor_at sc P s t" "st_db s' = st_db s" for t
    by (simp_all add: s' cursor_at_def)
  ultimately show ?thesis using C keep unfolding committed_ok_def by metis
qed

lemma flush_delivers:
  assumes scene: "scene_ok sc" and stream: "stream \<in> sc_streams sc"
    and flush: "lake_flush put (sc_arrow sc) (sc_sha256 sc) (sc_config sc) (sc_cur sc stream n) lk = (Inr u, lk')"
    and ob: "st_objects s' = contents (lk_store lk')" and logged: "set (lk_buffer lk) \<subseteq> logged sc"
    and uid: "v \<in> ev_uid ` set (lk_buffer lk)" and n: "n < Q stream"
  shows "safe sc Q s' v"
proof -
  obtain e where e: "e \<in> set (lk_buffer lk)" "ev_uid e = v" using uid by blast
  from flushed_event [OF flush scene_slash [OF scene] e(1)] obtain k p body where k: "bucket_key e = Some k"
    and held: "bucket_place (sc_place sc) (sc_config sc) (lake_digest (sc_sha256 sc) (sc_cur sc stream n)) k = Some p"
      "parquet_bytes (sc_arrow sc) (filter (\<lambda>x. bucket_key x = Some k) (lk_buffer lk)) = Inr body"
      "contents (lk_store lk') p = Some body" by blast
  have "e \<in> set (filter (\<lambda>x. bucket_key x = Some k) (lk_buffer lk))" "e \<in> logged sc"
    using e k logged by auto
  with held bucket_key_length [OF k] ob e(2) have "held_at sc s' (sc_cur sc stream n) v"
    by (intro held_atI) auto
  with n stream show ?thesis unfolding safe_def done_keys_def by blast
qed

lemma flush_triple:
  assumes key: "l_batch_key l = sc_cur sc stream (P stream)"
  shows "triple (here (batch_ok sc stream P q l)) (d_flush d (l_batch_key l))
    (\<lambda>_. here (flushed_ok sc stream P q (l_pending l))) (\<lambda>_. here (any_committed sc))"
proof (rule tripleI)
  fix w x w' assume B: "here (batch_ok sc stream P q l) w" and run: "d_flush d (l_batch_key l) w = (Inr x, w')"
  obtain lk lk' where flush: "lake_flush put (sc_arrow sc) (sc_sha256 sc) (sc_config sc) (sc_cur sc stream (P stream)) lk = (Inr x, lk')"
    and ob: "st_objects (look w) = contents (lk_store lk)" and buf: "st_buffer (look w) = lk_buffer lk"
    and w': "look w' = (look w)\<lparr>st_objects := contents (lk_store lk'), st_buffer := lk_buffer lk'\<rparr>"
    using flush_law [unfolded flushes_def, rule_format, of "l_batch_key l" w] run key by auto
  let ?s = "look w" and ?s' = "look w'" and ?Q = "P(stream := q)"
  have C: "committed_ok sc P ?s" and stream: "stream \<in> sc_streams sc"
    and q: "P stream \<le> q" "q \<le> log_length sc stream" and pending: "l_pending l = map ev_uid (lk_buffer lk)" and logged: "set (lk_buffer lk) \<subseteq> logged sc"
    and lt: "lk_buffer lk \<noteq> [] \<Longrightarrow> P stream < q"
    and cover: "\<And>i. P stream \<le> i \<Longrightarrow> i < q \<Longrightarrow> passed sc P ?s stream i (set (l_pending l))"
    using B by (auto simp: batch_ok_def buf)
  have scene: "scene_ok sc" using C by (simp add: committed_ok_def)
  have C': "committed_ok sc P ?s'" by (rule flush_keeps_committed [OF C stream flush ob w'])
  have ob': "st_objects ?s' = contents (lk_store lk')" by (simp add: w')
  have old: "safe sc ?Q ?s' u" if "safe sc P ?s u" for u
    by (rule safe_upd [OF flush_keeps_safe [OF C stream flush ob ob' that] q(1)])
  have new: "safe sc ?Q ?s' u" if u: "u \<in> set (l_pending l)" for u
  proof -
    have "lk_buffer lk \<noteq> []" using u pending by auto
    then show ?thesis
      using u pending lt by (intro flush_delivers [OF scene stream flush ob' logged]) auto
  qed
  have "passed sc ?Q ?s' stream i {}" if "i < q" for i
  proof (cases "i < P stream")
    case True
    then have "passed sc P ?s stream i {}" using C stream by (simp add: committed_ok_def)
    then show ?thesis by (rule passed_mono [OF _ old]) simp_all
  next
    case False
    with cover [of i] that old new show ?thesis by (auto simp: passed_def)
  qed
  moreover have "st_buffer ?s' = []" using lake_flush_spec(1) [OF flush scene_slash [OF scene]] by (simp add: w')
  ultimately show "here (flushed_ok sc stream P q (l_pending l)) w'"
    using C' stream q new by (simp add: flushed_ok_def)
next
  fix w e w' assume B: "here (batch_ok sc stream P q l) w" and run: "d_flush d (l_batch_key l) w = (Inl e, w')"
  have C: "committed_ok sc P (look w)" and stream: "stream \<in> sc_streams sc" using B by (simp_all add: batch_ok_def)
  from flush_law [unfolded flushes_def, rule_format, of "l_batch_key l" w] run consider "look w' = look w"
    | lk r lk' where "lake_flush put (sc_arrow sc) (sc_sha256 sc) (sc_config sc) (sc_cur sc stream (P stream)) lk = (r, lk')"
      "st_objects (look w) = contents (lk_store lk)"
      "look w' = (look w)\<lparr>st_objects := contents (lk_store lk'), st_buffer := lk_buffer lk'\<rparr>"
    unfolding key by auto
  then have "committed_ok sc P (look w')"
    by cases (use C flush_keeps_committed [OF C stream] in auto)
  then show "here (any_committed sc) w'" by (rule committed_any)
qed

lemma commit_triple:
  assumes "c = Some (sc_cur sc stream q) \<or> c = None \<and> q = log_length sc stream"
  shows "triple (here (flushed_ok sc stream P q us)) (d_commit d c us)
    (\<lambda>_. here (committed_empty sc stream c q)) (\<lambda>_. here (any_committed sc))"
  by (rule triple_changes [OF commit_law])
     (auto simp: commit_keeps_committed [OF _ assms] flushed_ok_def
       intro: committed_any committed_invar committed_empty_any)

lemma purge_triple:
  "triple (here (committed_empty sc stream c q)) (d_purge_expired d)
    (\<lambda>_. here (committed_empty sc stream c q)) (\<lambda>_. here (any_committed sc))"
proof (rule triple_changes [OF purge_law])
  fix s :: "'b standing" and f :: "'b standing \<Rightarrow> 'b standing" assume s: "committed_empty sc stream c q s"
    and "f \<in> {\<lambda>s. s\<lparr>st_db := snd (sq_purge_expired (st_db s) now)\<rparr> | now. True}"
  then obtain now where f: "f s = s\<lparr>st_db := snd (sq_purge_expired (st_db s) now)\<rparr>" by blast
  from s obtain P where P: "committed_ok sc P s" "P stream = q" by (auto simp: committed_empty_def)
  note same = purge_same [OF committed_invar [OF P(1)], of now]
  have "finished (f s) stream = finished s stream" using same by (simp add: finished_def f same_cursors_def)
  with s P committed_db [OF P(1) same] show "committed_empty sc stream c q (f s)"
    by (auto simp: committed_empty_def f)
qed (auto simp: committed_empty_def intro: committed_invar committed_empty_any committed_any)

end

subsection \<open>A page\<close>

text \<open>Uids the store withholds are in its seen-set, hence safe.\<close>

definition dropped_safe ::
  "('r, 'c, 'b) scene \<Rightarrow> (string \<Rightarrow> nat) \<Rightarrow> ocsf_event list \<Rightarrow> string list \<Rightarrow> 'b standing \<Rightarrow> bool" where
  "dropped_safe sc P events us s \<longleftrightarrow> (\<forall>u \<in> ev_uid ` set events. u \<in> set us \<or> safe sc P s u)"

definition maps_to :: "('r, 'c, 'b) scene \<Rightarrow> 'r list \<Rightarrow> ocsf_event list \<Rightarrow> bool" where
  "maps_to sc rs es \<longleftrightarrow> list_all2 (\<lambda>r e. sc_event sc r = Inr e) rs es"

lemma page_event:
  assumes "page_between sc stream p q page" and "maps_to sc (pg_records page) es" and "p \<le> i" and "i < q"
  shows "\<exists>e \<in> set es. log_event sc stream i = Inr e"
proof -
  have rs: "pg_records page = take (q - p) (drop p (sc_log sc stream))" "q \<le> length (sc_log sc stream)"
    using assms(1) by (simp_all add: page_between_def log_length_def)
  then have i: "i - p < length (pg_records page)" "pg_records page ! (i - p) = sc_log sc stream ! i"
    using assms(3,4) by simp_all
  have "sc_event sc (pg_records page ! (i - p)) = Inr (es ! (i - p))" "i - p < length es"
    using assms(2) i(1) by (auto simp: maps_to_def list_all2_conv_all_nth)
  with i(2) show ?thesis by (auto simp: log_event_def intro!: bexI [of _ "es ! (i - p)"])
qed

lemma page_logged:
  assumes "page_between sc stream p q page" and "maps_to sc (pg_records page) es" and "stream \<in> sc_streams sc"
  shows "set es \<subseteq> logged sc"
proof
  fix e assume "e \<in> set es"
  then obtain j where j: "j < length es" "e = es ! j" by (auto simp: in_set_conv_nth)
  with assms(2) have "sc_event sc (pg_records page ! j) = Inr e" "j < length (pg_records page)"
    by (auto simp: maps_to_def list_all2_conv_all_nth)
  moreover have "set (pg_records page) \<subseteq> set (sc_log sc stream)"
    using assms(1) by (auto simp: page_between_def dest: in_set_takeD in_set_dropD)
  ultimately have "Inr e \<in> sc_event sc ` set (sc_log sc stream)"
    by (metis imageI nth_mem subsetD)
  with assms(3) show "e \<in> logged sc" by (auto simp: logged_def)
qed

lemma write_page:
  assumes B: "batch_ok sc stream P p l s" and page: "page_between sc stream p q page"
    and events: "maps_to sc (pg_records page) es" and D: "dropped_safe sc P es us s"
    and l1: "l_batch_key l1 = l_batch_key l" "l_pending l1 = l_pending l @ map ev_uid (take_unseen (set us) es)"
  shows "batch_ok sc stream P q l1 (s\<lparr>st_buffer := st_buffer s @ take_unseen (set us) es\<rparr>)"
proof -
  let ?fresh = "take_unseen (set us) es"
  have pq: "p \<le> q" "q \<le> log_length sc stream" using page by (simp_all add: page_between_def)
  have stream: "stream \<in> sc_streams sc" and B': "committed_ok sc P s" "l_batch_key l = sc_cur sc stream (P stream)" "P stream \<le> p"
      "l_pending l = map ev_uid (st_buffer s)" "set (st_buffer s) \<subseteq> logged sc" "st_buffer s \<noteq> [] \<Longrightarrow> P stream < p"
    and before: "\<And>i. P stream \<le> i \<Longrightarrow> i < p \<Longrightarrow> passed sc P s stream i (set (l_pending l))"
    using B by (auto simp: batch_ok_def)
  have cover: "passed sc P s stream i (set (l_pending l1))" if i: "P stream \<le> i" "i < q" for i
  proof (cases "i < p")
    case True
    from before [OF i(1) this] show ?thesis by (rule passed_mono) (simp_all add: l1)
  next
    case False
    then have "p \<le> i" by simp
    from page_event [OF page events this i(2)] obtain e where e: "e \<in> set es" "log_event sc stream i = Inr e" by blast
    then have "safe sc P s (ev_uid e) \<or> ev_uid e \<in> set us \<inter> ev_uid ` set es"
      using D by (auto simp: dropped_safe_def)
    with e(2) show ?thesis
      using set_take_unseen [of "set us" es] by (auto simp: passed_def l1)
  qed
  have lt: "P stream < q" if "st_buffer s @ ?fresh \<noteq> []"
  proof (cases "st_buffer s = []")
    case False
    with B'(6) pq show ?thesis by simp
  next
    case True
    with that have "es \<noteq> []" by auto
    then have "pg_records page \<noteq> []" using events by (auto simp: maps_to_def)
    then have "p \<noteq> q" using page by (auto simp: page_between_def)
    with B'(3) pq show ?thesis by simp
  qed
  have "set ?fresh \<subseteq> logged sc"
    using take_unseen_subset page_logged [OF page events stream] by fast
  with stream B' pq cover lt show ?thesis by (auto simp: batch_ok_def l1)
qed

context connector begin

lemma map_triple:
  "triple (here I) (io_map (d_map d) rs) (\<lambda>es w. here I w \<and> maps_to sc rs es) (\<lambda>_. here I)"
  unfolding maps_to_def by (rule triple_map) (rule triple_answers [OF map_quiet map_law])

lemma unseen_triple:
  "triple (here (batch_ok sc stream P p l)) (d_filter_unseen d (map ev_uid es))
    (\<lambda>us. here (\<lambda>s. batch_ok sc stream P p l s \<and> dropped_safe sc P es us s)) (\<lambda>_. here (any_committed sc))"
proof (rule triple_weaken [OF triple_answers [OF unseen_quiet unseen_law, where P = "batch_ok sc stream P p l"]])
  fix us w assume A: "here (batch_ok sc stream P p l) w \<and>
    (\<exists>now. us = sq_filter_unseen (st_db (look w)) now (map ev_uid es))"
  then obtain now where us: "us = sq_filter_unseen (st_db (look w)) now (map ev_uid es)" by blast
  have C: "committed_ok sc P (look w)" using A by (blast intro: batch_committed)
  have "safe sc P (look w) u" if "u \<in> ev_uid ` set es" "u \<notin> set us" for u
  proof -
    have "sq_expiry (st_db (look w)) u \<noteq> None"
      using that us sql.unseen_iff [OF committed_invar [OF C], of u now "map ev_uid es"] by auto
    with C show ?thesis by (auto simp: committed_ok_def)
  qed
  with A show "here (\<lambda>s. batch_ok sc stream P p l s \<and> dropped_safe sc P es us s) w"
    by (auto simp: dropped_safe_def)
qed (auto intro: batch_any)

lemma published_triple:
  "triple (here (\<lambda>s. batch_ok sc stream P p l s \<and> dropped_safe sc P es us s)) (published_phase d es)
    (\<lambda>_. here (\<lambda>s. batch_ok sc stream P p l s \<and> dropped_safe sc P es us s)) (\<lambda>_. here (any_committed sc))"
proof -
  let ?I = "\<lambda>s. batch_ok sc stream P p l s \<and> dropped_safe sc P es us s"
  have recorded: "triple (here ?I) (d_record_published d ms) (\<lambda>_. here ?I) (\<lambda>_. here (any_committed sc))" for ms
  proof (rule triple_changes [OF published_law])
    fix s :: "'b standing" and f :: "'b standing \<Rightarrow> 'b standing"
    assume I: "?I s" and "f \<in> {\<lambda>s. s\<lparr>st_db := sq_record_published (st_db s) stream ms\<rparr>}"
    then have f: "f s = s\<lparr>st_db := sq_record_published (st_db s) stream ms\<rparr>" by blast
    have "sq_invar (st_db s)" using I by (simp add: batch_ok_def committed_ok_def)
    from batch_db [OF conjunct1 [OF I] record_same [OF this]] I show "?I (f s)"
      by (simp add: f dropped_safe_def)
  qed (auto intro: committed_invar batch_committed batch_any)
  have clock: "triple (here ?I) (d_clock d) (\<lambda>_. here ?I) (\<lambda>_. here (any_committed sc))"
    by (rule into_any [OF clock_triple]) (auto intro: batch_any)
  have metric: "triple (here ?I) (io_modify (d_metric d m)) (\<lambda>_. here ?I) (\<lambda>_. here (any_committed sc))" for m
    by (rule into_any [OF metric_triple]) (auto intro: batch_any)
  show ?thesis
    unfolding published_phase_def Let_def
    by (intro triple_if triple_return triple_bind [OF recorded] triple_bind [OF clock] metric)
qed

lemma take_page_triple:
  assumes page: "page_between sc stream p q page"
  shows "triple (here (batch_ok sc stream P p l)) (take_page d page l)
    (\<lambda>l1 w. here (batch_ok sc stream P q l1) w \<and> l_cursor l1 = l_cursor l \<and>
       l_exhausted l1 = (pg_next_cursor page = None)) (\<lambda>_. here (any_committed sc))"
proof -
  let ?Q = "\<lambda>l1 w. here (batch_ok sc stream P q l1) w \<and> l_cursor l1 = l_cursor l \<and>
     l_exhausted l1 = (pg_next_cursor page = None)"
  have map: "triple (here (batch_ok sc stream P p l)) (io_map (d_map d) (pg_records page))
      (\<lambda>es w. here (batch_ok sc stream P p l) w \<and> maps_to sc (pg_records page) es) (\<lambda>_. here (any_committed sc))"
    by (rule into_any [OF map_triple]) (auto intro: batch_any)
  show ?thesis
    unfolding take_page_def Let_def
  proof (rule triple_bind [OF map], rule triple_pure)
    fix es assume events: "maps_to sc (pg_records page) es"
    let ?l1 = "\<lambda>us. l\<lparr>l_mapped := l_mapped l + length es,
        l_duplicates := l_duplicates l + (length es - length (take_unseen (set us) es)),
        l_pending := l_pending l @ map ev_uid (take_unseen (set us) es),
        l_written := l_written l + length (take_unseen (set us) es),
        l_exhausted := pg_next_cursor page = None\<rparr>"
    have buffered: "triple (here (\<lambda>s. batch_ok sc stream P p l s \<and> dropped_safe sc P es us s))
        (d_write d (take_unseen (set us) es)) (\<lambda>_. here (batch_ok sc stream P q (?l1 us))) (\<lambda>_. here (any_committed sc))"
      for us
      by (rule triple_changes [OF write_law])
         (auto intro!: write_page [OF _ page events] intro: committed_invar batch_committed batch_any)
    have metric: "triple (here (batch_ok sc stream P q l1)) (io_modify (d_metric d m))
        (\<lambda>_. here (batch_ok sc stream P q l1)) (\<lambda>_. here (any_committed sc))" for m l1
      by (rule into_any [OF metric_triple]) (auto intro: batch_any)
    show "triple (here (batch_ok sc stream P p l))
      (io_bind (d_filter_unseen d (map ev_uid es)) (\<lambda>us.
       io_bind (published_phase d es) (\<lambda>_.
       io_bind (d_write d (take_unseen (set us) es)) (\<lambda>_.
       io_bind (io_modify (d_metric d (CountEvents (length (take_unseen (set us) es))))) (\<lambda>_.
       io_return (?l1 us)))))) ?Q (\<lambda>_. here (any_committed sc))"
      by (rule triple_bind [OF unseen_triple], rule triple_bind [OF published_triple], rule triple_bind [OF buffered],
          rule triple_bind [OF metric], rule triple_return) simp
  qed
qed

end

subsection \<open>One turn, one run\<close>

context connector begin

lemma flush_phase_triple:
  assumes key: "l_batch_key l = sc_cur sc stream (P stream)"
    and c: "c = Some (sc_cur sc stream q) \<or> c = None \<and> q = log_length sc stream"
  shows "triple (here (batch_ok sc stream P q l)) (flush_phase d c l)
    (\<lambda>l' w. here (committed_empty sc stream c q) w \<and> l_pending l' = [] \<and> l_exhausted l' = l_exhausted l \<and>
       (\<forall>k. c = Some k \<longrightarrow> l_batch_key l' = k)) (\<lambda>_. here (any_committed sc))"
proof -
  have err: "triple (here (batch_ok sc stream P q l))
      (io_on_error (d_flush d (l_batch_key l)) (d_metric d m))
      (\<lambda>_. here (flushed_ok sc stream P q (l_pending l))) (\<lambda>_. here (any_committed sc))" for m
    by (rule triple_on_error [OF flush_triple [where P = P and l = l, OF key]]) (simp add: metric_quiet)
  have clock: "triple (here (committed_empty sc stream c q)) (d_clock d)
      (\<lambda>_. here (committed_empty sc stream c q)) (\<lambda>_. here (any_committed sc))"
    by (rule into_any [OF clock_triple]) (rule committed_empty_any)
  have metric: "triple (here (committed_empty sc stream c q)) (io_modify (d_metric d m))
      (\<lambda>_. here (committed_empty sc stream c q)) (\<lambda>_. here (any_committed sc))" for m
    by (rule into_any [OF metric_triple]) (rule committed_empty_any)
  show ?thesis
    unfolding flush_phase_def Let_def
    by (rule triple_bind [OF err], rule triple_bind [OF commit_triple [OF c]], rule triple_bind [OF clock],
        rule triple_bind [OF metric], rule triple_bind [OF clock], rule triple_if,
        rule triple_bind [OF purge_triple])
       (auto intro!: triple_return)
qed

lemma idle_triple:
  "triple (here (batch_ok sc stream P p l)) (idle_phase d l)
    (\<lambda>l' w. here (batch_ok sc stream P p l') w \<and> l_cursor l' = l_cursor l \<and> l_exhausted l' = l_exhausted l)
    (\<lambda>_. here (any_committed sc))"
proof -
  let ?Q = "\<lambda>l' w. here (batch_ok sc stream P p l') w \<and> l_cursor l' = l_cursor l \<and> l_exhausted l' = l_exhausted l"
  have clock: "triple (here (batch_ok sc stream P p l)) (d_clock d)
      (\<lambda>_. here (batch_ok sc stream P p l)) (\<lambda>_. here (any_committed sc))"
    by (rule into_any [OF clock_triple]) (rule batch_any)
  have mark: "triple (here (batch_ok sc stream P p l)) (d_mark_caught_up d)
      (\<lambda>_. here (batch_ok sc stream P p l)) (\<lambda>_. here (any_committed sc))"
  proof (rule triple_changes [OF mark_law])
    fix s :: "'b standing" and f :: "'b standing \<Rightarrow> 'b standing"
    assume B: "batch_ok sc stream P p l s"
      and "f \<in> {\<lambda>s. s\<lparr>st_db := sq_mark_caught_up (st_db s) now stream\<rparr> | now. True}"
    then obtain now where f: "f s = s\<lparr>st_db := sq_mark_caught_up (st_db s) now stream\<rparr>" by blast
    show "batch_ok sc stream P p l (f s)"
      unfolding f by (rule batch_db [OF B mark_same [OF committed_invar [OF batch_committed [OF B]]]])
  qed (auto intro: committed_invar batch_committed batch_any)
  have idle: "triple (here (batch_ok sc stream P p l')) (case d_on_idle d of None \<Rightarrow> io_return () | Some idle \<Rightarrow> idle)
      (\<lambda>_. here (batch_ok sc stream P p l')) (\<lambda>_. here (any_committed sc))" for l' :: locals
    by (rule triple_option, rule triple_return, assumption, rule into_any [OF triple_quiet [OF idle_quiet]])
       (auto intro: batch_any)
  have cong: "batch_ok sc stream P p (l\<lparr>l_last_caught_up_at := t\<rparr>) = batch_ok sc stream P p l" for t
    by (rule batch_locals) simp_all
  have first: "triple (here (batch_ok sc stream P p l))
      (if l_pending l = [] then io_bind (d_clock d) (\<lambda>now.
          if (case l_last_caught_up_at l of None \<Rightarrow> True | Some t \<Rightarrow> d_caught_up_every d \<le> now - t)
          then io_bind (d_mark_caught_up d) (\<lambda>_. io_return (l\<lparr>l_last_caught_up_at := Some now\<rparr>))
          else io_return l) else io_return l) ?Q (\<lambda>_. here (any_committed sc))"
    by (intro triple_if triple_bind [OF clock] triple_bind [OF mark] triple_return) (simp_all add: cong)
  show ?thesis
    unfolding idle_phase_def
  proof (rule triple_bind [OF first], rule triple_pure)
    fix l' :: locals assume "l_cursor l' = l_cursor l \<and> l_exhausted l' = l_exhausted l"
    then show "triple (here (batch_ok sc stream P p l'))
      (io_bind (case d_on_idle d of None \<Rightarrow> io_return () | Some idle \<Rightarrow> idle) (\<lambda>_. io_return l')) ?Q
      (\<lambda>_. here (any_committed sc))"
      by (intro triple_bind [OF idle] triple_return) simp
  qed
qed

lemma progress_triple:
  assumes "\<And>s. I s \<Longrightarrow> any_committed sc s"
  shows "triple (here I) (case d_on_progress d of None \<Rightarrow> io_return () | Some report \<Rightarrow> report st)
    (\<lambda>_. here I) (\<lambda>_. here (any_committed sc))"
  by (rule triple_option, rule triple_return, assumption, rule into_any [OF triple_quiet [OF progress_quiet]])
     (auto intro: assms)

abbreviation step_ok :: "locals + locals \<Rightarrow> 'w \<Rightarrow> bool" where
  "step_ok r w \<equiv> (case r of Inl l \<Rightarrow> here (ended_ok sc stream True) w \<and> l_exhausted l | Inr l \<Rightarrow> here (loop_ok sc stream l) w)"

text \<open>The rest of a page when the range goes on, and when it ends.\<close>

lemma page_goes_on:
  assumes "next": "pg_next_cursor page = Some (sc_cur sc stream q)"
    and key: "l_batch_key l1 = sc_cur sc stream (P stream)" and ex: "\<not> l_exhausted l1"
  shows "triple (here (batch_ok sc stream P q l1))
    (io_bind (d_should_flush d) (\<lambda>flushing.
     io_bind (if flushing then flush_phase d (Some (sc_cur sc stream q)) l1 else io_return l1) (\<lambda>l2.
     io_bind (case d_on_progress d of None \<Rightarrow> io_return () | Some report \<Rightarrow> report (run_snapshot l2 None)) (\<lambda>_.
        if pg_records page = [] then io_bind (idle_phase d (l2\<lparr>l_cursor := sc_cur sc stream q\<rparr>)) (\<lambda>l4. io_return (Inr l4))
        else io_return (Inr (l2\<lparr>l_cursor := sc_cur sc stream q\<rparr>))))))
    step_ok (\<lambda>_. here (any_committed sc))"
proof -
  let ?B = "\<lambda>l2 s. (\<exists>P. batch_ok sc stream P q l2 s) \<and> \<not> l_exhausted l2"
  have should: "triple (here (batch_ok sc stream P q l1)) (d_should_flush d)
      (\<lambda>_. here (batch_ok sc stream P q l1)) (\<lambda>_. here (any_committed sc))"
    by (rule into_any [OF triple_quiet [OF should_quiet]]) (rule batch_any)
  have flushed: "triple (here (batch_ok sc stream P q l1))
      (if flushing then flush_phase d (Some (sc_cur sc stream q)) l1 else io_return l1)
      (\<lambda>l2. here (?B l2)) (\<lambda>_. here (any_committed sc))" for flushing
  proof (rule triple_if)
    have "triple (here (batch_ok sc stream P q l1)) (flush_phase d (Some (sc_cur sc stream q)) l1)
      (\<lambda>l' w. here (committed_empty sc stream (Some (sc_cur sc stream q)) q) w \<and> l_pending l' = [] \<and>
         l_exhausted l' = l_exhausted l1 \<and> (\<forall>k. Some (sc_cur sc stream q) = Some k \<longrightarrow> l_batch_key l' = k))
      (\<lambda>_. here (any_committed sc))"
      by (rule flush_phase_triple [where P = P and l = l1, OF key]) simp
    then show "triple (here (batch_ok sc stream P q l1)) (flush_phase d (Some (sc_cur sc stream q)) l1)
        (\<lambda>l2. here (?B l2)) (\<lambda>_. here (any_committed sc))"
      by (rule triple_weaken) (auto intro: committed_empty_batch simp: ex)
    show "triple (here (batch_ok sc stream P q l1)) (io_return l1) (\<lambda>l2. here (?B l2)) (\<lambda>_. here (any_committed sc))"
      by (rule triple_return) (auto simp: ex)
  qed
  have progress: "triple (here (?B l2))
      (case d_on_progress d of None \<Rightarrow> io_return () | Some report \<Rightarrow> report (run_snapshot l2 None))
      (\<lambda>_. here (?B l2)) (\<lambda>_. here (any_committed sc))" for l2
    by (rule progress_triple) (auto intro: batch_any)
  have cong: "batch_ok sc stream P q (l2\<lparr>l_cursor := c\<rparr>) = batch_ok sc stream P q l2" for P l2 c
    by (rule batch_locals) simp_all
  have idle: "triple (here (?B l2)) (idle_phase d (l2\<lparr>l_cursor := sc_cur sc stream q\<rparr>))
      (\<lambda>l4. here (loop_ok sc stream l4)) (\<lambda>_. here (any_committed sc))" for l2
  proof (rule triple_pure, rule triple_ex)
    fix Q assume ex: "\<not> l_exhausted l2"
    have "triple (here (batch_ok sc stream Q q l2)) (idle_phase d (l2\<lparr>l_cursor := sc_cur sc stream q\<rparr>))
      (\<lambda>l' w. here (batch_ok sc stream Q q l') w \<and> l_cursor l' = sc_cur sc stream q \<and> l_exhausted l' = l_exhausted l2)
      (\<lambda>_. here (any_committed sc))"
      using idle_triple [of Q q "l2\<lparr>l_cursor := sc_cur sc stream q\<rparr>"] by (simp add: cong)
    then show "triple (here (batch_ok sc stream Q q l2)) (idle_phase d (l2\<lparr>l_cursor := sc_cur sc stream q\<rparr>))
      (\<lambda>l4. here (loop_ok sc stream l4)) (\<lambda>_. here (any_committed sc))"
      by (rule triple_weaken) (use ex in \<open>auto simp: loop_ok_def\<close>)
  qed
  have goes_on: "loop_ok sc stream (l2\<lparr>l_cursor := sc_cur sc stream q\<rparr>) s" if "?B l2 s" for l2 s
  proof -
    obtain Q where "batch_ok sc stream Q q l2 s" using \<open>?B l2 s\<close> by blast
    then have "batch_ok sc stream Q q (l2\<lparr>l_cursor := sc_cur sc stream q\<rparr>) s" by (simp add: cong)
    with \<open>?B l2 s\<close> show ?thesis unfolding loop_ok_def by auto
  qed
  show ?thesis
    by (rule triple_bind [OF should], rule triple_bind [OF flushed], rule triple_bind [OF progress],
        rule triple_if, rule triple_bind [OF idle], rule triple_return, simp, rule triple_return)
       (simp add: goes_on)
qed

lemma page_ends:
  assumes q: "q = log_length sc stream"
    and key: "l_batch_key l1 = sc_cur sc stream (P stream)" and ex: "l_exhausted l1"
  shows "triple (here (batch_ok sc stream P q l1))
    (io_bind (flush_phase d None l1) (\<lambda>l2.
     io_bind (case d_on_progress d of None \<Rightarrow> io_return () | Some report \<Rightarrow> report (run_snapshot l2 None)) (\<lambda>_.
        io_return (Inl l2))))
    step_ok (\<lambda>_. here (any_committed sc))"
proof -
  let ?E = "\<lambda>l2 s. ended_ok sc stream True s \<and> l_exhausted l2"
  have "triple (here (batch_ok sc stream P q l1)) (flush_phase d None l1)
    (\<lambda>l' w. here (committed_empty sc stream None q) w \<and> l_pending l' = [] \<and> l_exhausted l' = l_exhausted l1 \<and>
       (\<forall>k. None = Some k \<longrightarrow> l_batch_key l' = k)) (\<lambda>_. here (any_committed sc))"
    by (rule flush_phase_triple [where P = P and l = l1, OF key]) (simp add: q)
  then have flushed: "triple (here (batch_ok sc stream P q l1)) (flush_phase d None l1)
      (\<lambda>l2. here (?E l2)) (\<lambda>_. here (any_committed sc))"
    by (rule triple_weaken) (auto simp: ended_ok_def ex committed_empty_def intro: committed_any)
  have progress: "triple (here (?E l2))
      (case d_on_progress d of None \<Rightarrow> io_return () | Some report \<Rightarrow> report (run_snapshot l2 None))
      (\<lambda>_. here (?E l2)) (\<lambda>_. here (any_committed sc))" for l2
    by (rule progress_triple) (auto simp: ended_ok_def)
  show ?thesis
    by (rule triple_bind [OF flushed], rule triple_bind [OF progress], rule triple_return) simp
qed

end

context connector begin

lemma triple_loop_ok:
  assumes "\<And>P p. \<not> l_exhausted l \<Longrightarrow> l_cursor l = sc_cur sc stream p \<Longrightarrow> triple (here (batch_ok sc stream P p l)) m Q R"
  shows "triple (here (loop_ok sc stream l)) m Q R"
  unfolding loop_ok_def
  by (rule triple_pure, rule triple_ex, rule triple_ex, rule triple_pure) (rule assms)

lemma page_step_triple: "triple (here (loop_ok sc stream l)) (page_step d l) step_ok (\<lambda>_. here (any_committed sc))"
proof (rule triple_loop_ok)
  fix P p assume ex: "\<not> l_exhausted l" and cursor: "l_cursor l = sc_cur sc stream p"
  let ?l = "l\<lparr>l_pages := l_pages l + 1\<rparr>"
  have pages: "batch_ok sc stream P p ?l = batch_ok sc stream P p l" by (rule batch_locals) simp_all
  show "triple (here (batch_ok sc stream P p l)) (page_step d l) step_ok (\<lambda>_. here (any_committed sc))"
  proof (cases "scene_ok sc \<and> stream \<in> sc_streams sc \<and> p \<le> log_length sc stream")
    case False
    then show ?thesis by (auto simp: triple_def batch_ok_def committed_ok_def)
  next
    case True
    then have scene: "scene_ok sc" "stream \<in> sc_streams sc" "p \<le> log_length sc stream" by simp_all
    have fetch: "triple (here (batch_ok sc stream P p l))
        (io_on_error (d_fetch d (l_cursor l)) (d_metric d m))
        (\<lambda>page w. here (batch_ok sc stream P p l) w \<and> (\<exists>q. page_between sc stream p q page))
        (\<lambda>_. here (any_committed sc))" for m
      unfolding cursor
      by (rule triple_on_error [OF triple_answers [OF fetch_quiet fetch_law [OF scene]]])
         (auto simp: metric_quiet intro: batch_any)
    show ?thesis
      unfolding page_step_def
    proof (rule triple_bind [OF fetch], rule triple_pure, elim exE)
      fix page q assume page: "page_between sc stream p q page"
      have taken: "triple (here (batch_ok sc stream P p l)) (take_page d page ?l)
          (\<lambda>l1 w. here (batch_ok sc stream P q l1) w \<and> l_exhausted l1 = (pg_next_cursor page = None))
          (\<lambda>_. here (any_committed sc))"
        using take_page_triple [OF page, of P ?l] unfolding pages by (rule triple_weaken) auto
      show "triple (here (batch_ok sc stream P p l))
        (io_bind (take_page d page ?l) (\<lambda>l1.
         io_bind (if l_exhausted l1 then io_return True else d_should_flush d) (\<lambda>flushing.
         io_bind (if flushing then flush_phase d (pg_next_cursor page) l1 else io_return l1) (\<lambda>l2.
         io_bind (case d_on_progress d of None \<Rightarrow> io_return () | Some report \<Rightarrow> report (run_snapshot l2 None)) (\<lambda>_.
         case pg_next_cursor page of
           None \<Rightarrow> io_return (Inl l2)
         | Some c \<Rightarrow>
             (let l3 = l2\<lparr>l_cursor := c\<rparr> in
              if pg_records page = [] then io_bind (idle_phase d l3) (\<lambda>l4. io_return (Inr l4))
              else io_return (Inr l3)))))))
        step_ok (\<lambda>_. here (any_committed sc))"
      proof (rule triple_bind [OF taken], rule triple_pure)
        fix l1 :: locals assume ex1: "l_exhausted l1 = (pg_next_cursor page = None)"
        have key: "triple (here (batch_ok sc stream P q l1)) m step_ok (\<lambda>_. here (any_committed sc))"
          if "l_batch_key l1 = sc_cur sc stream (P stream) \<Longrightarrow>
              triple (here (batch_ok sc stream P q l1)) m step_ok (\<lambda>_. here (any_committed sc))" for m
          using that by (cases "l_batch_key l1 = sc_cur sc stream (P stream)") (simp_all add: triple_def batch_ok_def)
        show "triple (here (batch_ok sc stream P q l1))
          (io_bind (if l_exhausted l1 then io_return True else d_should_flush d) (\<lambda>flushing.
           io_bind (if flushing then flush_phase d (pg_next_cursor page) l1 else io_return l1) (\<lambda>l2.
           io_bind (case d_on_progress d of None \<Rightarrow> io_return () | Some report \<Rightarrow> report (run_snapshot l2 None)) (\<lambda>_.
           case pg_next_cursor page of
             None \<Rightarrow> io_return (Inl l2)
           | Some c \<Rightarrow>
               (let l3 = l2\<lparr>l_cursor := c\<rparr> in
                if pg_records page = [] then io_bind (idle_phase d l3) (\<lambda>l4. io_return (Inr l4))
                else io_return (Inr l3))))))
          step_ok (\<lambda>_. here (any_committed sc))"
        proof (rule key, cases "pg_next_cursor page")
          case None
          then have q: "q = log_length sc stream" using page by (simp add: page_between_def)
          assume "l_batch_key l1 = sc_cur sc stream (P stream)"
          from page_ends [where P = P and ?l1.0 = l1, OF q this] ex1 None show ?thesis
            by (simp add: io_return_bind [abs_def])
        next
          case (Some c)
          then have "next": "pg_next_cursor page = Some (sc_cur sc stream q)" using page by (simp add: page_between_def)
          assume "l_batch_key l1 = sc_cur sc stream (P stream)"
          from page_goes_on [where P = P and ?l1.0 = l1, OF "next" this] ex1 show ?thesis
            unfolding "next" by (simp add: Let_def)
        qed
      qed
    qed
  qed
qed

lemma run_turn_triple:
  "triple (here (loop_ok sc stream l)) (run_turn d l)
    (\<lambda>q w. case q of Inl st \<Rightarrow> here (ended_ok sc stream (rs_exhausted st)) w | Inr l' \<Rightarrow> here (loop_ok sc stream l') w)
    (\<lambda>_. here (any_committed sc))"
proof -
  let ?Q = "\<lambda>q w. case q of Inl st \<Rightarrow> here (ended_ok sc stream (rs_exhausted st)) w
    | Inr l' \<Rightarrow> here (loop_ok sc stream l') w"
  have any: "any_committed sc s" if "loop_ok sc stream l s" for s
    using that by (auto simp: loop_ok_def intro: batch_any)
  have poll: "triple (here (loop_ok sc stream l)) (case d_stop_signal d of None \<Rightarrow> io_return None | Some poll \<Rightarrow> poll)
      (\<lambda>_. here (loop_ok sc stream l)) (\<lambda>_. here (any_committed sc))"
    by (rule triple_option, rule triple_return, assumption, rule into_any [OF triple_quiet [OF poll_quiet]])
       (auto intro: any)
  have stop: "triple (here (loop_ok sc stream l)) (io_return (Inl (run_snapshot l n))) ?Q (\<lambda>_. here (any_committed sc))" for n
    by (rule triple_return) (auto simp: ended_ok_def run_snapshot_def loop_ok_def any intro: batch_any)
  have step: "triple (here (loop_ok sc stream l)) (io_bind (page_step d l) (\<lambda>r.
        case r of Inl l' \<Rightarrow> io_return (Inl (run_snapshot l' None)) | Inr l' \<Rightarrow> io_return (Inr l')))
      ?Q (\<lambda>_. here (any_committed sc))"
    by (rule triple_bind [OF page_step_triple], rule triple_sum)
       (auto intro!: triple_return simp: run_snapshot_def ended_ok_def)
  show ?thesis
    unfolding run_turn_def
    by (rule triple_if, rule triple_bind [OF poll], rule triple_option, rule step, rule stop, rule stop)
qed

text \<open>A run starts with an empty buffer and a range that is not finished.\<close>

definition ready :: "'b standing \<Rightarrow> bool" where
  "ready s \<longleftrightarrow> any_committed sc s \<and> stream \<in> sc_streams sc \<and> st_buffer s = [] \<and> \<not> finished s stream"

lemma run_open_triple: "triple (here ready) (run_open d) (\<lambda>l. here (loop_ok sc stream l)) (\<lambda>_. here (any_committed sc))"
proof -
  let ?A = "\<lambda>c s. \<exists>P. committed_ok sc P s \<and> stream \<in> sc_streams sc \<and> st_buffer s = [] \<and> c = sc_cur sc stream (P stream)"
  let ?S = "\<lambda>stored s. case stored of None \<Rightarrow> ?A (sc_cur sc stream 0) s | Some c \<Rightarrow> ?A c s"
  have stored: "triple (here ready) (d_get_cursor d) (\<lambda>c. here (?S c)) (\<lambda>_. here (any_committed sc))"
  proof (rule triple_weaken [OF triple_answers [OF cursor_quiet cursor_law, where P = ready]])
    fix c w assume A: "here ready w \<and> c = sq_get_cursor (st_db (look w)) stream"
    then obtain P where P: "committed_ok sc P (look w)" by (auto simp: ready_def any_committed_def)
    then have "cursor_at sc P (look w) stream" using A by (simp add: committed_ok_def ready_def)
    then have "case c of None \<Rightarrow> P stream = 0 | Some k \<Rightarrow> k = sc_cur sc stream (P stream)"
      using A by (auto simp: cursor_at_def ready_def finished_def split: option.splits)
    with A P show "here (?S c) w" by (auto simp: ready_def split: option.splits)
  qed (auto simp: ready_def)
  have start: "triple (here (?S stored)) (case stored of None \<Rightarrow> d_start d | Some c \<Rightarrow> io_return c)
      (\<lambda>c. here (?A c)) (\<lambda>_. here (any_committed sc))" for stored
  proof (cases stored)
    case None
    show ?thesis
      unfolding None option.case
      by (rule triple_weaken [OF triple_answers [OF start_quiet start_law, where P = "?A (sc_cur sc stream 0)"]])
         (auto simp: any_committed_def)
  qed (simp add: triple_return)
  have clock: "triple (here (?A c)) (d_clock d) (\<lambda>_. here (?A c)) (\<lambda>_. here (any_committed sc))" for c
    by (rule into_any [OF clock_triple]) (auto simp: any_committed_def)
  have batch: "\<exists>P p. batch_ok sc stream P p l s \<and> c = sc_cur sc stream p"
    if A: "?A c s" and l: "l_batch_key l = c" "l_pending l = []" for c s l
  proof -
    obtain P where P: "committed_ok sc P s" "stream \<in> sc_streams sc" "st_buffer s = []" "c = sc_cur sc stream (P stream)" using A by blast
    have "P stream \<le> log_length sc stream" using P(1,2) by (simp add: committed_ok_def)
    with P l have "batch_ok sc stream P (P stream) l s" by (auto simp: batch_ok_def)
    with P(4) show ?thesis by blast
  qed
  show ?thesis
    unfolding run_open_def
    by (rule triple_bind [OF stored], rule triple_bind [OF start], rule triple_bind [OF clock], rule triple_return)
       (simp add: loop_ok_def, rule batch, simp_all)
qed

text \<open>Whether it returns or raises, a run leaves a standing from which the argument goes on.\<close>

lemma run_committed:
  assumes "run d w = Some (r, w')" and "any_committed sc (look w)" and "st_buffer (look w) = []"
    and "\<not> finished (look w) stream" and "stream \<in> sc_streams sc"
  shows "any_committed sc (look w')" and "r = Inr st \<Longrightarrow> rs_exhausted st \<Longrightarrow> finished (look w') stream"
proof -
  let ?Q = "\<lambda>r w. any_committed sc (look w) \<and> (\<forall>st. r = Inr st \<longrightarrow> rs_exhausted st \<longrightarrow> finished (look w) stream)"
  have "?Q r w'"
  proof (rule run_rule [OF assms(1), where I = "\<lambda>l. here (loop_ok sc stream l)" and Q = ?Q and P = "here ready"])
    show "triple (here ready) (run_open d) (\<lambda>l. here (loop_ok sc stream l)) (\<lambda>x. ?Q (Inl x))"
      by (rule triple_weaken [OF run_open_triple]) auto
    show "here ready w" using assms(2-5) by (simp add: ready_def)
    show "triple (here (loop_ok sc stream l)) (run_turn d l)
        (\<lambda>q w. case q of Inl st \<Rightarrow> ?Q (Inr st) w | Inr l' \<Rightarrow> here (loop_ok sc stream l') w) (\<lambda>x. ?Q (Inl x))" for l
      by (rule triple_weaken [OF run_turn_triple]) (auto simp: ended_ok_def split: sum.splits)
  qed
  then show "any_committed sc (look w')" and "r = Inr st \<Longrightarrow> rs_exhausted st \<Longrightarrow> finished (look w') stream"
    by auto
qed

end

subsection \<open>What the invariant says\<close>

lemma passed_delivered:
  "passed sc P s stream i {} \<Longrightarrow> \<exists>e. log_event sc stream i = Inr e \<and> delivered sc s (ev_uid e)"
  by (auto simp: passed_def dest: safe_delivered)

text \<open>What the invariant says of the stored cursor, and of a finished range.\<close>

lemma cursor_delivered:
  assumes "any_committed sc s" and "stream \<in> sc_streams sc" and "sq_get_cursor (st_db s) stream = Some c"
  shows "\<exists>p. p \<le> log_length sc stream \<and> c = sc_cur sc stream p \<and>
    (\<forall>i < p. \<exists>e. log_event sc stream i = Inr e \<and> delivered sc s (ev_uid e))"
proof -
  obtain P where P: "committed_ok sc P s" using assms(1) by (auto simp: any_committed_def)
  then have "P stream \<le> log_length sc stream" "c = sc_cur sc stream (P stream)" "\<forall>i < P stream. passed sc P s stream i {}"
    using assms(2,3) by (auto simp: committed_ok_def cursor_at_def split: option.splits)
  then show ?thesis by (intro exI [of _ "P stream"]) (auto intro: passed_delivered)
qed

lemma finished_delivered:
  assumes "any_committed sc s" and "stream \<in> sc_streams sc" and "finished s stream" and "r \<in> set (sc_log sc stream)"
  shows "\<exists>e. sc_event sc r = Inr e \<and> delivered sc s (ev_uid e)"
proof -
  obtain P where P: "committed_ok sc P s" using assms(1) by (auto simp: any_committed_def)
  then have "P stream = log_length sc stream" "\<forall>i < P stream. passed sc P s stream i {}"
    using assms(2,3) by (auto simp: committed_ok_def cursor_at_def finished_def split: option.splits)
  moreover obtain i where "i < log_length sc stream" "r = sc_log sc stream ! i"
    using assms(4) by (auto simp: in_set_conv_nth log_length_def)
  ultimately show ?thesis using passed_delivered [of sc P s stream] by (auto simp: log_event_def)
qed

lemma seen_delivered:
  "any_committed sc s \<Longrightarrow> sq_expiry (st_db s) u \<noteq> None \<Longrightarrow> delivered sc s u"
  by (auto simp: any_committed_def committed_ok_def intro: safe_delivered)

text \<open>Where a uid is that of one event only, the event itself is stored.\<close>

lemma delivered_stored:
  "inj_on ev_uid (logged sc) \<Longrightarrow> e \<in> logged sc \<Longrightarrow> delivered sc s (ev_uid e) \<Longrightarrow> stored sc s e"
  by (auto simp: delivered_def dest: inj_onD)

end
