(* ===== verification/Delivery.thy ===== *)
theory Delivery
  imports Connector
begin

section \<open>The connector as a whole: crashes, restarts, delivery\<close>

text \<open>
  The run loop over the SQLite store and the Security Lake sink with its objects in a local
  store, in an environment that chooses everything else: the clock readings, how much of a
  log a page serves, when a stop signal arrives, and which operation fails, down to the single
  object of a flush and the single statement of a commit. A failed operation ends the process;
  the next one, of the same stream or of another, finds the database file and the objects, and
  nothing else. So a sequence of lives covers every crash a process can have.

  The log of a stream is a list and the cursor of a position in it is any string; serving from a
  cursor the records that follow its position, and the cursor after them, is what the source
  documents (docs/SPEC.md 2.2). A tail always gets a next cursor; a range gets none once the
  environment ends it, which it may where nothing is left. The calls of a life keep the laws of
  the locale \<open>connector\<close>, and what is shown of it is the argument of \<open>Connector\<close>.
\<close>

record ('r, 'c, 'b) env =
  en_streams :: "string set"
  en_log :: "string \<Rightarrow> 'r list"
  en_event :: "'r \<Rightarrow> exn + ocsf_event"
  en_cur :: "string \<Rightarrow> nat \<Rightarrow> string"
  en_clock :: "nat \<Rightarrow> seconds"
  en_fault :: "nat \<Rightarrow> bool"
  en_cut :: "nat \<Rightarrow> nat"
  en_end :: "nat \<Rightarrow> bool"
  en_stop :: "nat \<Rightarrow> int option"
  en_commit_fault :: "nat \<Rightarrow> nat option"
  en_put_fault :: "nat \<Rightarrow> bool option"
  en_arrow :: "('c, 'b) arrow"
  en_sha256 :: "string \<Rightarrow> string"
  en_config :: lake_config
  en_version :: string
  en_ttl :: seconds

record 'b world =
  w_state :: sqlite_store
  w_lake :: "('b local_store \<times> nat) lake"
  w_tick :: nat

definition scene_of :: "('r, 'c, 'b) env \<Rightarrow> ('r, 'c, 'b) scene" where
  "scene_of en = \<lparr>sc_streams = en_streams en, sc_log = en_log en, sc_event = en_event en, sc_cur = en_cur en,
     sc_place = path_for, sc_arrow = en_arrow en, sc_sha256 = en_sha256 en, sc_config = en_config en\<rparr>"

text \<open>The objects, and a counter of the puts that the environment's faults are indexed by: a put
  that fails has stored its object or not.\<close>

definition faulty_put ::
  "(nat \<Rightarrow> bool option) \<Rightarrow> string \<Rightarrow> string \<Rightarrow> 'b \<Rightarrow> (unit, 'b local_store \<times> nat) io" where
  "faulty_put bad s k d = (\<lambda>(st, n).
     (case bad n of
        Some lands \<Rightarrow> (Inl (OSErr k), (if lands then snd (local_put s k d st) else st, n + 1))
      | None \<Rightarrow> (case local_put s k d st of (r, st') \<Rightarrow> (r, (st', n + 1)))))"

interpretation faulty: object_store "faulty_put bad" "\<lambda>st. local_contents (fst st)" path_for
  for bad :: "nat \<Rightarrow> bool option"
proof (unfold_locales, goal_cases)
  case (1 s k d st u st')
  then show ?case by (auto simp: faulty_put_def local_put_def local_contents_def split: prod.splits option.splits)
next
  case (2 s k d st e st')
  then show ?case
    by (auto simp: faulty_put_def local_put_def local_contents_def split: prod.splits option.splits if_splits)
next
  case (3 s s' k k')
  then show ?case by (rule path_for_inj)
qed

text \<open>One operation: it takes the next number, and fails if the environment says so.\<close>

definition operation :: "('r, 'c, 'b) env \<Rightarrow> (nat \<Rightarrow> ('a, 'b world) io) \<Rightarrow> ('a, 'b world) io" where
  "operation en f w =
     (let n = w_tick w; w' = w\<lparr>w_tick := n + 1\<rparr>
      in if en_fault en n then (Inl Cancelled, w') else f n w')"

definition on_lake :: "('a, ('b local_store \<times> nat) lake) io \<Rightarrow> ('a, 'b world) io" where
  "on_lake m w = (case m (w_lake w) of (r, lk) \<Rightarrow> (r, w\<lparr>w_lake := lk\<rparr>))"

definition on_state :: "('a, sqlite_store) io \<Rightarrow> ('a, 'b world) io" where
  "on_state m w = (case m (w_state w) of (r, st) \<Rightarrow> (r, w\<lparr>w_state := st\<rparr>))"

text \<open>The source: from the position of the cursor, up to where the environment cuts the page.\<close>

definition serve :: "('r, 'c, 'b) env \<Rightarrow> string \<Rightarrow> nat \<Rightarrow> bool \<Rightarrow> string \<Rightarrow> exn + 'r page" where
  "serve en stream page_end ends c =
     (let log = en_log en stream in
      case filter (\<lambda>p. en_cur en stream p = c) [0..<Suc (length log)] of
        [] \<Rightarrow> Inl (ValueError c)
      | p # _ \<Rightarrow>
          (let q = max p (min page_end (length log))
           in Inr \<lparr>pg_records = take (q - p) (drop p log),
                   pg_next_cursor = (if ends \<and> q = length log then None else Some (en_cur en stream q))\<rparr>))"

definition deps_of :: "('r, 'c, 'b) env \<Rightarrow> string \<Rightarrow> nat option \<Rightarrow> ('r, 'b world) deps" where
  "deps_of en stream max_pages =
     \<lparr>d_get_cursor = operation en (\<lambda>n w. (Inr (sq_get_cursor (w_state w) stream), w)),
      d_start = operation en (\<lambda>n. io_return (en_cur en stream 0)),
      d_clock = operation en (\<lambda>n. io_return (en_clock en n)),
      d_stop_signal = Some (operation en (\<lambda>n. io_return (en_stop en n))),
      d_fetch = (\<lambda>c. operation en (\<lambda>n w. (serve en stream (en_cut en n) (en_end en n) c, w))),
      d_map = (\<lambda>r. operation en (\<lambda>n w. (en_event en r, w))),
      d_filter_unseen = (\<lambda>us. operation en (\<lambda>n w. (Inr (sq_filter_unseen (w_state w) (en_clock en n) us), w))),
      d_record_published = (\<lambda>ms. operation en (\<lambda>n.
         on_state (io_modify (\<lambda>st. sq_record_published st stream ms)))),
      d_write = (\<lambda>es. operation en (\<lambda>n. on_lake (io_modify (lake_write (en_clock en n) es)))),
      d_should_flush = operation en (\<lambda>n w. (Inr (lake_should_flush (en_config en) (en_clock en n) (w_lake w)), w)),
      d_flush = (\<lambda>key. operation en (\<lambda>n. on_lake
         (lake_flush (faulty_put (en_put_fault en)) (en_arrow en) (en_sha256 en) (en_config en) key))),
      d_commit = (\<lambda>c us. operation en (\<lambda>n. on_state
         (sq_commit_io (en_commit_fault en n) (en_clock en n) stream c us (en_version en)))),
      d_mark_caught_up = operation en (\<lambda>n.
         on_state (io_modify (\<lambda>st. sq_mark_caught_up st (en_clock en n) stream))),
      d_purge_expired = operation en (\<lambda>n.
         on_state (io_modify (\<lambda>st. snd (sq_purge_expired st (en_clock en n))))),
      d_on_progress = Some (\<lambda>_. operation en (\<lambda>n. io_return ())),
      d_on_idle = Some (operation en (\<lambda>n. io_return ())),
      d_metric = (\<lambda>_ w. w),
      d_max_pages = max_pages,
      d_purge_every = 3600,
      d_caught_up_every = 3600\<rparr>"

text \<open>A process starts with the file and the objects its predecessor left.\<close>

definition restart :: "('r, 'c, 'b) env \<Rightarrow> 'b world \<Rightarrow> 'b world" where
  "restart en w = w\<lparr>w_state := sq_open (en_ttl en) (sq_disk (w_state w)), w_lake := new_lake (lk_store (w_lake w))\<rparr>"

definition first_world :: "('r, 'c, 'b) env \<Rightarrow> 'b world" where
  "first_world en = \<lparr>w_state = sq_open (en_ttl en) empty_db,
     w_lake = new_lake (\<lparr>ls_files = [], ls_written = []\<rparr>, 0), w_tick = 0\<rparr>"

definition life :: "('r, 'c, 'b) env \<Rightarrow> string \<Rightarrow> nat option \<Rightarrow> 'b world \<Rightarrow> 'b world option" where
  "life en stream max_pages w = map_option snd (run (deps_of en stream max_pages) (restart en w))"

text \<open>What the argument needs of the world.\<close>

definition look :: "'b world \<Rightarrow> 'b standing" where
  "look w = \<lparr>st_db = w_state w, st_objects = local_contents (fst (lk_store (w_lake w))),
     st_buffer = lk_buffer (w_lake w)\<rparr>"

text \<open>Lives of any streams in any order, but no range is run again once it is finished.\<close>

fun lives :: "('r, 'c, 'b) env \<Rightarrow> (string \<times> nat option) list \<Rightarrow> 'b world \<Rightarrow> 'b world option" where
  "lives en [] w = Some w"
| "lives en ((stream, m) # ms) w =
     (if finished (look w) stream then lives en ms w
      else (case life en stream m w of None \<Rightarrow> None | Some w' \<Rightarrow> lives en ms w'))"

subsection \<open>The calls keep the laws\<close>

lemma look_tick [simp]: "look (w\<lparr>w_tick := n\<rparr>) = look w"
  by (simp add: look_def)

lemma look_state: "look (w\<lparr>w_state := st\<rparr>) = (look w)\<lparr>st_db := st\<rparr>"
  by (simp add: look_def)

lemma look_sel [simp]:
  "st_db (look w) = w_state w" "st_buffer (look w) = lk_buffer (w_lake w)"
  "st_objects (look w) = local_contents (fst (lk_store (w_lake w)))"
  by (simp_all add: look_def)

text \<open>An operation fails before it starts, or is its body.\<close>

lemma operation_cases:
  obtains "operation en f w = (Inl Cancelled, w\<lparr>w_tick := w_tick w + 1\<rparr>)"
  | "operation en f w = f (w_tick w) (w\<lparr>w_tick := w_tick w + 1\<rparr>)"
  by (cases "en_fault en (w_tick w)") (simp_all add: operation_def Let_def)

lemma operation_quiet:
  assumes "\<And>n w. look (snd (f n w)) = look w"
  shows "quiet look (operation en f)"
  unfolding quiet_def
proof
  fix w show "look (snd (operation en f w)) = look w"
    by (rule operation_cases [of en f w]) (simp_all add: assms)
qed

lemma operation_answers:
  assumes "\<And>n w x. fst (f n w) = Inr x \<Longrightarrow> A x (look w)"
  shows "answers look (operation en f) A"
  unfolding answers_def
proof (intro allI impI)
  fix w x assume x: "fst (operation en f w) = Inr x"
  show "A x (look w)"
    by (rule operation_cases [of en f w]) (use x assms [of "w_tick w" "w\<lparr>w_tick := w_tick w + 1\<rparr>" x] in simp_all)
qed

lemma operation_changes:
  fixes en :: "('r, 'c, 'b) env"
  assumes "\<And>n. changes look (f n) F"
  shows "changes look (operation en f) F"
  unfolding changes_def
proof (intro allI impI)
  fix w :: "'b world" assume I: "sq_invar (st_db (look w))"
  show "isl (fst (operation en f w)) \<and> look (snd (operation en f w)) = look w \<or>
      (\<exists>g \<in> F. look (snd (operation en f w)) = g (look w))"
  proof (rule operation_cases [of en f w])
    assume "operation en f w = f (w_tick w) (w\<lparr>w_tick := w_tick w + 1\<rparr>)"
    with assms [unfolded changes_def, rule_format, of "w\<lparr>w_tick := w_tick w + 1\<rparr>" "w_tick w"] I show ?thesis by simp
  qed simp
qed

lemma state_modify_changes:
  assumes "\<And>s. F' s = (s :: 'b standing)\<lparr>st_db := f (st_db s)\<rparr>" and "F' \<in> F"
  shows "changes look (on_state (io_modify f)) F"
  unfolding changes_def
proof (intro allI impI disjI2 bexI [OF _ assms(2)])
  fix w :: "'b world"
  show "look (snd (on_state (io_modify f) w)) = F' (look w)"
    by (simp add: on_state_def io_modify_def assms(1) look_state)
qed

lemma commit_changes:
  "changes look (on_state (sq_commit_io fault now stream c us v))
    {\<lambda>s. s\<lparr>st_db := sq_commit (st_db s) now stream c us v\<rparr> | now v. True}"
  unfolding changes_def
proof (intro allI impI)
  fix w assume "sq_invar (st_db (look w))"
  then consider "sq_commit_io fault now stream c us v (w_state w) = (Inl (OSErr ''sqlite''), w_state w)"
    | "sq_commit_io fault now stream c us v (w_state w) = (Inr (), sq_commit (w_state w) now stream c us v)"
    using commit_io_cases [of "w_state w" fault now stream c us v] by auto
  then show "isl (fst (on_state (sq_commit_io fault now stream c us v) w)) \<and>
      look (snd (on_state (sq_commit_io fault now stream c us v) w)) = look w \<or>
    (\<exists>f \<in> {\<lambda>s. s\<lparr>st_db := sq_commit (st_db s) now stream c us v\<rparr> | now v. True}.
      look (snd (on_state (sq_commit_io fault now stream c us v) w)) = f (look w))"
  proof cases
    case 1
    then show ?thesis by (simp add: on_state_def)
  next
    case 2
    then have "look (snd (on_state (sq_commit_io fault now stream c us v) w)) =
        (look w)\<lparr>st_db := sq_commit (st_db (look w)) now stream c us v\<rparr>"
      by (simp add: on_state_def look_state)
    then show ?thesis
      by (intro disjI2 bexI [of _ "\<lambda>s. s\<lparr>st_db := sq_commit (st_db s) now stream c us v\<rparr>"]) auto
  qed
qed

lemma write_changes:
  "changes look (on_lake (io_modify (lake_write now es))) {\<lambda>s. s\<lparr>st_buffer := st_buffer s @ es\<rparr>}"
  by (simp add: changes_def on_lake_def io_modify_def look_def lake_write_def)

lemma serve_page:
  assumes "scene_ok (scene_of en)" and "stream \<in> en_streams en" and "p \<le> length (en_log en stream)"
    and "serve en stream m ends (en_cur en stream p) = Inr page"
  shows "\<exists>q. page_between (scene_of en) stream p q page"
proof -
  let ?log = "en_log en stream"
  obtain p' ps where f: "filter (\<lambda>x. en_cur en stream x = en_cur en stream p) [0..<Suc (length ?log)] = p' # ps"
    and page: "page = (let q = max p' (min m (length ?log))
      in \<lparr>pg_records = take (q - p') (drop p' ?log),
          pg_next_cursor = (if ends \<and> q = length ?log then None else Some (en_cur en stream q))\<rparr>)"
    using assms(4) by (auto simp: serve_def Let_def split: list.splits)
  have "p' \<in> set (filter (\<lambda>x. en_cur en stream x = en_cur en stream p) [0..<Suc (length ?log)])"
    using f by simp
  then have p': "en_cur en stream p' = en_cur en stream p" "p' \<le> length ?log"
    unfolding set_filter mem_Collect_eq set_upt atLeastLessThan_iff less_Suc_eq_le by simp_all
  with digest_inj [OF assms(1), of stream stream p' p] assms(2,3) have "p' = p"
    by (simp add: scene_of_def log_length_def)
  with page assms(3) show ?thesis
    by (intro exI [of _ "max p (min m (length ?log))"]) (auto simp: page_between_def Let_def scene_of_def log_length_def)
qed

lemma fetch_answers:
  assumes "scene_ok (scene_of en)" and "stream \<in> sc_streams (scene_of en)" and "p \<le> log_length (scene_of en) stream"
  shows "answers look (d_fetch (deps_of en stream max_pages) (sc_cur (scene_of en) stream p))
      (\<lambda>page s. \<exists>q. page_between (scene_of en) stream p q page)"
proof -
  have "stream \<in> en_streams en" "p \<le> length (en_log en stream)"
    using assms(2,3) by (simp_all add: scene_of_def log_length_def)
  note page = serve_page [OF assms(1) this]
  have "answers look (operation en (\<lambda>n w. (serve en stream (en_cut en n) (en_end en n) (en_cur en stream p), w)))
      (\<lambda>page s. \<exists>q. page_between (scene_of en) stream p q page)"
    by (rule operation_answers) (use page in auto)
  then show ?thesis by (simp add: deps_of_def scene_of_def)
qed

lemma flush_flushes:
  fixes en :: "('r, 'c, 'b) env"
  shows "flushes (faulty_put (en_put_fault en)) (\<lambda>st. local_contents (fst st)) (scene_of en) look key
     (d_flush (deps_of en stream max_pages) key)"
  unfolding flushes_def
proof
  fix w :: "'b world"
  let ?flush = "lake_flush (faulty_put (en_put_fault en)) (en_arrow en) (en_sha256 en) (en_config en) key"
  let ?m = "operation en (\<lambda>n. on_lake ?flush)"
  obtain r lk' where flush: "?flush (w_lake w) = (r, lk')" by (cases "?flush (w_lake w)")
  have "isl (fst (?m w)) \<and> look (snd (?m w)) = look w \<or> fst (?m w) = r \<and>
      look (snd (?m w)) = (look w)\<lparr>st_objects := local_contents (fst (lk_store lk')), st_buffer := lk_buffer lk'\<rparr>"
    by (rule operation_cases [of en "\<lambda>n. on_lake ?flush" w]) (auto simp: on_lake_def flush look_def)
  with flush show "isl (fst (d_flush (deps_of en stream max_pages) key w)) \<and>
      look (snd (d_flush (deps_of en stream max_pages) key w)) = look w \<or>
    (\<exists>lk r lk'. lake_flush (faulty_put (en_put_fault en)) (sc_arrow (scene_of en)) (sc_sha256 (scene_of en))
        (sc_config (scene_of en)) key lk = (r, lk') \<and>
       (fst (d_flush (deps_of en stream max_pages) key w) = r \<or> isl (fst (d_flush (deps_of en stream max_pages) key w))) \<and>
       st_objects (look w) = local_contents (fst (lk_store lk)) \<and> st_buffer (look w) = lk_buffer lk \<and>
       look (snd (d_flush (deps_of en stream max_pages) key w)) =
         (look w)\<lparr>st_objects := local_contents (fst (lk_store lk')), st_buffer := lk_buffer lk'\<rparr>)"
    unfolding deps_of_def scene_of_def deps.simps scene.simps by fastforce
qed

interpretation life: connector "faulty_put (en_put_fault en)" "\<lambda>st. local_contents (fst st)" "scene_of en"
    look stream "deps_of en stream max_pages"
  for en :: "('r, 'c, 'b) env" and stream :: string and max_pages :: "nat option"
proof unfold_locales
  show "(s :: string) = s' \<and> k = k'" if "CHR ''/'' \<notin> set s" "CHR ''/'' \<notin> set s'"
    "sc_place (scene_of en) s k = sc_place (scene_of en) s' k'" for s s' k k'
    using path_for_inj [OF that(1,2)] that(3) by (simp add: scene_of_def)
  show "answers look (d_fetch (deps_of en stream max_pages) (sc_cur (scene_of en) stream p))
      (\<lambda>page s. \<exists>q. page_between (scene_of en) stream p q page)"
    if "scene_ok (scene_of en)" "stream \<in> sc_streams (scene_of en)" "p \<le> log_length (scene_of en) stream" for p
    using that by (rule fetch_answers)
  show "flushes (faulty_put (en_put_fault en)) (\<lambda>st. local_contents (fst st)) (scene_of en) look key
     (d_flush (deps_of en stream max_pages) key)" for key
    by (rule flush_flushes)
  show "quiet look (d_get_cursor (deps_of en stream max_pages))"
    by (simp add: deps_of_def operation_quiet)
  show "answers look (d_get_cursor (deps_of en stream max_pages)) (\<lambda>c s. c = sq_get_cursor (st_db s) stream)"
    unfolding deps_of_def deps.simps by (rule operation_answers) simp
  show "quiet look (d_start (deps_of en stream max_pages))"
    by (simp add: deps_of_def operation_quiet io_return_def)
  show "answers look (d_start (deps_of en stream max_pages)) (\<lambda>c s. c = sc_cur (scene_of en) stream 0)"
    unfolding deps_of_def scene_of_def deps.simps scene.simps by (rule operation_answers) (simp add: io_return_def)
  show "quiet look (d_clock (deps_of en stream max_pages))"
    by (simp add: deps_of_def operation_quiet io_return_def)
  show "quiet look poll" if "d_stop_signal (deps_of en stream max_pages) = Some poll" for poll
    using that by (auto simp: deps_of_def operation_quiet io_return_def)
  show "quiet look (d_fetch (deps_of en stream max_pages) c)" for c
    by (simp add: deps_of_def operation_quiet)
  show "quiet look (d_map (deps_of en stream max_pages) r)" for r
    by (simp add: deps_of_def operation_quiet)
  show "answers look (d_map (deps_of en stream max_pages) r) (\<lambda>e s. sc_event (scene_of en) r = Inr e)" for r
    unfolding deps_of_def scene_of_def deps.simps scene.simps by (rule operation_answers) simp
  show "quiet look (d_filter_unseen (deps_of en stream max_pages) us)" for us
    by (simp add: deps_of_def operation_quiet)
  show "answers look (d_filter_unseen (deps_of en stream max_pages) us)
      (\<lambda>vs s. \<exists>now. vs = sq_filter_unseen (st_db s) now us)" for us
    unfolding deps_of_def deps.simps by (rule operation_answers) auto
  show "changes look (d_record_published (deps_of en stream max_pages) ms)
      {\<lambda>s. s\<lparr>st_db := sq_record_published (st_db s) stream ms\<rparr>}" for ms
    unfolding deps_of_def deps.simps by (intro operation_changes state_modify_changes) auto
  show "changes look (d_write (deps_of en stream max_pages) es) {\<lambda>s. s\<lparr>st_buffer := st_buffer s @ es\<rparr>}" for es
    unfolding deps_of_def deps.simps by (intro operation_changes write_changes)
  show "quiet look (d_should_flush (deps_of en stream max_pages))"
    by (simp add: deps_of_def operation_quiet)
  show "answers look (d_should_flush (deps_of en stream max_pages)) (\<lambda>b s. b \<longrightarrow> st_buffer s \<noteq> [])"
    unfolding deps_of_def deps.simps by (rule operation_answers) (simp add: lake_should_flush_def)
  show "changes look (d_commit (deps_of en stream max_pages) next_cursor us)
      {\<lambda>s. s\<lparr>st_db := sq_commit (st_db s) now stream next_cursor us v\<rparr> | now v. True}" for next_cursor us
    unfolding deps_of_def deps.simps by (intro operation_changes commit_changes)
  show "changes look (d_mark_caught_up (deps_of en stream max_pages))
      {\<lambda>s. s\<lparr>st_db := sq_mark_caught_up (st_db s) now stream\<rparr> | now. True}"
    unfolding deps_of_def deps.simps by (intro operation_changes state_modify_changes) auto
  show "changes look (d_purge_expired (deps_of en stream max_pages))
      {\<lambda>s. s\<lparr>st_db := snd (sq_purge_expired (st_db s) now)\<rparr> | now. True}"
    unfolding deps_of_def deps.simps by (intro operation_changes state_modify_changes) auto
  show "quiet look (report stats)" if "d_on_progress (deps_of en stream max_pages) = Some report" for report stats
    using that by (auto simp: deps_of_def operation_quiet io_return_def)
  show "quiet look idle" if "d_on_idle (deps_of en stream max_pages) = Some idle" for idle
    using that by (auto simp: deps_of_def operation_quiet io_return_def)
  show "look (d_metric (deps_of en stream max_pages) m w) = look w" for m w
    by (simp add: deps_of_def)
qed (unfold scene_of_def scene.simps, (erule faulty.put_done faulty.put_raised)+)

subsection \<open>Lives\<close>

lemma restart_look:
  "look (restart en w) = (look w)\<lparr>st_db := sq_open (en_ttl en) (sq_disk (st_db (look w))), st_buffer := []\<rparr>"
  by (simp add: look_def restart_def new_lake_def)

lemma restart_committed:
  assumes "any_committed (scene_of en) (look w)"
  shows "any_committed (scene_of en) (look (restart en w))" and "st_buffer (look (restart en w)) = []"
    and "finished (look (restart en w)) = finished (look w)"
proof -
  show "any_committed (scene_of en) (look (restart en w))" and "finished (look (restart en w)) = finished (look w)"
    by (rule reopened_committed [OF assms restart_look])+
  show "st_buffer (look (restart en w)) = []" by (simp add: restart_def new_lake_def)
qed

lemma first_committed: "scene_ok (scene_of en) \<Longrightarrow> any_committed (scene_of en) (look (first_world en))"
  by (rule empty_committed) (simp_all add: look_def first_world_def)

text \<open>The states that lives of any streams lead to, in any order, but no stream is run again once
  its range is finished.\<close>

inductive reachable :: "('r, 'c, 'b) env \<Rightarrow> 'b world \<Rightarrow> bool" for en :: "('r, 'c, 'b) env" where
  first: "reachable en (first_world en)"
| next_life: "reachable en w \<Longrightarrow> stream \<in> en_streams en \<Longrightarrow> \<not> finished (look w) stream \<Longrightarrow>
    life en stream m w = Some w' \<Longrightarrow> reachable en w'"

lemma life_run:
  assumes "life en stream m w = Some w'"
  obtains r where "run (deps_of en stream m) (restart en w) = Some (r, w')"
  using assms by (auto simp: life_def)

lemma run_reachable:
  assumes "scene_ok (scene_of en)" and "any_committed (scene_of en) (look w)" and "stream \<in> en_streams en"
    and "\<not> finished (look w) stream" and "run (deps_of en stream m) (restart en w) = Some (r, w')"
  shows "any_committed (scene_of en) (look w')" and "r = Inr st \<Longrightarrow> rs_exhausted st \<Longrightarrow> finished (look w') stream"
  using life.run_committed [OF assms(5)] restart_committed [OF assms(2)] assms(3,4)
  by (auto simp: scene_of_def)

lemma reachable_committed:
  assumes "scene_ok (scene_of en)"
  shows "reachable en w \<Longrightarrow> any_committed (scene_of en) (look w)"
proof (induction rule: reachable.induct)
  case first
  show ?case by (rule first_committed [OF assms])
next
  case (next_life w stream m w')
  obtain r where "run (deps_of en stream m) (restart en w) = Some (r, w')" using next_life.hyps(4) by (rule life_run)
  from run_reachable(1) [OF assms next_life.IH next_life.hyps(2,3) this] show ?case .
qed

lemma lives_reachable:
  "lives en ms w = Some w' \<Longrightarrow> reachable en w \<Longrightarrow> fst ` set ms \<subseteq> en_streams en \<Longrightarrow> reachable en w'"
proof (induction ms arbitrary: w)
  case Nil
  then show ?case by simp
next
  case (Cons p ms)
  obtain stream m where p: "p = (stream, m)" by (cases p)
  show ?case
  proof (cases "finished (look w) stream")
    case True
    with Cons p show ?thesis by simp
  next
    case False
    then obtain v where v: "life en stream m w = Some v" "lives en ms v = Some w'"
      using Cons.prems(1) by (auto simp: p split: option.splits)
    have "reachable en v" by (rule next_life [OF Cons.prems(2) _ False v(1)]) (use Cons.prems(3) p in simp)
    with Cons.IH [OF v(2)] Cons.prems(3) show ?thesis by simp
  qed
qed

lemma reachable_lives: "reachable en w \<Longrightarrow> \<exists>ms. lives en ms (first_world en) = Some w"
proof (induction rule: reachable.induct)
  case first
  have "lives en [] (first_world en) = Some (first_world en)" by simp
  then show ?case by blast
next
  case (next_life w stream m w')
  have snoc: "lives en (ms @ [(stream, m)]) v = Some w'" if "lives en ms v = Some w" for ms v
    using that next_life.hyps(3,4) by (induction en ms v rule: lives.induct) (auto split: option.splits if_splits)
  from next_life.IH obtain ms where "lives en ms (first_world en) = Some w" by blast
  then show ?case using snoc by blast
qed

lemma first_lives:
  assumes "scene_ok (scene_of en)" and "lives en ms (first_world en) = Some w" and "fst ` set ms \<subseteq> en_streams en"
  shows "any_committed (scene_of en) (look w)"
  by (rule reachable_committed [OF assms(1) lives_reachable [OF assms(2) reachable.first assms(3)]])

subsection \<open>Properties of delivery\<close>

text \<open>An environment for the witnesses: a tail of two events, one to a page, and the first put fails.\<close>

definition sample_env :: "(ocsf_event, json list, (string \<times> json list) list) env" where
  "sample_env = \<lparr>en_streams = {''okta''}, en_log = (\<lambda>_. [sample_event ''u'' 0, sample_event ''v'' 0]),
     en_event = Inr, en_cur = (\<lambda>_. nat_str), en_clock = (\<lambda>n. 0), en_fault = (\<lambda>n. False), en_cut = (\<lambda>n. 1),
     en_end = (\<lambda>n. False), en_stop = (\<lambda>n. None), en_commit_fault = (\<lambda>n. None),
     en_put_fault = (\<lambda>n. if n = 0 then Some False else None), en_arrow = plain_arrow, en_sha256 = id,
     en_config = sample_config\<lparr>lc_max_bytes := 0\<rparr>, en_version = ''1'', en_ttl = 9\<rparr>"

text \<open>A range with the given events, which the environment ends: the first on a page of its own.\<close>

definition range_env :: "string list \<Rightarrow> (ocsf_event, json list, (string \<times> json list) list) env" where
  "range_env us = sample_env\<lparr>en_log := (\<lambda>_. map (\<lambda>u. sample_event u 0) us), en_cut := (\<lambda>n. if n < 20 then 1 else 9),
     en_end := (\<lambda>n. True), en_put_fault := (\<lambda>n. None)\<rparr>"

text \<open>Lives with fuel, to evaluate them.\<close>

definition life_with :: "nat \<Rightarrow> ('r, 'c, 'b) env \<Rightarrow> string \<Rightarrow> nat option \<Rightarrow> 'b world \<Rightarrow> 'b world option" where
  "life_with n en stream m w = map_option snd (run_with n (deps_of en stream m) (restart en w))"

fun lives_with :: "nat \<Rightarrow> ('r, 'c, 'b) env \<Rightarrow> (string \<times> nat option) list \<Rightarrow> 'b world \<Rightarrow> 'b world option" where
  "lives_with n en [] w = Some w"
| "lives_with n en ((stream, m) # ms) w =
     (if finished (look w) stream then lives_with n en ms w
      else (case life_with n en stream m w of None \<Rightarrow> None | Some w' \<Rightarrow> lives_with n en ms w'))"

lemma life_with_life: "life_with n en stream m w = Some w' \<Longrightarrow> life en stream m w = Some w'"
  by (auto simp: life_with_def life_def dest: run_with_run)

lemma lives_with_lives: "lives_with n en ms w = Some w' \<Longrightarrow> lives en ms w = Some w'"
  by (induction n en ms w rule: lives_with.induct) (auto dest: life_with_life split: option.splits if_splits)

text \<open>C3: No event is lost. Whatever fails, however often processes are restarted and in whatever order
  the streams are run, whatever the clocks, page sizes and stop signals: once the stored cursor of
  a stream is the cursor of a position of its log, every record of the log before that position has
  mapped to an event whose uid is in a stored object; and the store withholds no uid that is not in
  one. Only a range that is finished must not be run again.\<close>

theorem no_event_lost:
  assumes "scene_ok (scene_of en)" and "lives en ms (first_world en) = Some w" and "fst ` set ms \<subseteq> en_streams en"
    and "stream \<in> en_streams en" and "sq_get_cursor (w_state w) stream = Some c"
  shows "\<exists>p. p \<le> length (en_log en stream) \<and> c = en_cur en stream p \<and>
    (\<forall>i < p. \<exists>e. en_event en (en_log en stream ! i) = Inr e \<and> delivered (scene_of en) (look w) (ev_uid e)) \<and>
    {u. sq_expiry (w_state w) u \<noteq> None} \<subseteq> {u. delivered (scene_of en) (look w) u}"
  using cursor_delivered [OF first_lives [OF assms(1-3)], of stream c] seen_delivered [OF first_lives [OF assms(1-3)]]
    assms(4,5)
  by (auto simp: scene_of_def log_length_def log_event_def)

text \<open>C4: A backfill that reports that it is exhausted has delivered its range: whatever happened in
  earlier lives, every record of the range has mapped to an event whose uid is in a stored object.\<close>

theorem backfill_delivers_range:
  assumes "scene_ok (scene_of en)" and "lives en ms (first_world en) = Some w" and "fst ` set ms \<subseteq> en_streams en"
    and "stream \<in> en_streams en" and "\<not> finished (look w) stream"
    and "run (deps_of en stream m) (restart en w) = Some (Inr st, w')" and "rs_exhausted st"
    and "r \<in> set (en_log en stream)"
  shows "\<exists>e. en_event en r = Inr e \<and> delivered (scene_of en) (look w') (ev_uid e)"
proof -
  note run = run_reachable [OF assms(1) first_lives [OF assms(1-3)] assms(4-6)]
  from finished_delivered [OF run(1), of stream r] run(2) [OF refl assms(7)] assms(4,8) show ?thesis
    by (simp add: scene_of_def)
qed

lemma sample_digest: "inj_on (\<lambda>n. lake_digest id (nat_str n)) {..2}"
proof -
  have "lake_digest id (nat_str n) = nat_str n" if "n \<le> 2" for n
    using that length_nat_str [of n 1] by (simp add: lake_digest_def)
  then show ?thesis by (intro inj_onI) (auto dest: nat_str_inj)
qed

lemma sample_scene_ok:
  assumes "en_cur en = (\<lambda>_. nat_str)" "en_sha256 en = id" "en_streams en = {s}" "length (en_log en s) \<le> 2"
    "CHR ''/'' \<notin> set (lc_source_name (en_config en))"
  shows "scene_ok (scene_of en)"
  using assms inj_onD [OF sample_digest]
  by (auto simp: scene_ok_def scene_of_def log_length_def intro!: inj_onI)

lemma no_event_lost_witness:
  "\<exists>w. lives sample_env [(''okta'', Some 2), (''okta'', Some 1)] (first_world sample_env) = Some w \<and>
     delivered (scene_of sample_env) (look w) ''u''"
proof -
  have "map_option (\<lambda>w. sq_get_cursor (w_state w) ''okta'')
      (lives_with 3 sample_env [(''okta'', Some 2), (''okta'', Some 1)] (first_world sample_env)) = Some (Some ''1'')"
    by code_simp
  then obtain w where w: "lives_with 3 sample_env [(''okta'', Some 2), (''okta'', Some 1)] (first_world sample_env) = Some w"
    "sq_get_cursor (w_state w) ''okta'' = Some ''1''"
    by auto
  have scene: "scene_ok (scene_of sample_env)"
    by (rule sample_scene_ok [where s = "''okta''"]) (simp_all add: sample_env_def sample_config_def)
  from lives_with_lives [OF w(1)] have lives: "lives sample_env [(''okta'', Some 2), (''okta'', Some 1)] (first_world sample_env) = Some w" .
  have "fst ` set [(''okta'', Some 2), (''okta'', Some 1 :: nat option)] \<subseteq> en_streams sample_env"
    "''okta'' \<in> en_streams sample_env" by (simp_all add: sample_env_def)
  from no_event_lost [OF scene lives this w(2)] obtain p where p: "''1'' = en_cur sample_env ''okta'' p"
    "\<forall>i < p. \<exists>e. en_event sample_env (en_log sample_env ''okta'' ! i) = Inr e \<and>
       delivered (scene_of sample_env) (look w) (ev_uid e)"
    by blast
  have "nat_str 1 = ''1''" by code_simp
  moreover have "en_cur sample_env ''okta'' p = nat_str p" by (simp add: sample_env_def)
  ultimately have "nat_str p = nat_str 1" using p(1) by metis
  then have "0 < p" by (auto dest: nat_str_inj)
  then obtain e where e: "en_event sample_env (en_log sample_env ''okta'' ! 0) = Inr e"
    "delivered (scene_of sample_env) (look w) (ev_uid e)" using p(2) by blast
  have "en_event sample_env (en_log sample_env ''okta'' ! 0) = Inr (sample_event ''u'' 0)" by (simp add: sample_env_def)
  then have "ev_uid e = ''u''" using e(1) by (simp add: sample_event_def)
  with e(2) lives show ?thesis by metis
qed

lemma backfill_delivers_range_witness:
  "\<exists>st w. run (deps_of (range_env [''u'']) ''okta'' None) (restart (range_env [''u'']) (first_world (range_env [''u'']))) =
     Some (Inr st, w) \<and> delivered (scene_of (range_env [''u''])) (look w) ''u''"
proof -
  let ?en = "range_env [''u'']"
  have "case run_with 3 (deps_of ?en ''okta'' None) (restart ?en (first_world ?en)) of
      Some (Inr st, w) \<Rightarrow> rs_exhausted st | _ \<Rightarrow> False"
    by code_simp
  then obtain st w where st: "run_with 3 (deps_of ?en ''okta'' None) (restart ?en (first_world ?en)) = Some (Inr st, w)"
    "rs_exhausted st" by (auto split: option.splits sum.splits)
  have scene: "scene_ok (scene_of ?en)"
    by (rule sample_scene_ok [where s = "''okta''"]) (simp_all add: range_env_def sample_env_def sample_config_def)
  have unfinished: "\<not> finished (look (first_world ?en)) ''okta''" by code_simp
  have "\<exists>e. en_event ?en (sample_event ''u'' 0) = Inr e \<and> delivered (scene_of ?en) (look w) (ev_uid e)"
    by (rule backfill_delivers_range [OF scene lives.simps(1) _ _ unfinished run_with_run [OF st(1)] st(2)])
       (simp_all add: range_env_def sample_env_def)
  with run_with_run [OF st(1)] show ?thesis by (auto simp: range_env_def sample_env_def sample_event_def)
qed


definition range_body :: "string \<Rightarrow> (string \<times> json list) list" where
  "range_body u = map (\<lambda>c. (c, [JNull])) [''time'', ''class_uid'', ''category_uid'', ''activity_id'', ''type_uid'',
       ''severity_id'', ''status_id'', ''status'', ''status_detail'', ''message''] @
     [(''metadata'', [JObj [(''uid'', JStr u)]]), (''unmapped'', [JStr ''{}''])]"








text \<open>The bodies are the tables of the two events.\<close>

lemma range_bodies:
  "parquet_bytes plain_arrow [sample_event ''u'' 0] = Inr (range_body ''u'')"
  "parquet_bytes plain_arrow [sample_event ''v'' 0] = Inr (range_body ''v'')"
  by code_simp+

text \<open>Each life of a process, given a page limit, ends in a state from which the next starts: a
  sequence of lives is defined whatever the environment does.\<close>

lemma lives_end: "list_all (\<lambda>(stream, m). m \<noteq> None) ms \<Longrightarrow> lives en ms w \<noteq> None"
proof (induction en ms w rule: lives.induct)
  case (1 en w)
  then show ?case by simp
next
  case (2 en stream m ms w)
  then obtain k where m: "m = Some k" by auto
  obtain r w1 where "run (deps_of en stream (Some k)) (restart en w) = Some (r, w1)"
    using run_ends [of "deps_of en stream (Some k)" k "restart en w"] by (auto simp: deps_of_def)
  then have "life en stream m w = Some w1" by (simp add: life_def m)
  with 2 show ?case by auto
qed

end
