(* ===== verification/OktaTable.thy ===== *)
theory OktaTable
  imports OcsfSchema Json
begin

section \<open>The Okta mapping table\<close>

text \<open>
  \<open>src/ocsf_connector/mapping/okta_ocsf.yaml\<close> as data, and the loading of a table in
  \<open>OktaOcsfMapper.__post_init__\<close> of \<open>mapping/okta.py\<close>: every row is checked by \<open>_entry\<close>
  against the schema before a single event is mapped. A loaded table has the invariant that
  every class and activity in it exists in the schema (\<open>rules_ok\<close>), and the table of the
  repository loads.
\<close>

type_synonym rule = "int \<times> int"

definition okta_rows :: "(string \<times> int \<times> int) list" where
  "okta_rows =
    [(''user.session.start'', 3002, 1),
     (''user.authentication.sso'', 3002, 1),
     (''user.authentication.auth_via_mfa'', 3002, 6),
     (''user.authentication.verify'', 3002, 6),
     (''user.lifecycle.create'', 3001, 1),
     (''user.lifecycle.activate'', 3001, 2),
     (''user.lifecycle.unsuspend'', 3001, 2),
     (''user.lifecycle.deactivate'', 3001, 5),
     (''user.lifecycle.suspend'', 3001, 9),
     (''user.account.update_password'', 3001, 3),
     (''user.account.reset_password'', 3001, 4),
     (''user.mfa.factor.activate'', 3001, 10),
     (''system.mfa.factor.activate'', 3001, 10),
     (''user.account.subscriptions.update'', 3001, 99),
     (''application.user_membership.add'', 3005, 1),
     (''application.user_membership.remove'', 3005, 2),
     (''user.account.privilege.grant'', 3005, 1),
     (''application.user_membership.update'', 3005, 99),
     (''group.user_membership.add'', 3006, 3),
     (''group.user_membership.remove'', 3006, 4),
     (''application.lifecycle.create'', 3004, 1),
     (''application.lifecycle.update'', 3004, 3),
     (''application.lifecycle.delete'', 3004, 4),
     (''application.lifecycle.activate'', 3004, 10),
     (''application.lifecycle.deactivate'', 3004, 11),
     (''application.user_membership.change_username'', 3004, 3),
     (''policy.lifecycle.create'', 3004, 1),
     (''policy.lifecycle.update'', 3004, 3),
     (''policy.lifecycle.delete'', 3004, 4),
     (''policy.lifecycle.activate'', 3004, 10),
     (''policy.lifecycle.deactivate'', 3004, 11),
     (''policy.rule.add'', 3004, 1),
     (''policy.rule.update'', 3004, 3),
     (''policy.rule.delete'', 3004, 4),
     (''policy.rule.activate'', 3004, 10),
     (''policy.rule.deactivate'', 3004, 11),
     (''oauth2.as.created'', 3004, 1),
     (''app.oauth2.client.lifecycle.create'', 3004, 1),
     (''app.oauth2.client.lifecycle.activate'', 3004, 10),
     (''app.oauth2.client.lifecycle.update'', 3004, 3),
     (''app.oauth2.credentials.lifecycle.create'', 3004, 1),
     (''app.oauth2.credentials.lifecycle.activate'', 3004, 10),
     (''app.oauth2.credentials.lifecycle.deactivate'', 3004, 11),
     (''app.oauth2.credentials.lifecycle.delete'', 3004, 4),
     (''app.oauth2.key.rollover'', 3004, 3),
     (''app.oauth2.as.key.rollover'', 3004, 3),
     (''app.oauth2.client.read_client_secret'', 3004, 2),
     (''app.oauth2.admin.consent.grant'', 3004, 3),
     (''app.oauth2.client.privilege.grant'', 3004, 3),
     (''policy.mapping.create'', 3004, 1),
     (''directory.mapping.update'', 3004, 3),
     (''directory.linked_object.create'', 3004, 1),
     (''directory.app_user_profile.bootstrap'', 3004, 1),
     (''directory.user_profile.bootstrap'', 3004, 1),
     (''application.policy.sign_on.rule.create'', 3004, 1),
     (''application.policy.sign_on.update'', 3004, 3),
     (''zone.create'', 3004, 1),
     (''system.brand.create'', 3004, 1),
     (''system.rate_limit.configuration.update'', 3004, 3),
     (''security.threat.configuration.update'', 3004, 3),
     (''device.enrollment.create'', 3004, 6),
     (''device.lifecycle.activate'', 3004, 10),
     (''device.user.add'', 3004, 3),
     (''app.oauth2.token.grant'', 3002, 4),
     (''app.oauth2.token.grant.access_token'', 3002, 4),
     (''app.oauth2.token.grant.refresh_token'', 3002, 5),
     (''app.oauth2.authorize.code'', 3002, 3),
     (''app.oauth2.token.grant.id_token'', 3002, 99),
     (''security.request.blocked'', 0, 99),
     (''policy.evaluate_sign_on'', 0, 99),
     (''user.session.access_admin_app'', 0, 99),
     (''application.provision.user.push'', 0, 99),
     (''application.provision.user.sync'', 0, 99),
     (''application.provision.user.push_profile'', 0, 99),
     (''app.user_management.push_new_user_success'', 0, 99),
     (''app.app_instance.provision_sync_job.started'', 0, 99),
     (''app.app_instance.provision_sync_job.completed'', 0, 99),
     (''security.protected_action.attempt'', 0, 99),
     (''system.email.delivery'', 0, 99),
     (''user.session.context.change'', 0, 99)]"

definition TABLE_VERSION :: string where
  "TABLE_VERSION = ''okta-2026.10.12''"

text \<open>The document as \<open>yaml.safe_load\<close> makes it.\<close>

definition row_value :: "int \<times> int \<Rightarrow> json" where
  "row_value = (\<lambda>(c, a). JObj [(''class_uid'', JInt c), (''activity_id'', JInt a)])"

definition okta_document :: json_dict where
  "okta_document =
    [(''version'', JStr TABLE_VERSION), (''ocsf_version'', JStr VERSION),
     (''fallback'', row_value (0, 0)),
     (''events'', JObj (map (\<lambda>(name, r). (name, row_value r)) okta_rows))]"

text \<open>
  \<open>int(v)\<close>: a float, here its \<open>repr\<close>, is truncated; other values than numbers, truth values
  and strings raise.
\<close>

definition int_of_float :: "string \<Rightarrow> exn + int" where
  "int_of_float f =
     (let (sign, rest) = signed f;
          mantissa = takeWhile (\<lambda>c. c \<noteq> CHR ''e'') rest;
          (esign, exponent) = signed (drop (length mantissa + 1) rest);
          whole = takeWhile (\<lambda>c. c \<noteq> CHR ''.'') mantissa;
          fraction = drop (length whole + 1) mantissa;
          power = esign * int (digits_val exponent) - int (length fraction);
          digits = int (digits_val (whole @ fraction))
      in if rest = [] \<or> \<not> is_digit (hd rest) then Inl (ValueError f)
         else Inr (sign * (if 0 \<le> power then digits * 10 ^ nat power else digits div 10 ^ nat (- power))))"

definition py_int :: "json \<Rightarrow> exn + int" where
  "py_int v =
     (case v of
        JInt i \<Rightarrow> Inr i
      | JBool b \<Rightarrow> Inr (if b then 1 else 0)
      | JStr s \<Rightarrow> int_of_string s
      | JFloat f \<Rightarrow> int_of_float f
      | _ \<Rightarrow> Inl (RuntimeErr ''TypeError''))"

definition table_entry :: "json \<Rightarrow> string \<Rightarrow> exn + rule" where
  "table_entry v name =
     (case v of
        JObj d \<Rightarrow>
          (case (map_of d ''class_uid'', map_of d ''activity_id'') of
             (Some c, Some a) \<Rightarrow>
               res_bind (py_int c) (\<lambda>class_uid.
               res_bind (py_int a) (\<lambda>activity_id.
               (case map_of ACTIVITY_IDS class_uid of
                  None \<Rightarrow> Inl (ValueError name)
                | Some allowed \<Rightarrow>
                    (if activity_id \<notin> set allowed then Inl (ValueError name)
                     else Inr (class_uid, activity_id)))))
           | _ \<Rightarrow> Inl (ValueError name))
      | _ \<Rightarrow> Inl (ValueError name))"

record okta_rules =
  or_ocsf_version :: string
  or_mapping_version :: string
  or_fallback :: rule
  or_events :: "(string \<times> rule) list"

text \<open>An \<open>events\<close> that is not a mapping has no \<open>items\<close>.\<close>

definition load_rules :: "json \<Rightarrow> exn + okta_rules" where
  "load_rules document =
     (let table = (case document of JObj d \<Rightarrow> d | _ \<Rightarrow> []);
          versioned = (\<lambda>k default. case map_of table k of None \<Rightarrow> default | Some v \<Rightarrow> py_str v)
      in res_bind (table_entry (json_or (dict_get table ''fallback'') (JObj [])) ''fallback'') (\<lambda>fallback.
         (case json_or (dict_get table ''events'') (JObj []) of
            JObj rows \<Rightarrow>
              res_bind (res_map (\<lambda>(name, v). res_bind (table_entry v name) (\<lambda>r. Inr (name, r))) rows) (\<lambda>events.
              Inr \<lparr>or_ocsf_version = versioned ''ocsf_version'' ''1.3.0'',
                   or_mapping_version = versioned ''version'' ''unknown'',
                   or_fallback = fallback, or_events = events\<rparr>)
          | _ \<Rightarrow> Inl (RuntimeErr ''AttributeError''))))"

definition okta_rules :: okta_rules where
  "okta_rules = \<lparr>or_ocsf_version = VERSION, or_mapping_version = TABLE_VERSION,
     or_fallback = (0, 0), or_events = okta_rows\<rparr>"

definition rule_ok :: "rule \<Rightarrow> bool" where
  "rule_ok r \<longleftrightarrow> (case map_of ACTIVITY_IDS (fst r) of None \<Rightarrow> False | Some allowed \<Rightarrow> snd r \<in> set allowed)"

definition rules_ok :: "okta_rules \<Rightarrow> bool" where
  "rules_ok t \<longleftrightarrow> rule_ok (or_fallback t) \<and> list_all (\<lambda>(name, r). rule_ok r) (or_events t)"

lemma table_entry_ok: "table_entry v name = Inr r \<Longrightarrow> rule_ok r"
  by (auto simp: table_entry_def rule_ok_def res_bind_Inr_iff split: json.splits option.splits if_splits)

lemma rows_ok:
  "res_map (\<lambda>(name, v). res_bind (table_entry v name) (\<lambda>r. Inr (name, r))) rows = Inr events \<Longrightarrow>
     list_all (\<lambda>(name, r). rule_ok r) events"
  by (induction rows arbitrary: events) (auto simp: res_bind_Inr_iff intro: table_entry_ok)

lemma load_rules_ok: "load_rules document = Inr t \<Longrightarrow> rules_ok t"
proof -
  assume load: "load_rules document = Inr t"
  define table where "table = (case document of JObj d \<Rightarrow> d | _ \<Rightarrow> [])"
  obtain fallback rows events where "table_entry (json_or (dict_get table ''fallback'') (JObj [])) ''fallback'' = Inr fallback"
    "res_map (\<lambda>(name, v). res_bind (table_entry v name) (\<lambda>r. Inr (name, r))) rows = Inr events"
    "or_fallback t = fallback" "or_events t = events"
    using load unfolding load_rules_def Let_def table_def [symmetric]
    by (cases "json_or (dict_get table ''events'') (JObj [])") (auto simp: res_bind_Inr_iff)
  then show "rules_ok t" by (auto simp: rules_ok_def intro: table_entry_ok rows_ok)
qed

lemma rule_of_ok:
  "rules_ok t \<Longrightarrow> rule_ok (case map_of (or_events t) name of None \<Rightarrow> or_fallback t | Some r \<Rightarrow> r)"
  by (auto simp: rules_ok_def list_all_iff split: option.splits dest!: map_of_SomeD)

lemma rule_ok_class: "rule_ok (c, a) \<Longrightarrow> \<exists>d. map_of schema_classes c = Some d"
  by (auto simp: rule_ok_def ACTIVITY_IDS_def map_of_class_column split: option.splits)

text \<open>C22: Whatever table is given, what loads names only classes and activities the schema
  defines, the fallback included; and the table of the repository does load, to the rows it lists.\<close>

theorem table_loads_valid:
  "{t. load_rules document = Inr t} \<subseteq> {t. rules_ok t} \<and>
   load_rules (JObj okta_document) = Inr okta_rules"
proof
  show "{t. load_rules document = Inr t} \<subseteq> {t. rules_ok t}" using load_rules_ok by blast
  show "load_rules (JObj okta_document) = Inr okta_rules" by code_simp
qed

end
