(* ===== verification/OktaMapper.thy ===== *)
theory OktaMapper
  imports OktaTable Domain "HOL-Library.Sublist" "HOL-Library.Multiset"
begin

section \<open>The Okta mapper\<close>

text \<open>
  \<open>src/ocsf_connector/mapping/okta.py\<close>: from one Okta System Log record to an OCSF event.
  The record is read through a reader that remembers every path it found; what no read touched
  goes to \<open>unmapped\<close>. Two things of Python's \<open>datetime\<close> are parameters, \<open>fromisoformat\<close> (None
  where it raises \<open>ValueError\<close>) and \<open>timestamp\<close>, which for a time without an offset depends on
  the machine's zone and may raise; their values are rationals.

  The lemmas: which events the mapper makes and which table row decides it; that an event has
  only attributes its class defines and all it requires; what is kept under \<open>unmapped\<close>, path by
  path, and what is not; and when the mapper raises.
\<close>

definition STATUS_IDS :: "(string \<times> int) list" where
  "STATUS_IDS = [(''SUCCESS'', 1), (''FAILURE'', 2)]"

definition SEVERITY_IDS :: "(string \<times> int) list" where
  "SEVERITY_IDS = [(''DEBUG'', 1), (''INFO'', 1), (''WARN'', 3), (''ERROR'', 4), (''FATAL'', 6)]"

definition BASE_EVENT_CLASS_UID :: int where
  "BASE_EVENT_CLASS_UID = 0"

definition lookup_or :: "(string \<times> int) list \<Rightarrow> string \<Rightarrow> int \<Rightarrow> int" where
  "lookup_or table k missing = (case map_of table k of None \<Rightarrow> missing | Some v \<Rightarrow> v)"

subsection \<open>The reader\<close>

record reader =
  rd_source :: json_dict
  rd_consumed :: "string list list"

definition read :: "string list \<Rightarrow> (json, reader) io" where
  "read path r =
     (case json_at (JObj (rd_source r)) path of
        None \<Rightarrow> (Inr JNull, r)
      | Some v \<Rightarrow> (Inr v, r\<lparr>rd_consumed := List.insert path (rd_consumed r)\<rparr>))"

text \<open>\<open>del rest[path]\<close> where every step is into an object that has the key.\<close>

fun remove_path :: "string list \<Rightarrow> json_dict \<Rightarrow> json_dict" where
  "remove_path [] d = d"
| "remove_path [k] d = AList.delete k d"
| "remove_path (k # ks) d =
     (case map_of d k of
        Some (JObj sub) \<Rightarrow> AList.update k (JObj (remove_path ks sub)) d
      | _ \<Rightarrow> d)"

fun without_empties :: "json_dict \<Rightarrow> json_dict" where
  "without_empties [] = []"
| "without_empties ((k, JObj d) # rest) =
     (let nested = without_empties d
      in if nested = [] then without_empties rest else (k, JObj nested) # without_empties rest)"
| "without_empties ((k, v) # rest) =
     (if v = JNull \<or> v = JList [] \<or> v = JStr [] then without_empties rest
      else (k, v) # without_empties rest)"

definition leftovers :: "json_dict \<Rightarrow> string list list \<Rightarrow> json_dict" where
  "leftovers source consumed =
     without_empties (foldl (\<lambda>d p. remove_path p d) source (rev (sort_key length consumed)))"

subsection \<open>The pieces of a body\<close>

record ('t) okta_config =
  oc_service_name :: string
  oc_rules :: okta_rules
  oc_on_unmapped :: bool
  oc_fromisoformat :: "string \<Rightarrow> 't option"
  oc_timestamp :: "'t \<Rightarrow> exn + rat"

text \<open>\<open>event_rules\<close>: the loaded rows, as class and activity under each event type.\<close>

definition event_rules :: "'t okta_config \<Rightarrow> (string \<times> rule) list" where
  "event_rules cfg = map (\<lambda>(name, class_uid, activity_id). (name, (class_uid, activity_id))) (or_events (oc_rules cfg))"

definition replace_z :: "string \<Rightarrow> string" where
  "replace_z s = concat (map (\<lambda>c. if c = CHR ''Z'' then ''+00:00'' else [c]) s)"

definition epoch_ms :: "'t okta_config \<Rightarrow> json \<Rightarrow> exn + int" where
  "epoch_ms cfg published =
     (case published of
        JInt i \<Rightarrow> Inr i
      | JStr s \<Rightarrow>
          (if s = [] then Inr 0
           else (case oc_fromisoformat cfg (replace_z s) of
                   None \<Rightarrow> Inr 0
                 | Some parsed \<Rightarrow> res_bind (oc_timestamp cfg parsed) (\<lambda>t. Inr (trunc (t * 1000)))))
      | _ \<Rightarrow> Inr 0)"

definition status_id :: "json \<Rightarrow> int" where
  "status_id result = (if \<not> truthy result then 0 else lookup_or STATUS_IDS (str_upper (py_str result)) 99)"

definition okta_actor :: "(json_dict, reader) io" where
  "okta_actor =
     io_bind (read [''actor'', ''type'']) (\<lambda>t.
     let actor_type = py_str (json_or t (JStr [])) in
     if actor_type \<noteq> [] \<and> str_casefold actor_type \<noteq> ''user'' then io_return []
     else
       (let field = (\<lambda>source_key target_key user.
          io_bind (read [''actor'', source_key]) (\<lambda>v.
          io_return (if truthy v \<and> str_casefold (py_str v) \<noteq> ''unknown''
                     then AList.update target_key (JStr (py_str v)) user else user)))
        in io_bind (field ''id'' ''uid'' []) (\<lambda>u.
           io_bind (field ''displayName'' ''name'' u) (field ''alternateId'' ''email_addr''))))"

definition src_endpoint :: "(json_dict, reader) io" where
  "src_endpoint =
     io_bind (read [''client'', ''ipAddress'']) (\<lambda>address.
     let endpoint = (if truthy address then [(''ip'', JStr (py_str address))] else []) in
     io_bind (read [''client'', ''geographicalContext'']) (\<lambda>location.
     io_return
       (case location of
          JObj d \<Rightarrow>
            (let mapped = [(''city'', dict_get d ''city''), (''country'', dict_get d ''country''),
                           (''region'', dict_get d ''state'')];
                 trimmed = map (\<lambda>(k, v). (k, JStr (py_str v))) (filter (\<lambda>(k, v). truthy v) mapped)
             in if trimmed = [] then endpoint else AList.update ''location'' (JObj trimmed) endpoint)
        | _ \<Rightarrow> endpoint)))"

text \<open>The first object of \<open>target\<close> of one of the types, not marked as read.\<close>

definition first_target :: "string list option \<Rightarrow> json_dict \<Rightarrow> json_dict" where
  "first_target types source =
     (case dict_get source ''target'' of
        JList targets \<Rightarrow>
          (case filter (\<lambda>t. case t of
                  JObj d \<Rightarrow> (case types of None \<Rightarrow> True
                     | Some ts \<Rightarrow> py_str (json_or (dict_get d ''type'') (JStr [])) \<in> set ts)
                | _ \<Rightarrow> False) targets of
             JObj d # _ \<Rightarrow> d
           | _ \<Rightarrow> [])
      | _ \<Rightarrow> [])"

definition target_text :: "json_dict \<Rightarrow> string list \<Rightarrow> string \<Rightarrow> json" where
  "target_text target keys missing =
     JStr (py_str (foldr (\<lambda>k rest. json_or (dict_get target k) rest) keys (JStr missing)))"

definition is_mfa :: "(bool, reader) io" where
  "is_mfa =
     io_bind (read [''authenticationContext'', ''authenticationStep'']) (\<lambda>step.
     io_bind (read [''authenticationContext'', ''credentialProvider'']) (\<lambda>p.
     io_return (truthy step \<or> str_contains ''FACTOR'' (str_upper (py_str (json_or p (JStr [])))))))"

definition class_objects :: "json_dict \<Rightarrow> int \<Rightarrow> json_dict \<Rightarrow> json_dict" where
  "class_objects source class_uid candidate =
     (if class_uid = 3004 then
        (let entity = first_target None source
         in AList.update ''entity'' (JObj
              [(''name'', target_text entity [''displayName'', ''alternateId''] ''unknown''),
               (''uid'', target_text entity [''id''] []), (''type'', target_text entity [''type''] [])]) candidate)
      else if class_uid = 3005 then
        (let granted = first_target (Some [''AppInstance'', ''AppUser'']) source
         in AList.update ''privileges''
              (JList [target_text granted [''displayName'', ''alternateId''] ''unknown'']) candidate)
      else if class_uid = 3006 then
        (let group = first_target (Some [''UserGroup'']) source
         in AList.update ''group'' (JObj
              [(''name'', target_text group [''displayName''] ''unknown''),
               (''uid'', target_text group [''id''] [])]) candidate)
      else candidate)"

definition fill_required :: "json_dict \<Rightarrow> int \<Rightarrow> json_dict" where
  "fill_required body class_uid =
     foldl (\<lambda>b name.
        if truthy (dict_get b name) then b
        else AList.update name
          (if name = ''privileges'' then JList [JStr ''unknown''] else JObj [(''name'', JStr ''unknown'')]) b)
       body (case map_of REQUIRED_OBJECTS class_uid of None \<Rightarrow> [] | Some names \<Rightarrow> names)"

definition allowed_attributes :: "int \<Rightarrow> string list" where
  "allowed_attributes class_uid =
     BASE_ATTRIBUTES @ (case map_of CLASS_ATTRIBUTES class_uid of None \<Rightarrow> [] | Some attrs \<Rightarrow> attrs)"

subsection \<open>The body and the event\<close>

definition put_if :: "bool \<Rightarrow> string \<Rightarrow> json \<Rightarrow> json_dict \<Rightarrow> json_dict" where
  "put_if b k v candidate = (if b then AList.update k v candidate else candidate)"

definition base_candidate ::
  "'t okta_config \<Rightarrow> int \<Rightarrow> int \<Rightarrow> string \<Rightarrow> json \<Rightarrow> json \<Rightarrow> int \<Rightarrow> json \<Rightarrow> json \<Rightarrow> json_dict" where
  "base_candidate cfg class_uid activity_id event_code published outcome time severity uuid =
     [(''class_uid'', JInt class_uid),
      (''category_uid'', JInt (case map_of CLASS_CATEGORY_UID class_uid of None \<Rightarrow> 0 | Some c \<Rightarrow> c)),
      (''activity_id'', JInt activity_id),
      (''type_uid'', JInt (class_uid * 100 + activity_id)),
      (''time'', JInt time),
      (''severity_id'', JInt (lookup_or SEVERITY_IDS (str_upper (py_str (json_or severity (JStr [])))) 0)),
      (''status_id'', JInt (status_id outcome)),
      (''metadata'', JObj
        [(''version'', JStr (or_ocsf_version (oc_rules cfg))),
         (''uid'', JStr (py_str (json_or uuid (JStr [])))),
         (''original_time'', JStr (if published = JNull then [] else py_str published)),
         (''event_code'', JStr event_code),
         (''product'', JObj [(''name'', JStr ''Okta System Log''), (''vendor_name'', JStr ''Okta'')]),
         (''labels'', JList [JStr (''okta-ocsf-mapping:'' @ or_mapping_version (oc_rules cfg))])])]"

text \<open>What a body says beyond the base attributes, then the attributes the class defines.\<close>

definition finish_body ::
  "'t okta_config \<Rightarrow> int \<Rightarrow> json \<Rightarrow> json \<Rightarrow> json \<Rightarrow> json_dict \<Rightarrow> json_dict \<Rightarrow> json \<Rightarrow> json \<Rightarrow> bool \<Rightarrow>
   json_dict \<Rightarrow> json_dict \<Rightarrow> json_dict" where
  "finish_body cfg class_uid message outcome reason actor endpoint user_agent session mfa source c0 =
     (let c1 = put_if (truthy message) ''message'' (JStr (py_str message)) c0;
          c2 = put_if (truthy outcome) ''status'' (JStr (str_title (py_str outcome))) c1;
          c3 = put_if (truthy reason) ''status_detail'' (JStr (py_str reason)) c2;
          c4 = put_if (actor \<noteq> []) ''user'' (JObj actor) c3;
          c5 = put_if (actor \<noteq> []) ''actor'' (JObj [(''user'', JObj actor)]) c4;
          c6 = put_if (endpoint \<noteq> []) ''src_endpoint'' (JObj endpoint) c5;
          c7 = put_if (truthy user_agent) ''http_request'' (JObj [(''user_agent'', JStr (py_str user_agent))]) c6;
          c8 = put_if (truthy session) ''session'' (JObj [(''uid'', JStr (py_str session))]) c7;
          c9 = put_if (class_uid = 3002) ''service'' (JObj [(''name'',
                 target_text (first_target (Some [''AppInstance'', ''AppUser'']) source) [''displayName'']
                   (oc_service_name cfg))]) c8;
          c10 = put_if (class_uid = 3002) ''is_mfa'' (JBool mfa) c9;
          candidate = class_objects source class_uid c10
      in fill_required (filter (\<lambda>(name, v). name \<in> set (allowed_attributes class_uid)) candidate) class_uid)"

definition okta_body ::
  "'t okta_config \<Rightarrow> int \<Rightarrow> int \<Rightarrow> string \<Rightarrow> (json_dict, reader) io" where
  "okta_body cfg class_uid activity_id event_code =
     io_bind (read [''published'']) (\<lambda>published.
     io_bind (read [''outcome'', ''result'']) (\<lambda>outcome.
     io_bind (\<lambda>r. (epoch_ms cfg published, r)) (\<lambda>time.
     io_bind (read [''severity'']) (\<lambda>severity.
     io_bind (read [''uuid'']) (\<lambda>uuid.
     io_bind (read [''displayMessage'']) (\<lambda>message.
     io_bind (read [''outcome'', ''reason'']) (\<lambda>reason.
     io_bind okta_actor (\<lambda>actor.
     io_bind src_endpoint (\<lambda>endpoint.
     io_bind (read [''client'', ''userAgent'', ''rawUserAgent'']) (\<lambda>user_agent.
     io_bind (read [''authenticationContext'', ''externalSessionId'']) (\<lambda>session.
     io_bind (if class_uid = 3002 then is_mfa else io_return False) (\<lambda>mfa.
     io_bind (\<lambda>r. (Inr (rd_source r), r)) (\<lambda>source.
     io_return
       (finish_body cfg class_uid message outcome reason actor endpoint user_agent session mfa source
          (base_candidate cfg class_uid activity_id event_code published outcome time severity uuid)))))))))))))))"

text \<open>The mapper's state: \<open>unmapped_event_types\<close>, and the calls of \<open>on_unmapped\<close>.\<close>

record mapper_state =
  um_counts :: "(string \<times> nat) list"
  um_reported :: "string list"

definition count_unmapped :: "'t okta_config \<Rightarrow> string \<Rightarrow> mapper_state \<Rightarrow> mapper_state" where
  "count_unmapped cfg event_type st =
     st\<lparr>um_counts := AList.update event_type
          ((case map_of (um_counts st) event_type of None \<Rightarrow> 0 | Some n \<Rightarrow> n) + 1) (um_counts st),
        um_reported := (if oc_on_unmapped cfg then um_reported st @ [event_type] else um_reported st)\<rparr>"

definition json_int :: "json \<Rightarrow> int" where
  "json_int v = (case v of JInt i \<Rightarrow> i | _ \<Rightarrow> 0)"

definition metadata_uid :: "json_dict \<Rightarrow> string" where
  "metadata_uid body =
     (case dict_get body ''metadata'' of
        JObj m \<Rightarrow> (case map_of m ''uid'' of None \<Rightarrow> [] | Some v \<Rightarrow> py_str v)
      | _ \<Rightarrow> [])"

definition okta_source_of :: "json \<Rightarrow> json_dict" where
  "okta_source_of record = (case record of JObj d \<Rightarrow> d | _ \<Rightarrow> [])"

definition okta_map :: "'t okta_config \<Rightarrow> json \<Rightarrow> (ocsf_event, mapper_state) io" where
  "okta_map cfg record st =
     (let source = okta_source_of record;
          (code, r1) = read [''eventType''] \<lparr>rd_source = source, rd_consumed = []\<rparr>;
          event_type = py_str (json_or (case code of Inl _ \<Rightarrow> JNull | Inr v \<Rightarrow> v) (JStr []));
          known = map_of (or_events (oc_rules cfg)) event_type;
          st' = (case known of None \<Rightarrow> count_unmapped cfg event_type st | Some _ \<Rightarrow> st);
          (class_uid, activity_id) = (case known of None \<Rightarrow> or_fallback (oc_rules cfg) | Some r \<Rightarrow> r)
      in (case okta_body cfg class_uid activity_id event_type r1 of
            (Inl x, _) \<Rightarrow> (Inl x, st')
          | (Inr body, r2) \<Rightarrow>
              (let full = AList.update ''unmapped'' (JObj (leftovers source (rd_consumed r2))) body
               in (Inr \<lparr>ev_class_uid = class_uid, ev_time_ms = json_int (dict_get full ''time''),
                       ev_uid = metadata_uid full, ev_body = full\<rparr>, st'))))"

subsection \<open>The body as a function of the record\<close>

definition value_at :: "json_dict \<Rightarrow> string list \<Rightarrow> json" where
  "value_at source path = (case json_at (JObj source) path of None \<Rightarrow> JNull | Some v \<Rightarrow> v)"

text \<open>
  A call that, run on any reader of \<open>source\<close>, returns \<open>x\<close> and marks those of \<open>paths\<close> that the
  record has. The rules run a reading call symbolically.
\<close>

definition reads :: "json_dict \<Rightarrow> ('a, reader) io \<Rightarrow> 'a \<Rightarrow> string list list \<Rightarrow> bool" where
  "reads source m x paths \<longleftrightarrow>
     (\<forall>r. rd_source r = source \<longrightarrow>
        (\<exists>r'. m r = (Inr x, r') \<and> rd_source r' = source \<and>
           (distinct (rd_consumed r) \<longrightarrow> distinct (rd_consumed r')) \<and>
           set (rd_consumed r') = set (rd_consumed r) \<union> {p \<in> set paths. json_at (JObj source) p \<noteq> None}))"

named_theorems reads_intros \<open>rules that run a reading call\<close>

lemma readsE:
  assumes "reads s m x ps" and "rd_source r = s"
  obtains r' where "m r = (Inr x, r')" "rd_source r' = s"
    "distinct (rd_consumed r) \<longrightarrow> distinct (rd_consumed r')"
    "set (rd_consumed r') = set (rd_consumed r) \<union> {p \<in> set ps. json_at (JObj s) p \<noteq> None}"
  using assms unfolding reads_def by blast

lemma reads_read [reads_intros]: "reads s (read p) (value_at s p) [p]"
  unfolding reads_def by (auto simp: read_def value_at_def split: option.splits)

lemma reads_return [reads_intros]: "reads s (io_return x) x []"
  unfolding reads_def by (auto simp: io_return_def)

lemma reads_source [reads_intros]: "reads s (\<lambda>r. (Inr (rd_source r), r)) s []"
  unfolding reads_def by auto

lemma reads_value: "v = Inr x \<Longrightarrow> reads s (\<lambda>r. (v, r)) x []"
  unfolding reads_def by auto

lemma reads_bind [reads_intros]:
  assumes "reads s m x ps" and "reads s (g x) y qs"
  shows "reads s (io_bind m g) y (ps @ qs)"
  unfolding reads_def
proof (intro allI impI)
  fix r :: reader assume "rd_source r = s"
  with assms(1) obtain r1 where r1: "m r = (Inr x, r1)" "rd_source r1 = s"
    "distinct (rd_consumed r) \<longrightarrow> distinct (rd_consumed r1)"
    "set (rd_consumed r1) = set (rd_consumed r) \<union> {p \<in> set ps. json_at (JObj s) p \<noteq> None}"
    by (rule readsE)
  from assms(2) r1(2) obtain r2 where "g x r1 = (Inr y, r2)" "rd_source r2 = s"
    "distinct (rd_consumed r1) \<longrightarrow> distinct (rd_consumed r2)"
    "set (rd_consumed r2) = set (rd_consumed r1) \<union> {p \<in> set qs. json_at (JObj s) p \<noteq> None}"
    by (rule readsE)
  with r1 show "\<exists>r'. io_bind m g r = (Inr y, r') \<and> rd_source r' = s \<and>
      (distinct (rd_consumed r) \<longrightarrow> distinct (rd_consumed r')) \<and>
      set (rd_consumed r') = set (rd_consumed r) \<union> {p \<in> set (ps @ qs). json_at (JObj s) p \<noteq> None}"
    by (intro exI [of _ r2]) (auto simp: io_bind_def)
qed

lemma reads_if [reads_intros]:
  "reads s m x ps \<Longrightarrow> reads s n y qs \<Longrightarrow>
   reads s (if b then m else n) (if b then x else y) (if b then ps else qs)"
  by simp

lemma reads_then: "b \<Longrightarrow> reads s m x ps \<Longrightarrow> reads s (if b then m else n) x ps"
  by simp

lemma reads_else: "\<not> b \<Longrightarrow> reads s n x ps \<Longrightarrow> reads s (if b then m else n) x ps"
  by simp

text \<open>One attribute of the actor, kept unless it is a placeholder.\<close>

definition with_field :: "json_dict \<Rightarrow> string \<Rightarrow> string \<Rightarrow> json_dict \<Rightarrow> json_dict" where
  "with_field source source_key target_key user =
     (let v = value_at source [''actor'', source_key]
      in if truthy v \<and> str_casefold (py_str v) \<noteq> ''unknown''
         then AList.update target_key (JStr (py_str v)) user else user)"

text \<open>The acting person: no type, or a type that is \<open>user\<close> in any case.\<close>

definition person_actor :: "json_dict \<Rightarrow> bool" where
  "person_actor source \<longleftrightarrow>
     (let s = py_str (json_or (value_at source [''actor'', ''type'']) (JStr []))
      in s = [] \<or> str_casefold s = ''user'')"

definition actor_of :: "json_dict \<Rightarrow> json_dict" where
  "actor_of source =
     (if person_actor source
      then with_field source ''alternateId'' ''email_addr''
             (with_field source ''displayName'' ''name'' (with_field source ''id'' ''uid'' []))
      else [])"

definition actor_paths :: "json_dict \<Rightarrow> string list list" where
  "actor_paths source =
     [''actor'', ''type''] #
     (if person_actor source
      then [[''actor'', ''id''], [''actor'', ''displayName''], [''actor'', ''alternateId'']] else [])"

lemma actor_reads [reads_intros]: "reads s okta_actor (actor_of s) (actor_paths s)"
proof (cases "person_actor s")
  case True
  then have person: "\<not> (py_str (json_or (value_at s [''actor'', ''type'']) (JStr [])) \<noteq> [] \<and>
      str_casefold (py_str (json_or (value_at s [''actor'', ''type'']) (JStr []))) \<noteq> ''user'')"
    by (simp add: person_actor_def Let_def)
  have "reads s okta_actor (actor_of s)
      ([[''actor'', ''type'']] @ ([[''actor'', ''id'']] @ []) @ ([[''actor'', ''displayName'']] @ []) @
       [[''actor'', ''alternateId'']] @ [])"
    unfolding okta_actor_def actor_of_def with_field_def Let_def if_P [OF True]
    by (rule reads_bind, rule reads_read, rule reads_else, rule person, (rule reads_bind reads_read reads_return)+)
  with True show ?thesis by (simp add: actor_paths_def)
next
  case False
  then have machine: "py_str (json_or (value_at s [''actor'', ''type'']) (JStr [])) \<noteq> [] \<and>
      str_casefold (py_str (json_or (value_at s [''actor'', ''type'']) (JStr []))) \<noteq> ''user''"
    by (simp add: person_actor_def Let_def)
  have "reads s okta_actor (actor_of s) ([[''actor'', ''type'']] @ [])"
    unfolding okta_actor_def actor_of_def Let_def if_not_P [OF False]
    by (rule reads_bind, rule reads_read, rule reads_then, rule machine, rule reads_return)
  with False show ?thesis by (simp add: actor_paths_def)
qed

definition endpoint_of :: "json_dict \<Rightarrow> json_dict" where
  "endpoint_of source =
     (let address = value_at source [''client'', ''ipAddress''];
          endpoint = (if truthy address then [(''ip'', JStr (py_str address))] else [])
      in (case value_at source [''client'', ''geographicalContext''] of
            JObj d \<Rightarrow>
              (let mapped = [(''city'', dict_get d ''city''), (''country'', dict_get d ''country''),
                             (''region'', dict_get d ''state'')];
                   trimmed = map (\<lambda>(k, v). (k, JStr (py_str v))) (filter (\<lambda>(k, v). truthy v) mapped)
               in if trimmed = [] then endpoint else AList.update ''location'' (JObj trimmed) endpoint)
          | _ \<Rightarrow> endpoint))"

lemma endpoint_reads [reads_intros]:
  "reads s src_endpoint (endpoint_of s)
     ([[''client'', ''ipAddress'']] @ [[''client'', ''geographicalContext'']] @ [])"
  unfolding src_endpoint_def endpoint_of_def Let_def by (rule reads_intros)+

definition mfa_of :: "json_dict \<Rightarrow> bool" where
  "mfa_of source \<longleftrightarrow> truthy (value_at source [''authenticationContext'', ''authenticationStep'']) \<or>
     str_contains ''FACTOR'' (str_upper (py_str (json_or
       (value_at source [''authenticationContext'', ''credentialProvider'']) (JStr []))))"

lemma mfa_reads [reads_intros]:
  "reads s is_mfa (mfa_of s)
     ([[''authenticationContext'', ''authenticationStep'']] @
      [[''authenticationContext'', ''credentialProvider'']] @ [])"
  unfolding is_mfa_def mfa_of_def by (rule reads_intros)+

definition body_of :: "'t okta_config \<Rightarrow> int \<Rightarrow> int \<Rightarrow> string \<Rightarrow> int \<Rightarrow> json_dict \<Rightarrow> json_dict" where
  "body_of cfg class_uid activity_id event_code time s =
     finish_body cfg class_uid (value_at s [''displayMessage'']) (value_at s [''outcome'', ''result''])
       (value_at s [''outcome'', ''reason'']) (actor_of s) (endpoint_of s)
       (value_at s [''client'', ''userAgent'', ''rawUserAgent''])
       (value_at s [''authenticationContext'', ''externalSessionId''])
       (if class_uid = 3002 then mfa_of s else False) s
       (base_candidate cfg class_uid activity_id event_code (value_at s [''published''])
          (value_at s [''outcome'', ''result'']) time (value_at s [''severity'']) (value_at s [''uuid'']))"

definition body_paths :: "int \<Rightarrow> json_dict \<Rightarrow> string list list" where
  "body_paths class_uid s =
     [[''published''], [''outcome'', ''result''], [''severity''], [''uuid''], [''displayMessage''],
      [''outcome'', ''reason'']] @ actor_paths s @
     [[''client'', ''ipAddress''], [''client'', ''geographicalContext''],
      [''client'', ''userAgent'', ''rawUserAgent''], [''authenticationContext'', ''externalSessionId'']] @
     (if class_uid = 3002
      then [[''authenticationContext'', ''authenticationStep''],
            [''authenticationContext'', ''credentialProvider'']] else [])"

lemma body_reads:
  assumes "epoch_ms cfg (value_at s [''published'']) = Inr t"
  shows "reads s (okta_body cfg class_uid activity_id code)
    (body_of cfg class_uid activity_id code t s) (body_paths class_uid s)"
proof -
  have "reads s (okta_body cfg class_uid activity_id code) (body_of cfg class_uid activity_id code t s)
     ([[''published'']] @ [[''outcome'', ''result'']] @ [] @ [[''severity'']] @ [[''uuid'']] @
      [[''displayMessage'']] @ [[''outcome'', ''reason'']] @ actor_paths s @
      ([[''client'', ''ipAddress'']] @ [[''client'', ''geographicalContext'']] @ []) @
      [[''client'', ''userAgent'', ''rawUserAgent'']] @ [[''authenticationContext'', ''externalSessionId'']] @
      (if class_uid = 3002 then [[''authenticationContext'', ''authenticationStep'']] @
        [[''authenticationContext'', ''credentialProvider'']] @ [] else []) @ [] @ [])"
    unfolding okta_body_def body_of_def
    by (rule reads_bind reads_read actor_reads endpoint_reads reads_value [OF assms] reads_source
          reads_if mfa_reads reads_return)+
  then show ?thesis
    by (simp only: body_paths_def append_Cons append_Nil append_Nil2 append_assoc cong: if_cong)
qed

subsection \<open>What is left of the record\<close>

text \<open>Objects with distinct keys at every level, as every parsed record has.\<close>

fun keys_ok :: "json \<Rightarrow> bool" where
  "keys_ok (JObj d) = (distinct (map fst d) \<and> list_all (\<lambda>(k, v). keys_ok v) d)"
| "keys_ok v = True"

definition is_obj :: "json \<Rightarrow> bool" where
  "is_obj v = (case v of JObj _ \<Rightarrow> True | _ \<Rightarrow> False)"

definition kept_leaf :: "json \<Rightarrow> bool" where
  "kept_leaf v \<longleftrightarrow> \<not> is_obj v \<and> v \<noteq> JNull \<and> v \<noteq> JList [] \<and> v \<noteq> JStr []"

lemma is_obj_JObj [simp]: "is_obj (JObj d)"
  by (simp add: is_obj_def)

lemma map_of_delete [simp]: "map_of (AList.delete k al) = (map_of al)(k := None)"
  by (rule delete_conv')

lemma remove_path_leaf:
  assumes "p \<noteq> []" and "\<not> is_obj v"
  shows "json_at (JObj (remove_path p d)) q = Some v \<longleftrightarrow> json_at (JObj d) q = Some v \<and> \<not> prefix p q"
  using assms
proof (induction p d arbitrary: q rule: remove_path.induct)
  case (1 d)
  then show ?case by simp
next
  case (2 k d)
  then show ?case by (cases q) (auto split: option.splits)
next
  case (3 k l ks d)
  show ?case
  proof (cases q)
    case Nil
    with 3 show ?thesis by auto
  next
    case (Cons a qs)
    show ?thesis
    proof (cases "\<exists>sub. map_of d k = Some (JObj sub)")
      case True
      then obtain sub where sub: "map_of d k = Some (JObj sub)" by blast
      have "json_at (JObj (remove_path (l # ks) sub)) qs = Some v \<longleftrightarrow>
          json_at (JObj sub) qs = Some v \<and> \<not> prefix (l # ks) qs"
        using "3.IH" [OF sub refl] "3.prems" by simp
      with sub Cons show ?thesis by auto
    next
      case False
      then have same: "remove_path (k # l # ks) d = d" by (auto split: option.splits json.splits)
      have "\<not> prefix (k # l # ks) q" if "json_at (JObj d) q = Some v"
      proof
        assume "prefix (k # l # ks) q"
        then obtain zs where "q = k # l # ks @ zs" by (auto simp: prefix_def)
        with that False show False by (auto split: option.splits elim: json_at.elims)
      qed
      with same show ?thesis by auto
    qed
  qed
qed

lemma keys_ok_delete: "keys_ok (JObj d) \<Longrightarrow> keys_ok (JObj (AList.delete k d))"
  by (auto simp: list_all_iff distinct_delete) (auto simp: AList.delete_eq)

lemma keys_ok_update: "keys_ok (JObj d) \<Longrightarrow> keys_ok v \<Longrightarrow> keys_ok (JObj (AList.update k v d))"
  by (induction d) (auto simp: list_all_iff dom_update)

lemma keys_ok_sub: "keys_ok (JObj d) \<Longrightarrow> map_of d k = Some v \<Longrightarrow> keys_ok v"
  by (auto simp: list_all_iff dest!: map_of_SomeD)

lemma keys_ok_remove: "keys_ok (JObj d) \<Longrightarrow> keys_ok (JObj (remove_path p d))"
proof (induction p d rule: remove_path.induct)
  case (3 k l ks d)
  then show ?case
    by (auto split: option.split json.split simp del: keys_ok.simps intro!: keys_ok_update dest: keys_ok_sub)
qed (simp_all add: keys_ok_delete del: keys_ok.simps)

lemma removals_leaf:
  assumes "[] \<notin> set C" and "\<not> is_obj v"
  shows "json_at (JObj (foldl (\<lambda>d p. remove_path p d) d C)) q = Some v \<longleftrightarrow>
     json_at (JObj d) q = Some v \<and> \<not> (\<exists>p \<in> set C. prefix p q)"
  using assms
proof (induction C arbitrary: d)
  case Nil
  then show ?case by simp
next
  case (Cons p C)
  then show ?case using remove_path_leaf [of p v d q] by auto
qed

lemma keys_ok_removals: "keys_ok (JObj d) \<Longrightarrow> keys_ok (JObj (foldl (\<lambda>d p. remove_path p d) d C))"
  by (induction C arbitrary: d) (simp_all add: keys_ok_remove del: keys_ok.simps)

lemma without_empties_keys: "fst ` set (without_empties d) \<subseteq> fst ` set d"
proof (induction d rule: without_empties.induct)
  case (2 k d rest)
  then show ?case by (cases "without_empties d = []") auto
qed (auto split: if_splits)

lemma without_empties_leaf_step:
  assumes "keys_ok (JObj ((k, w) # rest))" and "\<not> is_obj v" and "\<not> is_obj w"
    and eq: "without_empties ((k, w) # rest) = (if kept_leaf w then (k, w) # without_empties rest else without_empties rest)"
    and IH: "\<And>q. json_at (JObj (without_empties rest)) q = Some v \<longleftrightarrow> json_at (JObj rest) q = Some v \<and> kept_leaf v"
  shows "json_at (JObj (without_empties ((k, w) # rest))) q = Some v \<longleftrightarrow>
    json_at (JObj ((k, w) # rest)) q = Some v \<and> kept_leaf v"
proof (cases q)
  case Nil
  with assms(2) show ?thesis by auto
next
  case (Cons a as)
  have absent: "map_of (without_empties rest) k = None" "map_of rest k = None"
    using assms(1) without_empties_keys [of rest] by (auto simp: map_of_eq_None_iff)
  have "json_at w as = Some v \<longleftrightarrow> as = [] \<and> w = v"
    using assms(3) by (cases as; cases w) (auto simp: is_obj_def)
  with IH [of q] absent show ?thesis by (auto simp: eq Cons)
qed

lemma without_empties_leaf:
  assumes "keys_ok (JObj d)" and "\<not> is_obj v"
  shows "json_at (JObj (without_empties d)) q = Some v \<longleftrightarrow> json_at (JObj d) q = Some v \<and> kept_leaf v"
  using assms
proof (induction d arbitrary: q rule: without_empties.induct)
  case 1
  then show ?case by (cases q) auto
next
  case (2 k d rest)
  show ?case
  proof (cases q)
    case Nil
    with 2 show ?thesis by (auto simp: Let_def)
  next
    case (Cons a as)
    have absent: "map_of (without_empties rest) k = None" "map_of rest k = None"
      using "2.prems"(1) without_empties_keys [of rest] by (auto simp: map_of_eq_None_iff)
    have inner: "json_at (JObj (without_empties d)) as = Some v \<longleftrightarrow> json_at (JObj d) as = Some v \<and> kept_leaf v"
      using "2.IH"(1) "2.prems" by simp
    have outer: "json_at (JObj (without_empties rest)) q = Some v \<longleftrightarrow> json_at (JObj rest) q = Some v \<and> kept_leaf v"
      using "2.IH"(2,3) "2.prems" by (cases "without_empties d = []") simp_all
    show ?thesis
    proof (cases "a = k")
      case True
      with inner absent "2.prems"(2) show ?thesis
        by (cases as) (auto simp: Cons Let_def)
    next
      case False
      with outer show ?thesis by (simp add: Cons Let_def)
    qed
  qed
qed (rule without_empties_leaf_step; auto simp: kept_leaf_def is_obj_def split: if_splits)+

lemma leftovers_leaf:
  assumes "keys_ok (JObj s)" and "[] \<notin> set C" and "\<not> is_obj v"
  shows "json_at (JObj (leftovers s C)) q = Some v \<longleftrightarrow>
     json_at (JObj s) q = Some v \<and> kept_leaf v \<and> \<not> (\<exists>p \<in> set C. prefix p q)"
  unfolding leftovers_def
  using assms by (auto simp: without_empties_leaf keys_ok_removals removals_leaf simp del: keys_ok.simps)

text \<open>Removals commute, so the order in which the paths are taken does not matter.\<close>

lemma update_update_swap:
  "k \<noteq> k' \<Longrightarrow> k \<in> fst ` set d \<Longrightarrow> k' \<in> fst ` set d \<Longrightarrow>
   AList.update k v (AList.update k' w d) = AList.update k' w (AList.update k v d)"
  by (induction d) (auto simp: update_nonempty)

lemma remove_path_through:
  "ks \<noteq> [] \<Longrightarrow> map_of d k = Some (JObj sub) \<Longrightarrow>
   remove_path (k # ks) d = AList.update k (JObj (remove_path ks sub)) d"
  by (cases ks) simp_all

lemma remove_path_stop:
  "ks \<noteq> [] \<Longrightarrow> \<nexists>sub. map_of d k = Some (JObj sub) \<Longrightarrow> remove_path (k # ks) d = d"
  by (cases ks) (auto split: option.splits json.splits)

lemma remove_path_deleted: "AList.delete k (remove_path (k # ks) d) = AList.delete k d"
  by (cases ks) (simp_all add: delete_update_same delete_idem split: option.split json.split)

lemma remove_path_cases:
  obtains "ks = []" | sub where "ks \<noteq> []" "map_of d k = Some (JObj sub)"
    | "ks \<noteq> []" "\<nexists>sub. map_of d k = Some (JObj sub)"
  by blast

lemma in_keys: "map_of d k = Some v \<Longrightarrow> k \<in> fst ` set d"
  by (simp add: in_fst_set_iff)

lemma remove_path_other:
  assumes "k \<noteq> k'"
  shows "remove_path (k # ks) (remove_path (k' # qs) d) = remove_path (k' # qs) (remove_path (k # ks) d)"
  using assms
  by (rule_tac ks = ks and d = d and k = k in remove_path_cases;
      rule_tac ks = qs and d = d and k = k' in remove_path_cases)
     (simp_all add: remove_path_through remove_path_stop delete_update delete_twist update_update_swap in_keys)

lemma remove_path_commute: "remove_path p (remove_path q d) = remove_path q (remove_path p d)"
proof (induction p arbitrary: q d)
  case Nil
  then show ?case by simp
next
  case (Cons k ks)
  show ?case
  proof (cases q)
    case Nil
    then show ?thesis by simp
  next
    case (Cons k' qs)
    show ?thesis
    proof (cases "k = k'")
      case True
      then show ?thesis
        unfolding Cons
        by (rule_tac ks = ks and d = d and k = k in remove_path_cases; cases "qs = []")
           (simp_all add: remove_path_through remove_path_stop remove_path_deleted delete_update_same Cons.IH)
    next
      case False
      with Cons show ?thesis by (simp add: remove_path_other)
    qed
  qed
qed

lemma leftovers_order:
  assumes "mset C = mset C'"
  shows "leftovers s C = leftovers s C'"
proof -
  have "fold remove_path (rev (sort_key length C)) s = fold remove_path (rev (sort_key length C')) s"
    using assms by (intro fold_multiset_equiv [THEN fun_cong]) (auto simp: remove_path_commute)
  then show ?thesis by (simp add: leftovers_def foldl_conv_fold)
qed

subsection \<open>The event as a function of the record\<close>

definition code_of :: "json_dict \<Rightarrow> string" where
  "code_of s = py_str (json_or (value_at s [''eventType'']) (JStr []))"

definition rule_for :: "'t okta_config \<Rightarrow> string \<Rightarrow> rule" where
  "rule_for cfg code =
     (case map_of (or_events (oc_rules cfg)) code of None \<Rightarrow> or_fallback (oc_rules cfg) | Some r \<Rightarrow> r)"

definition drift :: "'t okta_config \<Rightarrow> string \<Rightarrow> mapper_state \<Rightarrow> mapper_state" where
  "drift cfg code st =
     (case map_of (or_events (oc_rules cfg)) code of None \<Rightarrow> count_unmapped cfg code st | Some _ \<Rightarrow> st)"

text \<open>The paths of the record that the mapper reads for a class, those the record has.\<close>

definition read_paths :: "int \<Rightarrow> json_dict \<Rightarrow> string list list" where
  "read_paths class_uid s =
     filter (\<lambda>p. json_at (JObj s) p \<noteq> None) ([''eventType''] # body_paths class_uid s)"

definition event_of :: "'t okta_config \<Rightarrow> int \<Rightarrow> json_dict \<Rightarrow> ocsf_event" where
  "event_of cfg time s =
     (let (c, a) = rule_for cfg (code_of s);
          body = AList.update ''unmapped'' (JObj (leftovers s (read_paths c s)))
                   (body_of cfg c a (code_of s) time s)
      in \<lparr>ev_class_uid = c, ev_time_ms = json_int (dict_get body ''time''), ev_uid = metadata_uid body,
          ev_body = body\<rparr>)"

lemma distinct_paths: "distinct ([''eventType''] # body_paths c s)"
  by (auto simp: body_paths_def actor_paths_def)

lemma reads_raise:
  assumes "reads s m x ps" and "rd_source r = s" and "\<And>r'. rd_source r' = s \<Longrightarrow> fst (g x r') = Inl e"
  shows "fst (io_bind m g r) = Inl e"
proof -
  obtain r1 where "m r = (Inr x, r1)" "rd_source r1 = s" using assms(1,2) by (rule readsE)
  with assms(3) show ?thesis by simp
qed

lemma epoch_raises:
  assumes "epoch_ms cfg (value_at s [''published'']) = Inl x" and "rd_source r = s"
  shows "fst (okta_body cfg c a code r) = Inl x"
  unfolding okta_body_def
  by (rule reads_raise [OF reads_read assms(2)], rule reads_raise [OF reads_read], assumption)
     (simp add: assms(1) io_bind_def)

text \<open>A call of \<open>map\<close> once the code is read.\<close>

lemma okta_map_run:
  assumes "read [''eventType''] \<lparr>rd_source = okta_source_of record, rd_consumed = []\<rparr> = (Inr v, r1)"
    and "code = py_str (json_or v (JStr []))" and "rule_for cfg code = (c, a)"
  shows "okta_map cfg record st =
     (case okta_body cfg c a code r1 of
        (Inl x, _) \<Rightarrow> (Inl x, drift cfg code st)
      | (Inr body, r2) \<Rightarrow>
          (let full = AList.update ''unmapped'' (JObj (leftovers (okta_source_of record) (rd_consumed r2))) body
           in (Inr \<lparr>ev_class_uid = c, ev_time_ms = json_int (dict_get full ''time''),
                   ev_uid = metadata_uid full, ev_body = full\<rparr>, drift cfg code st)))"
  using assms(3)
  unfolding okta_map_def assms(1) Let_def prod.case sum.case assms(2) [symmetric] rule_for_def drift_def
  by (simp only: prod.case)

lemma found_set:
  "set C = {p \<in> set [q]. P p} \<Longrightarrow> set D = set C \<union> {p \<in> set B. P p} \<Longrightarrow> set D = set (filter P (q # B))"
  by auto

lemma okta_map_eq:
  "okta_map cfg record st =
     (let s = okta_source_of record
      in (case epoch_ms cfg (value_at s [''published'']) of
            Inl x \<Rightarrow> Inl x
          | Inr t \<Rightarrow> Inr (event_of cfg t s), drift cfg (code_of s) st))"
proof -
  define s where "s = okta_source_of record"
  define c where "c = fst (rule_for cfg (code_of s))"
  define a where "a = snd (rule_for cfg (code_of s))"
  have rule: "rule_for cfg (code_of s) = (c, a)" by (simp add: c_def a_def)
  obtain r1 where r1: "read [''eventType''] \<lparr>rd_source = s, rd_consumed = []\<rparr> = (Inr (value_at s [''eventType'']), r1)"
    "rd_source r1 = s" "distinct (rd_consumed r1)"
    "set (rd_consumed r1) = {p \<in> set [[''eventType'']]. json_at (JObj s) p \<noteq> None}"
    by (rule readsE [OF reads_read, of "\<lparr>rd_source = s, rd_consumed = []\<rparr>" s]) auto
  note run = okta_map_run [OF r1(1) [unfolded s_def] code_of_def [of s, unfolded s_def]
    rule [unfolded s_def], folded s_def]
  show ?thesis
  proof (cases "epoch_ms cfg (value_at s [''published''])")
    case (Inl x)
    then have "fst (okta_body cfg c a (code_of s) r1) = Inl x" using r1(2) by (rule epoch_raises)
    then obtain r2 where "okta_body cfg c a (code_of s) r1 = (Inl x, r2)"
      by (cases "okta_body cfg c a (code_of s) r1") simp
    then show ?thesis unfolding Let_def s_def [symmetric] Inl by (simp only: run prod.case sum.case)
  next
    case (Inr t)
    obtain r2 where r2: "okta_body cfg c a (code_of s) r1 = (Inr (body_of cfg c a (code_of s) t s), r2)"
      "distinct (rd_consumed r1) \<longrightarrow> distinct (rd_consumed r2)"
      "set (rd_consumed r2) = set (rd_consumed r1) \<union> {p \<in> set (body_paths c s). json_at (JObj s) p \<noteq> None}"
      by (rule readsE [OF body_reads [OF Inr] r1(2)])
    have "distinct (rd_consumed r2)" using r2(2) r1(3) by (rule mp)
    moreover have "distinct (read_paths c s)"
      unfolding read_paths_def by (rule distinct_filter [OF distinct_paths])
    moreover have "set (rd_consumed r2) = set (read_paths c s)"
      unfolding read_paths_def by (rule found_set [OF r1(4) r2(3)])
    ultimately have "mset (rd_consumed r2) = mset (read_paths c s)"
      using set_eq_iff_mset_eq_distinct by blast
    then have left: "leftovers s (rd_consumed r2) = leftovers s (read_paths c s)" by (rule leftovers_order)
    show ?thesis
      unfolding Let_def s_def [symmetric] Inr
      by (simp only: run r2(1) prod.case sum.case Let_def event_of_def rule left)
  qed
qed

subsection \<open>The attributes of a body\<close>

lemma map_of_put_if: "map_of (put_if b n v c) k = (if b \<and> k = n then Some v else map_of c k)"
  by (simp add: put_if_def)

definition required_of :: "int \<Rightarrow> string list" where
  "required_of c = (case map_of REQUIRED_OBJECTS c of None \<Rightarrow> [] | Some names \<Rightarrow> names)"

abbreviation fill_one :: "json_dict \<Rightarrow> string \<Rightarrow> json_dict" where
  "fill_one b name \<equiv>
     (if truthy (dict_get b name) then b
      else AList.update name
        (if name = ''privileges'' then JList [JStr ''unknown''] else JObj [(''name'', JStr ''unknown'')]) b)"

lemma fill_other: "k \<notin> set names \<Longrightarrow> map_of (foldl fill_one b names) k = map_of b k"
  by (induction names arbitrary: b) auto

lemma fill_keys: "fst ` set (foldl fill_one b names) \<subseteq> fst ` set b \<union> set names"
proof (induction names arbitrary: b)
  case Nil
  then show ?case by simp
next
  case (Cons n names)
  show ?case using Cons [of "fill_one b n"] by (auto simp: dom_update split: if_splits)
qed

lemma fill_distinct: "distinct (map fst b) \<Longrightarrow> distinct (map fst (foldl fill_one b names))"
  by (induction names arbitrary: b) (simp_all add: distinct_update)

lemma fill_keeps_truthy: "truthy (dict_get b k) \<Longrightarrow> truthy (dict_get (foldl fill_one b names) k)"
  by (induction names arbitrary: b) auto

lemma fill_truthy: "k \<in> set names \<Longrightarrow> truthy (dict_get (foldl fill_one b names) k)"
proof (induction names arbitrary: b)
  case Nil
  then show ?case by simp
next
  case (Cons n names)
  show ?case
  proof (cases "k \<in> set names")
    case True
    then show ?thesis using Cons.IH by simp
  next
    case False
    with Cons.prems have "k = n" by simp
    then have "truthy (dict_get (fill_one b n) k)" by simp
    then show ?thesis using fill_keeps_truthy by simp
  qed
qed

lemma fill_required_eq: "fill_required b c = foldl fill_one b (required_of c)"
  by (simp add: fill_required_def required_of_def)

lemma required_not_base: "set (required_of c) \<inter> set BASE_ATTRIBUTES = {}"
  by (auto simp: required_of_def REQUIRED_OBJECTS_def map_of_class_column schema_classes_def BASE_ATTRIBUTES_def
      split: if_splits)

lemma required_allowed: "set (required_of c) \<subseteq> set (allowed_attributes c)"
  by (auto simp: required_of_def allowed_attributes_def REQUIRED_OBJECTS_def CLASS_ATTRIBUTES_def
      map_of_class_column schema_classes_def split: if_splits)

lemma class_objects_other:
  "k \<notin> {''entity'', ''privileges'', ''group''} \<Longrightarrow> map_of (class_objects s c d) k = map_of d k"
  by (simp add: class_objects_def Let_def)

lemma class_objects_distinct: "distinct (map fst d) \<Longrightarrow> distinct (map fst (class_objects s c d))"
  by (simp add: class_objects_def Let_def distinct_update)

lemma map_of_filter_key: "map_of (filter (\<lambda>(n, v). P n) d) k = (if P k then map_of d k else None)"
  by (induction d) auto

definition core_names :: "string set" where
  "core_names = {''class_uid'', ''category_uid'', ''activity_id'', ''type_uid'', ''time'', ''severity_id'',
     ''status_id'', ''metadata''}"

lemma core_base: "k \<in> core_names \<Longrightarrow> k \<in> set BASE_ATTRIBUTES"
  by (auto simp: core_names_def BASE_ATTRIBUTES_def)

lemma body_core:
  assumes "k \<in> core_names"
  shows "map_of (finish_body cfg c message outcome reason actor endpoint ua session mfa s c0) k = map_of c0 k"
proof -
  have "k \<notin> set (required_of c)" "k \<in> set (allowed_attributes c)"
    using core_base [OF assms] required_not_base [of c] by (auto simp: allowed_attributes_def)
  moreover have "k \<notin> {''entity'', ''privileges'', ''group''}"
    "k \<noteq> ''message'' \<and> k \<noteq> ''status'' \<and> k \<noteq> ''status_detail'' \<and> k \<noteq> ''user'' \<and> k \<noteq> ''actor'' \<and>
     k \<noteq> ''src_endpoint'' \<and> k \<noteq> ''http_request'' \<and> k \<noteq> ''session'' \<and> k \<noteq> ''service'' \<and> k \<noteq> ''is_mfa''"
    using assms by (auto simp: core_names_def)
  ultimately show ?thesis
    by (simp only: finish_body_def Let_def fill_required_eq fill_other map_of_filter_key class_objects_other
        map_of_put_if not_False_eq_True if_True simp_thms if_False if_cancel)
qed

lemma filled_keys:
  "set names \<subseteq> A \<Longrightarrow> fst ` set (foldl fill_one (filter (\<lambda>(n, v). n \<in> A) d) names) \<subseteq> A"
  by (rule order_trans [OF fill_keys]) auto

lemma body_keys:
  "fst ` set (finish_body cfg c message outcome reason actor endpoint ua session mfa s c0) \<subseteq> set (allowed_attributes c)"
  unfolding finish_body_def Let_def fill_required_eq by (rule filled_keys [OF required_allowed])

lemma distinct_put_if: "distinct (map fst c) \<Longrightarrow> distinct (map fst (put_if b k v c))"
  by (simp add: put_if_def distinct_update)

lemma body_distinct:
  assumes "distinct (map fst c0)"
  shows "distinct (map fst (finish_body cfg c message outcome reason actor endpoint ua session mfa s c0))"
  unfolding finish_body_def Let_def fill_required_eq
  by (intro fill_distinct distinct_filter_keys class_objects_distinct distinct_put_if assms)

lemma body_required:
  "k \<in> set (required_of c) \<Longrightarrow>
   truthy (dict_get (finish_body cfg c message outcome reason actor endpoint ua session mfa s c0) k)"
  by (simp only: finish_body_def Let_def fill_required_eq fill_truthy)

lemma metadata_of:
  "map_of d ''metadata'' = Some (JObj m) \<Longrightarrow> map_of m ''uid'' = Some (JStr u) \<Longrightarrow> metadata_uid d = u"
  by (simp add: metadata_uid_def dict_get_def py_str_def)

lemma body_core_get:
  "k \<in> core_names \<Longrightarrow>
   dict_get (AList.update ''unmapped'' u (body_of cfg c a code t s)) k =
   dict_get (base_candidate cfg c a code (value_at s [''published'']) (value_at s [''outcome'', ''result''])
     t (value_at s [''severity'']) (value_at s [''uuid''])) k"
  by (auto simp: dict_get_def body_of_def body_core core_names_def)

lemma event_body: "ev_body (event_of cfg t s) = AList.update ''unmapped''
    (JObj (leftovers s (read_paths (fst (rule_for cfg (code_of s))) s)))
    (body_of cfg (fst (rule_for cfg (code_of s))) (snd (rule_for cfg (code_of s))) (code_of s) t s)"
  by (simp add: event_of_def Let_def split: prod.split)

lemma event_class: "ev_class_uid (event_of cfg t s) = fst (rule_for cfg (code_of s))"
  by (simp add: event_of_def Let_def split: prod.split)

lemma event_time: "ev_time_ms (event_of cfg t s) = t"
proof -
  have "''time'' \<in> core_names" by (simp add: core_names_def)
  note core = body_core_get [OF this]
  show ?thesis
    unfolding event_of_def Let_def
    by (simp add: core base_candidate_def json_int_def dict_get_Some split: prod.split del: dict_get_update)
qed

lemma event_uid: "ev_uid (event_of cfg t s) = py_str (json_or (value_at s [''uuid'']) (JStr []))"
proof -
  have "''metadata'' \<in> core_names" by (simp add: core_names_def)
  note core = body_core_get [OF this]
  have str: "py_str (JStr u) = u" for u by (simp add: py_str_def)
  show ?thesis
    unfolding event_of_def Let_def
    by (simp add: core base_candidate_def metadata_uid_def dict_get_Some str split: prod.split del: dict_get_update)
qed

subsection \<open>Properties of the mapper\<close>


text \<open>C23: Mapping raises just if \<open>timestamp\<close> raises on a publication time that \<open>fromisoformat\<close> parsed,
  and raises that exception. No other record raises, whatever its shape; but the class promises that
  every record becomes an event.\<close>

theorem map_raises_iff:
  "fst (okta_map cfg record st) = Inl x \<longleftrightarrow>
     (\<exists>text parsed. value_at (okta_source_of record) [''published''] = JStr text \<and> text \<noteq> [] \<and>
        oc_fromisoformat cfg (replace_z text) = Some parsed \<and> oc_timestamp cfg parsed = Inl x)"
  by (auto simp: okta_map_eq Let_def epoch_ms_def res_bind_def split: json.splits option.splits sum.splits)

text \<open>A configuration for the witnesses: the repository's table and one date.\<close>

definition mapper_sample :: "rat okta_config" where
  "mapper_sample = \<lparr>oc_service_name = ''okta'', oc_rules = okta_rules, oc_on_unmapped = True,
     oc_fromisoformat = (\<lambda>s. if s = ''2024-01-01T00:00:00+00:00'' then Some 1704067200 else None),
     oc_timestamp = Inr\<rparr>"

lemma mapper_sample_ok: "rules_ok (oc_rules mapper_sample)"
  by code_simp

text \<open>C7: With a table that loaded, every event is one its class allows: class and activity are in the
  schema and are those of the table row of its event type (or of the fallback), the derived uids
  agree with them, its attributes are distinct and among those of the class, and every object the
  class requires is there with something in it.\<close>

theorem event_valid:
  assumes "rules_ok (oc_rules cfg)" and "fst (okta_map cfg record st) = Inr ev"
  shows "rule_ok (rule_for cfg (code_of (okta_source_of record))) \<and>
    ev_class_uid ev = fst (rule_for cfg (code_of (okta_source_of record))) \<and>
    dict_get (ev_body ev) ''class_uid'' = JInt (ev_class_uid ev) \<and>
    dict_get (ev_body ev) ''activity_id'' = JInt (snd (rule_for cfg (code_of (okta_source_of record)))) \<and>
    dict_get (ev_body ev) ''type_uid'' =
      JInt (ev_class_uid ev * 100 + snd (rule_for cfg (code_of (okta_source_of record)))) \<and>
    map_option JInt (map_of CLASS_CATEGORY_UID (ev_class_uid ev)) = map_of (ev_body ev) ''category_uid'' \<and>
    dict_get (ev_body ev) ''time'' = JInt (ev_time_ms ev) \<and>
    distinct (map fst (ev_body ev)) \<and>
    fst ` set (ev_body ev) \<subseteq> set (allowed_attributes (ev_class_uid ev)) \<and>
    set (required_of (ev_class_uid ev)) \<subseteq> {k. truthy (dict_get (ev_body ev) k)}"
proof -
  let ?s = "okta_source_of record"
  obtain t where ev: "ev = event_of cfg t ?s"
    using assms(2) by (auto simp: okta_map_eq Let_def split: sum.splits)
  obtain c a where rule: "rule_for cfg (code_of ?s) = (c, a)" by fastforce
  have ok: "rule_ok (c, a)" using rule_of_ok [OF assms(1), of "code_of ?s"] rule by (simp add: rule_for_def)
  then obtain d where "map_of schema_classes c = Some d" using rule_ok_class by blast
  then have category: "map_of CLASS_CATEGORY_UID c = Some (oc_category_uid d)"
    by (simp add: CLASS_CATEGORY_UID_def map_of_class_column)
  have core: "''class_uid'' \<in> core_names" "''activity_id'' \<in> core_names" "''type_uid'' \<in> core_names"
    "''time'' \<in> core_names" "''category_uid'' \<in> core_names" by (simp_all add: core_names_def)
  have at: "map_of (ev_body ev) k = map_of (base_candidate cfg c a (code_of ?s) (value_at ?s [''published''])
      (value_at ?s [''outcome'', ''result'']) t (value_at ?s [''severity'']) (value_at ?s [''uuid''])) k"
    if "k \<in> core_names" for k
    using that by (auto simp: ev event_body rule body_of_def body_core core_names_def)
  have allowed: "''unmapped'' \<in> set (allowed_attributes c)"
    by (simp add: allowed_attributes_def BASE_ATTRIBUTES_def)
  have base: "distinct (map fst (base_candidate cfg c a code p out t sev u))" for code p out sev u
    by (simp add: base_candidate_def)
  have "truthy (dict_get (ev_body ev) k)" if "k \<in> set (required_of c)" for k
  proof -
    have "k \<noteq> ''unmapped''" using that required_not_base [of c] by (auto simp: BASE_ATTRIBUTES_def)
    with that show ?thesis by (simp add: ev event_body rule body_of_def body_required)
  qed
  moreover have "fst ` set (ev_body ev) \<subseteq> set (allowed_attributes c)"
    unfolding ev event_body rule fst_conv fst_update_set insert_subset body_of_def
    by (rule conjI [OF allowed body_keys])
  moreover have "distinct (map fst (ev_body ev))"
    by (simp add: ev event_body rule body_of_def distinct_update body_distinct base)
  ultimately show ?thesis
    using ok core [THEN at] category
    by (auto simp: ev event_class rule event_time dict_get_def base_candidate_def)
qed

theorem event_valid_witness:
  "set (required_of 3002) \<subseteq> {k. truthy (dict_get (ev_body (event_of mapper_sample 1704067200000
     [(''eventType'', JStr ''user.session.start''), (''published'', JStr ''2024-01-01T00:00:00Z'')])) k)}"
proof -
  have run: "fst (okta_map mapper_sample (JObj [(''eventType'', JStr ''user.session.start''),
      (''published'', JStr ''2024-01-01T00:00:00Z'')]) \<lparr>um_counts = [], um_reported = []\<rparr>) =
    Inr (event_of mapper_sample 1704067200000
     [(''eventType'', JStr ''user.session.start''), (''published'', JStr ''2024-01-01T00:00:00Z'')])"
    by code_simp
  have "ev_class_uid (event_of mapper_sample 1704067200000
     [(''eventType'', JStr ''user.session.start''), (''published'', JStr ''2024-01-01T00:00:00Z'')]) = 3002"
    by code_simp
  with event_valid [OF mapper_sample_ok run] show ?thesis by simp
qed

lemma paths_nonempty: "[] \<notin> set (body_paths c s)"
  by (simp add: body_paths_def actor_paths_def)

lemma found_above:
  "(\<And>p. prefix p q \<Longrightarrow> P p) \<Longrightarrow> (\<exists>p \<in> set (filter P L). prefix p q) \<longleftrightarrow> {p \<in> set L. prefix p q} \<noteq> {}"
  by auto

lemma kept_found:
  "(J \<Longrightarrow> X = (S \<noteq> {})) \<Longrightarrow> \<not> B \<Longrightarrow>
   (J \<and> (\<not> B \<and> v \<noteq> a \<and> v \<noteq> b \<and> v \<noteq> c) \<and> \<not> X) = (J \<and> v \<notin> {a, b, c} \<and> S = {})"
  by auto

text \<open>C24: What is kept under \<open>unmapped\<close>, path by path: a value of the record that is no object is there,
  at its own path, just if it is neither null nor empty and no path the mapper reads for the class
  leads to it or above it. So nothing the mapper did not look at is lost, and nothing it did look at
  is there twice.\<close>

theorem unmapped_exact:
  assumes "keys_ok (JObj s)" and "fst (okta_map cfg (JObj s) st) = Inr ev" and "\<not> is_obj v"
  shows "json_at (JObj (ev_body ev)) (''unmapped'' # q) = Some v \<longleftrightarrow>
    json_at (JObj s) q = Some v \<and> v \<notin> {JNull, JList [], JStr []} \<and>
    {p \<in> set ([''eventType''] # body_paths (ev_class_uid ev) s). prefix p q} = {}"
proof -
  obtain t where ev: "ev = event_of cfg t s"
    using assms(2) by (auto simp: okta_map_eq Let_def okta_source_of_def split: sum.splits)
  let ?C = "read_paths (ev_class_uid ev) s"
  have "[] \<notin> set ?C" using paths_nonempty by (simp add: read_paths_def)
  then have left: "json_at (JObj (ev_body ev)) (''unmapped'' # q) = Some v \<longleftrightarrow>
      json_at (JObj s) q = Some v \<and> kept_leaf v \<and> \<not> (\<exists>p \<in> set ?C. prefix p q)"
    using leftovers_leaf [OF assms(1) _ assms(3)] by (simp add: ev event_body event_class)
  have found: "json_at (JObj s) p \<noteq> None" if "json_at (JObj s) q = Some v" and "prefix p q" for p
    using that json_at_append [of "JObj s" p] by (auto simp: prefix_def split: option.splits)
  have "(\<exists>p \<in> set ?C. prefix p q) \<longleftrightarrow> {p \<in> set ([''eventType''] # body_paths (ev_class_uid ev) s). prefix p q} \<noteq> {}"
    if "json_at (JObj s) q = Some v"
    unfolding read_paths_def using found [OF that] by (rule found_above)
  then show ?thesis
    unfolding left kept_leaf_def using assms(3) by (rule kept_found)
qed

theorem unmapped_exact_witness:
  "json_at (JObj (ev_body (event_of mapper_sample 0
     [(''eventType'', JStr ''user.session.start''),
      (''client'', JObj [(''zone'', JStr ''BlockedIpZone''), (''ipAddress'', JStr ''10.0.0.1'')])])))
     [''unmapped'', ''client'', ''zone''] = Some (JStr ''BlockedIpZone'')"
proof -
  let ?s = "[(''eventType'', JStr ''user.session.start''),
      (''client'', JObj [(''zone'', JStr ''BlockedIpZone''), (''ipAddress'', JStr ''10.0.0.1'')])]"
  have run: "fst (okta_map mapper_sample (JObj ?s) \<lparr>um_counts = [], um_reported = []\<rparr>) =
    Inr (event_of mapper_sample 0 ?s)" by code_simp
  have ok: "keys_ok (JObj ?s)" "\<not> is_obj (JStr ''BlockedIpZone'')" by code_simp+
  have unread: "filter (\<lambda>p. prefix p [''client'', ''zone''])
      ([''eventType''] # body_paths (ev_class_uid (event_of mapper_sample 0 ?s)) ?s) = []" by code_simp
  have none: "{p \<in> set ([''eventType''] # body_paths (ev_class_uid (event_of mapper_sample 0 ?s)) ?s).
      prefix p [''client'', ''zone'']} = {}"
    unfolding set_filter [symmetric] unread by (rule list.set(1))
  have at: "json_at (JObj ?s) [''client'', ''zone''] = Some (JStr ''BlockedIpZone'')" by code_simp
  show ?thesis
    unfolding unmapped_exact [OF ok(1) run ok(2), of "[''client'', ''zone'']"] none at by simp
qed

text \<open>Over any sequence of records, each unknown event type is counted as often as it came, known
  ones never, and the callback is called once for each record of an unknown type, in order.\<close>

theorem drift_counted:
  "map_of (um_counts (foldl (\<lambda>st r. snd (okta_map cfg r st)) \<lparr>um_counts = [], um_reported = []\<rparr> rs)) code =
     (let n = length (filter (\<lambda>r. code_of (okta_source_of r) = code) rs)
      in if 0 < n \<and> map_of (or_events (oc_rules cfg)) code = None then Some n else None) \<and>
   um_reported (foldl (\<lambda>st r. snd (okta_map cfg r st)) \<lparr>um_counts = [], um_reported = []\<rparr> rs) =
     (if oc_on_unmapped cfg
      then filter (\<lambda>c. map_of (or_events (oc_rules cfg)) c = None) (map (\<lambda>r. code_of (okta_source_of r)) rs)
      else [])"
proof (induction rs rule: rev_induct)
  case Nil
  then show ?case by simp
next
  case (snoc r rs)
  then show ?case
    by (auto simp: okta_map_eq Let_def drift_def count_unmapped_def split: option.splits)
qed

subsection \<open>What an event loses\<close>

lemma target_cong: "dict_get s ''target'' = dict_get s' ''target'' \<Longrightarrow> first_target types s = first_target types s'"
  by (simp only: first_target_def)

lemma finish_source:
  assumes "dict_get s ''target'' = dict_get s' ''target''"
  shows "finish_body cfg c message outcome reason actor endpoint ua session mfa s c0 =
    finish_body cfg c message outcome reason actor endpoint ua session mfa s' c0"
  by (simp only: finish_body_def class_objects_def target_cong [OF assms])

text \<open>The places of a record that a body is made from, the actor and the endpoint apart.\<close>

definition plain_paths :: "string list list" where
  "plain_paths = [[''eventType''], [''published''], [''outcome'', ''result''], [''severity''], [''uuid''],
     [''displayMessage''], [''outcome'', ''reason''], [''client'', ''userAgent'', ''rawUserAgent''],
     [''authenticationContext'', ''externalSessionId''], [''authenticationContext'', ''authenticationStep''],
     [''authenticationContext'', ''credentialProvider'']]"

text \<open>Two records that agree there give the same event, whatever else they say.\<close>

lemma same_event:
  assumes plain: "map (value_at s) plain_paths = map (value_at s') plain_paths"
    and parts: "actor_of s = actor_of s'" "endpoint_of s = endpoint_of s'"
    and target: "dict_get s ''target'' = dict_get s' ''target''"
    and left: "\<And>c. leftovers s (read_paths c s) = leftovers s' (read_paths c s')"
  shows "fst (okta_map cfg (JObj s) st) = fst (okta_map cfg (JObj s') st)"
proof -
  have v: "value_at s p = value_at s' p" if "p \<in> set plain_paths" for p
    using plain that by (simp only: map_eq_conv)
  have vs: "value_at s [''eventType''] = value_at s' [''eventType'']"
    "value_at s [''published''] = value_at s' [''published'']"
    "value_at s [''outcome'', ''result''] = value_at s' [''outcome'', ''result'']"
    "value_at s [''severity''] = value_at s' [''severity'']" "value_at s [''uuid''] = value_at s' [''uuid'']"
    "value_at s [''displayMessage''] = value_at s' [''displayMessage'']"
    "value_at s [''outcome'', ''reason''] = value_at s' [''outcome'', ''reason'']"
    "value_at s [''client'', ''userAgent'', ''rawUserAgent''] = value_at s' [''client'', ''userAgent'', ''rawUserAgent'']"
    "value_at s [''authenticationContext'', ''externalSessionId''] = value_at s' [''authenticationContext'', ''externalSessionId'']"
    "value_at s [''authenticationContext'', ''authenticationStep''] = value_at s' [''authenticationContext'', ''authenticationStep'']"
    "value_at s [''authenticationContext'', ''credentialProvider''] = value_at s' [''authenticationContext'', ''credentialProvider'']"
    by (rule v, simp add: plain_paths_def)+
  have code: "code_of s = code_of s'" by (simp only: code_of_def vs)
  have mfa: "mfa_of s = mfa_of s'" by (simp only: mfa_of_def vs)
  have body: "body_of cfg c a k t s = body_of cfg c a k t s'" for c a k t
    unfolding body_of_def vs parts mfa by (rule finish_source [OF target])
  show ?thesis
    by (simp only: okta_map_eq okta_source_of_def json.case Let_def vs fst_conv event_of_def code body left)
qed


text \<open>Of an actor that is no person the event keeps everything but the type: two machine types give
  the same event, for every table, though the actor is to survive whole under \<open>unmapped\<close>; the
  other attributes do survive there.\<close>

theorem machine_type_lost:
  assumes "person_actor [(''actor'', JObj [(''type'', JStr kind)])] = False"
    and "person_actor [(''actor'', JObj [(''type'', JStr kind')])] = False"
  shows "fst (okta_map cfg (JObj [(''eventType'', JStr code),
      (''actor'', JObj [(''type'', JStr kind), (''displayName'', JStr name)])]) st) =
    fst (okta_map cfg (JObj [(''eventType'', JStr code),
      (''actor'', JObj [(''type'', JStr kind'), (''displayName'', JStr name)])]) st) \<and>
    (name \<noteq> [] \<longrightarrow> json_at (JObj (leftovers
       [(''eventType'', JStr code), (''actor'', JObj [(''type'', JStr kind), (''displayName'', JStr name)])]
       (read_paths c [(''eventType'', JStr code), (''actor'', JObj [(''type'', JStr kind), (''displayName'', JStr name)])])))
       [''actor'', ''displayName''] = Some (JStr name))"
proof
  have kinds: "\<not> person_actor [(''eventType'', JStr code), (''actor'', JObj [(''type'', JStr k), (''displayName'', JStr name)])]"
    if "person_actor [(''actor'', JObj [(''type'', JStr k)])] = False" for k
    using that by (simp add: person_actor_def value_at_def)
  note machine = kinds [OF assms(1)] kinds [OF assms(2)]
  show "fst (okta_map cfg (JObj [(''eventType'', JStr code),
      (''actor'', JObj [(''type'', JStr kind), (''displayName'', JStr name)])]) st) =
    fst (okta_map cfg (JObj [(''eventType'', JStr code),
      (''actor'', JObj [(''type'', JStr kind'), (''displayName'', JStr name)])]) st)"
    by (rule same_event)
       (simp_all add: machine plain_paths_def value_at_def actor_of_def endpoint_of_def dict_get_def
         read_paths_def body_paths_def actor_paths_def leftovers_def)
  show "name \<noteq> [] \<longrightarrow> json_at (JObj (leftovers
       [(''eventType'', JStr code), (''actor'', JObj [(''type'', JStr kind), (''displayName'', JStr name)])]
       (read_paths c [(''eventType'', JStr code), (''actor'', JObj [(''type'', JStr kind), (''displayName'', JStr name)])])))
       [''actor'', ''displayName''] = Some (JStr name)"
    by (simp add: machine read_paths_def body_paths_def actor_paths_def leftovers_def)
qed

theorem machine_type_lost_witness:
  "fst (okta_map mapper_sample (JObj [(''eventType'', JStr ''app.oauth2.token.grant''),
      (''actor'', JObj [(''type'', JStr ''PublicClientApp''), (''displayName'', JStr ''sync'')])]) \<lparr>um_counts = [], um_reported = []\<rparr>) =
   fst (okta_map mapper_sample (JObj [(''eventType'', JStr ''app.oauth2.token.grant''),
      (''actor'', JObj [(''type'', JStr ''SystemPrincipal''), (''displayName'', JStr ''sync'')])]) \<lparr>um_counts = [], um_reported = []\<rparr>) \<and>
   json_at (JObj (leftovers
       [(''eventType'', JStr ''app.oauth2.token.grant''),
        (''actor'', JObj [(''type'', JStr ''PublicClientApp''), (''displayName'', JStr ''sync'')])]
       (read_paths 3002 [(''eventType'', JStr ''app.oauth2.token.grant''),
        (''actor'', JObj [(''type'', JStr ''PublicClientApp''), (''displayName'', JStr ''sync'')])])))
     [''actor'', ''displayName''] = Some (JStr ''sync'')"
proof -
  have kinds: "person_actor [(''actor'', JObj [(''type'', JStr ''PublicClientApp'')])] = False"
    "person_actor [(''actor'', JObj [(''type'', JStr ''SystemPrincipal'')])] = False" by code_simp+
  have name: "''sync'' \<noteq> []" by simp
  note both = machine_type_lost [OF kinds]
  show ?thesis by (rule conjI [OF conjunct1 [OF both] mp [OF conjunct2 [OF both] name]])
qed

lemma filter_put_if: "\<not> P k \<Longrightarrow> filter (\<lambda>(n, v). P n) (put_if b k v d) = filter (\<lambda>(n, v). P n) d"
proof (cases b)
  case True
  assume "\<not> P k"
  then have "filter (\<lambda>(n, v). P n) (AList.update k v d) = filter (\<lambda>(n, v). P n) d" by (induction d) auto
  with True show ?thesis by (simp add: put_if_def)
qed (simp add: put_if_def)

lemma finish_base:
  "finish_body cfg 0 message outcome reason actor endpoint ua session mfa s c0 =
     filter (\<lambda>(n, v). n \<in> set BASE_ATTRIBUTES)
       (put_if (truthy reason) ''status_detail'' (JStr (py_str reason))
         (put_if (truthy outcome) ''status'' (JStr (str_title (py_str outcome)))
           (put_if (truthy message) ''message'' (JStr (py_str message)) c0)))"
proof -
  have "required_of 0 = []" "allowed_attributes 0 = BASE_ATTRIBUTES" by code_simp+
  moreover have "''user'' \<notin> set BASE_ATTRIBUTES" "''actor'' \<notin> set BASE_ATTRIBUTES"
    "''src_endpoint'' \<notin> set BASE_ATTRIBUTES" "''http_request'' \<notin> set BASE_ATTRIBUTES"
    "''session'' \<notin> set BASE_ATTRIBUTES" "''service'' \<notin> set BASE_ATTRIBUTES" "''is_mfa'' \<notin> set BASE_ATTRIBUTES"
    by code_simp+
  ultimately show ?thesis
    by (simp add: finish_body_def Let_def fill_required_eq class_objects_def filter_put_if)
qed

text \<open>An event of a type the table does not know, mapped to Base Event, keeps nothing of who acted,
  from where, with what and in which session, although the fallback is to keep the whole record:
  those attributes are read, have no place in the class, and are removed from \<open>unmapped\<close>.\<close>

theorem base_event_forgets:
  assumes "rule_for cfg code = (0, 0)"
  shows "fst (okta_map cfg (JObj [(''eventType'', JStr code), (''actor'', JObj [(''id'', JStr who)]),
      (''client'', JObj [(''ipAddress'', JStr ip), (''userAgent'', JObj [(''rawUserAgent'', JStr agent)])]),
      (''authenticationContext'', JObj [(''externalSessionId'', JStr session)])]) st) =
    fst (okta_map cfg (JObj [(''eventType'', JStr code), (''actor'', JObj [(''id'', JStr who')]),
      (''client'', JObj [(''ipAddress'', JStr ip'), (''userAgent'', JObj [(''rawUserAgent'', JStr agent')])]),
      (''authenticationContext'', JObj [(''externalSessionId'', JStr session')])]) st)"
proof -
  define s where "s w i a x = [(''eventType'', JStr code), (''actor'', JObj [(''id'', JStr w)]),
      (''client'', JObj [(''ipAddress'', JStr i), (''userAgent'', JObj [(''rawUserAgent'', JStr a)])]),
      (''authenticationContext'', JObj [(''externalSessionId'', JStr x)])]" for w i a x
  have code: "code_of (s w i a x) = code" for w i a x
    by (simp add: s_def code_of_def value_at_def json_or_def py_str_def)
  have left: "leftovers (s w i a x) (read_paths 0 (s w i a x)) = []" for w i a x
    by (simp add: s_def read_paths_def body_paths_def actor_paths_def person_actor_def value_at_def json_or_def
        py_str_def leftovers_def)
  have at: "value_at (s w i a x) p = JNull"
    if "p \<in> {[''displayMessage''], [''outcome'', ''result''], [''outcome'', ''reason''], [''published''],
      [''severity''], [''uuid'']}" for w i a x p
    using that by (auto simp: s_def value_at_def)
  have body: "body_of cfg 0 0 code t (s w i a x) = body_of cfg 0 0 code t (s [] [] [] [])" for w i a x t
    unfolding body_of_def finish_base by (simp add: at)
  have event: "event_of cfg t (s w i a x) = event_of cfg t (s [] [] [] [])" for w i a x t
    by (simp only: event_of_def Let_def code assms prod.case left body [of t w i a x])
  have pub: "value_at (s w i a x) [''published''] = JNull" for w i a x by (simp add: at)
  have same: "fst (okta_map cfg (JObj (s w i a x)) st) = fst (okta_map cfg (JObj (s [] [] [] [])) st)" for w i a x
    by (simp only: okta_map_eq okta_source_of_def json.case Let_def pub fst_conv event [of _ w i a x])
  have "fst (okta_map cfg (JObj (s who ip agent session)) st) = fst (okta_map cfg (JObj (s who' ip' agent' session')) st)"
    by (rule trans [OF same same [symmetric]])
  then show ?thesis unfolding s_def .
qed

theorem base_event_forgets_witness:
  "fst (okta_map mapper_sample (JObj [(''eventType'', JStr ''system.import.start''), (''actor'', JObj [(''id'', JStr ''00u1'')]),
      (''client'', JObj [(''ipAddress'', JStr ''10.0.0.1''), (''userAgent'', JObj [(''rawUserAgent'', JStr ''curl'')])]),
      (''authenticationContext'', JObj [(''externalSessionId'', JStr ''s1'')])]) \<lparr>um_counts = [], um_reported = []\<rparr>) =
    fst (okta_map mapper_sample (JObj [(''eventType'', JStr ''system.import.start''), (''actor'', JObj [(''id'', JStr ''00u2'')]),
      (''client'', JObj [(''ipAddress'', JStr ''10.9.9.9''), (''userAgent'', JObj [(''rawUserAgent'', JStr ''wget'')])]),
      (''authenticationContext'', JObj [(''externalSessionId'', JStr ''s2'')])]) \<lparr>um_counts = [], um_reported = []\<rparr>)"
proof -
  have "rule_for mapper_sample ''system.import.start'' = (0, 0)" by code_simp
  then show ?thesis by (rule base_event_forgets)
qed

end
