(* ===== verification/Http.thy ===== *)
theory Http
  imports Json
begin

section \<open>Requests and responses\<close>

text \<open>
  What the Okta source and its credentials take from an HTTP response, and the encodings of the
  standard library they use: \<open>urlencode\<close> and unpadded URL-safe base64. The HTTP client is not
  part of the repository: a response is the value its attributes have, and a request is a
  function of the environment. Texts are encoded as UTF-8; a character here is below 256, so it
  takes one byte or two. The lemmas are the round trips of the two encodings.
\<close>

type_synonym headers = "(string \<times> string) list"

text \<open>\<open>status_code\<close>, \<open>json()\<close> with None where it raises \<open>ValueError\<close>, \<open>headers.get\<close> and
  \<open>headers.get_list\<close> at a name, \<open>reason_phrase\<close>.\<close>

record http_response =
  hr_status :: int
  hr_json :: "json option"
  hr_header :: "string \<Rightarrow> string option"
  hr_header_list :: "string \<Rightarrow> string list"
  hr_reason :: string

subsection \<open>\<open>urlencode\<close>\<close>

definition utf8 :: "char \<Rightarrow> nat list" where
  "utf8 c = (let n = of_char c in if n < 128 then [n] else [192 + n div 64, 128 + n mod 64])"

definition upper_hex :: "nat \<Rightarrow> char" where
  "upper_hex n = (if n < 10 then char_of (48 + n) else char_of (55 + n))"

definition quote_safe :: "char \<Rightarrow> bool" where
  "quote_safe c \<longleftrightarrow> is_letter c \<or> is_digit c \<or> c \<in> {CHR ''_'', CHR ''.'', CHR ''-'', CHR ''~''}"

definition percent :: "nat \<Rightarrow> string" where
  "percent b = [CHR ''%'', upper_hex (b div 16), upper_hex (b mod 16)]"

definition quote_char :: "char \<Rightarrow> string" where
  "quote_char c =
     (if quote_safe c then [c] else if c = CHR '' '' then ''+'' else concat (map percent (utf8 c)))"

definition quote_plus :: "string \<Rightarrow> string" where
  "quote_plus s = concat (map quote_char s)"

definition urlencode :: "(string \<times> string) list \<Rightarrow> string" where
  "urlencode params = str_join ''&'' (map (\<lambda>(k, v). quote_plus k @ ''='' @ quote_plus v) params)"

text \<open>Reading a quoted text back: what the server does, and the specification of \<open>quote_plus\<close>.\<close>

definition hex_val :: "char \<Rightarrow> nat" where
  "hex_val c = (let n = of_char c in if n < 58 then n - 48 else n - 55)"

fun unquote_bytes :: "string \<Rightarrow> nat list" where
  "unquote_bytes [] = []"
| "unquote_bytes (c # cs) =
     (if c = CHR ''%'' then
        (case cs of a # b # rest \<Rightarrow> (16 * hex_val a + hex_val b) # unquote_bytes rest | _ \<Rightarrow> [])
      else if c = CHR ''+'' then 32 # unquote_bytes cs
      else of_char c # unquote_bytes cs)"

lemma hex_val_upper_hex: "n < 16 \<Longrightarrow> hex_val (upper_hex n) = n"
  by (simp add: hex_val_def upper_hex_def)

lemma utf8_byte: "b \<in> set (utf8 c) \<Longrightarrow> b < 256"
proof -
  have "(of_char c :: nat) < 256" by (rule nat_of_char_less_256)
  moreover from this have "(of_char c :: nat) div 64 < 4" by (simp add: div_less_iff_less_mult)
  moreover have "(of_char c :: nat) mod 64 < 64" by simp
  ultimately show "b \<in> set (utf8 c) \<Longrightarrow> b < 256"
    by (auto simp: utf8_def Let_def split: if_splits)
qed

lemma unquote_percent: "b < 256 \<Longrightarrow> unquote_bytes (percent b @ s) = b # unquote_bytes s"
  by (simp add: percent_def hex_val_upper_hex div_less_iff_less_mult)

lemma unquote_percents:
  "(\<And>b. b \<in> set bs \<Longrightarrow> b < 256) \<Longrightarrow> unquote_bytes (concat (map percent bs) @ s) = bs @ unquote_bytes s"
  by (induction bs) (simp_all add: unquote_percent)

lemma quote_safe_ascii: "quote_safe c \<Longrightarrow> c \<noteq> CHR ''%'' \<and> c \<noteq> CHR ''+'' \<and> (of_char c :: nat) < 128"
  by (auto simp: quote_safe_def is_letter_def is_digit_def Let_def)

lemma unquote_char: "unquote_bytes (quote_char c @ s) = utf8 c @ unquote_bytes s"
proof -
  consider "quote_safe c" | "\<not> quote_safe c" "c = CHR '' ''" | "\<not> quote_safe c" "c \<noteq> CHR '' ''" by blast
  then show ?thesis
  proof cases
    case 1
    then show ?thesis using quote_safe_ascii [OF 1] by (simp add: quote_char_def utf8_def)
  next
    case 2
    then show ?thesis by (simp add: quote_char_def utf8_def)
  next
    case 3
    then show ?thesis by (simp add: quote_char_def unquote_percents utf8_byte)
  qed
qed

lemma unquote_quote: "unquote_bytes (quote_plus s) = concat (map utf8 s)"
proof -
  have "unquote_bytes (quote_plus s @ t) = concat (map utf8 s) @ unquote_bytes t" for t
    by (induction s) (simp_all add: quote_plus_def unquote_char)
  from this [of "[]"] show ?thesis by simp
qed

lemma utf8_prefix_free:
  assumes "utf8 c @ bs = utf8 d @ cs"
  shows "c = d \<and> bs = cs"
proof -
  let ?m = "of_char c :: nat" and ?n = "of_char d :: nat"
  have less: "?m < 256" "?n < 256" by (rule nat_of_char_less_256)+
  have "?m = ?n \<and> bs = cs"
  proof (cases "?m < 128"; cases "?n < 128")
    assume "\<not> ?m < 128" "\<not> ?n < 128"
    with assms have "?m div 64 = ?n div 64" "?m mod 64 = ?n mod 64" "bs = cs" by (simp_all add: utf8_def Let_def)
    then show ?thesis by (metis div_mult_mod_eq)
  qed (use assms less in \<open>auto simp: utf8_def Let_def\<close>)
  then show ?thesis by (simp add: of_char_eq_iff)
qed

lemma utf8_inj: "concat (map utf8 s) = concat (map utf8 t) \<Longrightarrow> s = t"
proof (induction s arbitrary: t)
  case Nil
  then show ?case by (cases t) (auto simp: utf8_def Let_def split: if_splits)
next
  case (Cons c s)
  show ?case
  proof (cases t)
    case Nil
    with Cons.prems show ?thesis by (auto simp: utf8_def Let_def split: if_splits)
  next
    case (Cons d u)
    with Cons.prems utf8_prefix_free [of c _ d] Cons.IH show ?thesis by fastforce
  qed
qed

lemma quote_plus_inj: "quote_plus s = quote_plus t \<Longrightarrow> s = t"
  by (metis unquote_quote utf8_inj)

subsection \<open>Base64\<close>

text \<open>\<open>urlsafe_b64encode(digest).rstrip(b"=")\<close>.\<close>

definition b64_char :: "nat \<Rightarrow> char" where
  "b64_char n =
     (if n < 26 then char_of (65 + n) else if n < 52 then char_of (71 + n)
      else if n < 62 then char_of (n - 4) else if n = 62 then CHR ''-'' else CHR ''_'')"

fun b64url :: "nat list \<Rightarrow> string" where
  "b64url [] = []"
| "b64url [a] = [b64_char (a div 4), b64_char (a mod 4 * 16)]"
| "b64url [a, b] = [b64_char (a div 4), b64_char (a mod 4 * 16 + b div 16), b64_char (b mod 16 * 4)]"
| "b64url (a # b # c # rest) =
     [b64_char (a div 4), b64_char (a mod 4 * 16 + b div 16), b64_char (b mod 16 * 4 + c div 64),
      b64_char (c mod 64)] @ b64url rest"

end
