(* ===== verification/OktaAuth.thy ===== *)
theory OktaAuth
  imports Http
begin

section \<open>Okta credentials\<close>

text \<open>
  \<open>src/ocsf_connector/sources/okta/auth.py\<close>: minting and caching of access tokens by
  \<open>OktaClientCredentials\<close>, and the two authorizers, \<open>BearerAuth\<close> and \<open>DpopAuth\<close>. The token
  endpoint, the clocks, the signing of a JWT, the sources of unique identifiers and SHA-256 are
  the fields of \<open>auth_env\<close>, on a state \<open>'w\<close> of the environment; \<open>auth_state\<close> is that state with
  the cached token and the cached nonce. The lock of \<open>token\<close> is not modelled: one caller at a time.

  The locale \<open>authorizer\<close> is the protocol a source relies on: what \<open>headers\<close> returns is usable
  for the request it was asked for. Both authorizers interpret it.
\<close>

definition TOKEN_PATH :: string where
  "TOKEN_PATH = ''/oauth2/v1/token''"

definition ASSERTION_TYPE :: string where
  "ASSERTION_TYPE = ''urn:ietf:params:oauth:client-assertion-type:jwt-bearer''"

definition ASSERTION_LIFETIME_SECONDS :: int where
  "ASSERTION_LIFETIME_SECONDS = 300"

definition TOKEN_RENEWAL_MARGIN :: rat where
  "TOKEN_RENEWAL_MARGIN = 4 / 5"

definition SUPPORTED_ALGORITHMS :: "string list" where
  "SUPPORTED_ALGORITHMS = [''RS256'', ''RS384'', ''RS512'', ''ES256'', ''ES384'', ''ES512'']"

record access_token =
  at_value :: string
  at_token_type :: string
  at_renew_at :: seconds

record okta_credentials =
  ac_org_url :: string
  ac_client_id :: string
  ac_private_key :: string
  ac_kid :: string
  ac_scopes :: "string list"
  ac_algorithm :: string

text \<open>\<open>ae_post\<close> takes URL, form and headers; \<open>ae_jwt\<close> payload, key, algorithm and header fields;
  \<open>ae_float\<close> is \<open>float\<close> of a text, None where it raises; \<open>ae_export_jwk\<close> is the library's public
  JWK of a PEM key, for an RSA key or not.\<close>

record ('w) auth_env =
  ae_post :: "string \<Rightarrow> (string \<times> string) list \<Rightarrow> headers \<Rightarrow> (http_response, 'w) io"
  ae_clock :: "(seconds, 'w) io"
  ae_proof_clock :: "(seconds, 'w) io"
  ae_jwt :: "json_dict \<Rightarrow> string \<Rightarrow> string \<Rightarrow> json_dict \<Rightarrow> (string, 'w) io"
  ae_uuid :: "(string, 'w) io"
  ae_token_urlsafe :: "(string, 'w) io"
  ae_sha256 :: "string \<Rightarrow> string"
  ae_float :: "string \<Rightarrow> rat option"
  ae_export_jwk :: "string \<Rightarrow> bool \<Rightarrow> exn + json_dict"

record ('w) auth_state =
  as_token :: "access_token option"
  as_nonce :: "string option"
  as_world :: 'w

definition on_world :: "('a, 'w) io \<Rightarrow> ('a, 'w auth_state) io" where
  "on_world m s = (case m (as_world s) of (r, w) \<Rightarrow> (r, s\<lparr>as_world := w\<rparr>))"

definition res_io :: "exn + 'a \<Rightarrow> ('a, 's) io" where
  "res_io r s = (r, s)"

text \<open>\<open>__post_init__\<close>.\<close>

definition new_credentials :: "okta_credentials \<Rightarrow> exn + okta_credentials" where
  "new_credentials cr =
     (if ac_algorithm cr \<notin> set SUPPORTED_ALGORITHMS then Inl (ValueError (ac_algorithm cr))
      else if \<not> starts_with (ac_org_url cr) ''https://'' then Inl (ValueError (ac_org_url cr))
      else Inr (cr\<lparr>ac_org_url := rstrip_slash (ac_org_url cr)\<rparr>))"

definition token_url :: "okta_credentials \<Rightarrow> string" where
  "token_url cr = ac_org_url cr @ TOKEN_PATH"

subsection \<open>Answers of the token endpoint\<close>

definition json_object :: "http_response \<Rightarrow> json_dict" where
  "json_object response = (case hr_json response of Some (JObj d) \<Rightarrow> d | _ \<Rightarrow> [])"

definition nonce_challenge :: "http_response \<Rightarrow> string option" where
  "nonce_challenge response =
     (if dict_get (json_object response) ''error'' \<noteq> JStr ''use_dpop_nonce'' then None
      else hr_header response ''dpop-nonce'')"

definition token_error :: "http_response \<Rightarrow> exn" where
  "token_error response =
     (let body = json_object response;
          problem = (case map_of body ''error'' of None \<Rightarrow> hr_reason response | Some v \<Rightarrow> py_str v);
          description = dict_get body ''error_description'';
          detail = (if truthy description then problem @ '': '' @ py_str description else problem)
      in AuthErr (''Okta token request failed (HTTP '' @ int_str (hr_status response) @ '') '' @ detail))"

text \<open>\<open>float(v)\<close>; the numeral of a JSON float is one that \<open>float\<close> reads.\<close>

definition py_float :: "'w auth_env \<Rightarrow> json \<Rightarrow> exn + rat" where
  "py_float env v =
     (case v of
        JInt i \<Rightarrow> Inr (of_int i)
      | JBool b \<Rightarrow> Inr (if b then 1 else 0)
      | JFloat f \<Rightarrow> (case ae_float env f of None \<Rightarrow> Inl (ValueError f) | Some x \<Rightarrow> Inr x)
      | JStr s \<Rightarrow> (case ae_float env s of None \<Rightarrow> Inl (ValueError s) | Some x \<Rightarrow> Inr x)
      | _ \<Rightarrow> Inl (RuntimeErr ''TypeError''))"

subsection \<open>Minting\<close>

definition assertion :: "'w auth_env \<Rightarrow> okta_credentials \<Rightarrow> (string, 'w) io" where
  "assertion env cr =
     io_bind (ae_clock env) (\<lambda>now.
     io_bind (ae_uuid env) (\<lambda>unique.
     let issued = trunc now in
     ae_jwt env
       [(''iss'', JStr (ac_client_id cr)), (''sub'', JStr (ac_client_id cr)), (''aud'', JStr (token_url cr)),
        (''iat'', JInt issued), (''exp'', JInt (issued + ASSERTION_LIFETIME_SECONDS)), (''jti'', JStr unique)]
       (ac_private_key cr) (ac_algorithm cr) [(''kid'', JStr (ac_kid cr))]))"

definition token_form :: "okta_credentials \<Rightarrow> string \<Rightarrow> (string \<times> string) list" where
  "token_form cr signed_assertion =
     [(''grant_type'', ''client_credentials''), (''scope'', str_join '' '' (ac_scopes cr)),
      (''client_assertion_type'', ASSERTION_TYPE), (''client_assertion'', signed_assertion)]"

type_synonym 'w proof_maker = "string option \<Rightarrow> (string, 'w auth_state) io"

text \<open>One turn of the loop of \<open>_mint\<close>.\<close>

definition mint_attempt ::
  "'w auth_env \<Rightarrow> okta_credentials \<Rightarrow> 'w proof_maker option \<Rightarrow> string option \<Rightarrow> (http_response, 'w auth_state) io" where
  "mint_attempt env cr maker nonce =
     io_bind (on_world (assertion env cr)) (\<lambda>signed_assertion.
     io_bind (case maker of None \<Rightarrow> io_return [] | Some prove \<Rightarrow> io_bind (prove nonce) (\<lambda>p. io_return [(''DPoP'', p)]))
       (\<lambda>extra. on_world (ae_post env (token_url cr) (token_form cr signed_assertion)
          ((''Accept'', ''application/json'') # extra))))"

definition mint :: "'w auth_env \<Rightarrow> okta_credentials \<Rightarrow> 'w proof_maker option \<Rightarrow> (access_token, 'w auth_state) io" where
  "mint env cr maker =
     io_bind (mint_attempt env cr maker None) (\<lambda>first.
     io_bind
       (case (if (case maker of None \<Rightarrow> False | Some _ \<Rightarrow> hr_status first = 400) then nonce_challenge first else None) of
          None \<Rightarrow> io_return first
        | Some nonce \<Rightarrow> mint_attempt env cr maker (Some nonce)) (\<lambda>response.
     if hr_status response \<noteq> 200 then io_raise (token_error response)
     else (let body = json_object response in
       case map_of body ''access_token'' of
         None \<Rightarrow> io_raise (AuthErr ''Okta returned no access_token'')
       | Some v \<Rightarrow>
           io_bind (res_io (case map_of body ''expires_in'' of None \<Rightarrow> Inr 3600 | Some e \<Rightarrow> py_float env e)) (\<lambda>expires_in.
           io_bind (on_world (ae_clock env)) (\<lambda>now.
           io_return \<lparr>at_value = py_str v,
             at_token_type = (case map_of body ''token_type'' of None \<Rightarrow> ''Bearer'' | Some t \<Rightarrow> py_str t),
             at_renew_at = now + expires_in * TOKEN_RENEWAL_MARGIN\<rparr>)))))"

definition mint_and_keep :: "'w auth_env \<Rightarrow> okta_credentials \<Rightarrow> 'w proof_maker option \<Rightarrow> (access_token, 'w auth_state) io" where
  "mint_and_keep env cr maker =
     io_bind (mint env cr maker) (\<lambda>minted.
     io_bind (io_modify (\<lambda>s. s\<lparr>as_token := Some minted\<rparr>)) (\<lambda>_. io_return minted))"

definition okta_token :: "'w auth_env \<Rightarrow> okta_credentials \<Rightarrow> 'w proof_maker option \<Rightarrow> (access_token, 'w auth_state) io" where
  "okta_token env cr maker s =
     (case as_token s of
        None \<Rightarrow> mint_and_keep env cr maker s
      | Some cached \<Rightarrow>
          io_bind (on_world (ae_clock env)) (\<lambda>now.
          if now < at_renew_at cached then io_return cached else mint_and_keep env cr maker) s)"

subsection \<open>The authorizers\<close>

definition bearer_headers ::
  "'w auth_env \<Rightarrow> okta_credentials \<Rightarrow> string \<Rightarrow> string \<Rightarrow> (headers, 'w auth_state) io" where
  "bearer_headers env cr method_name url =
     io_bind (okta_token env cr None) (\<lambda>t.
     if str_casefold (at_token_type t) \<noteq> ''bearer'' then io_raise (AuthErr (at_token_type t))
     else io_return [(''Authorization'', ''Bearer '' @ at_value t)])"

record dpop =
  dp_key :: string
  dp_algorithm :: string
  dp_public_jwk :: json_dict

definition private_members :: "string list" where
  "private_members = [''d'', ''dp'', ''dq'', ''p'', ''q'', ''qi'']"

definition public_jwk :: "'w auth_env \<Rightarrow> string \<Rightarrow> string \<Rightarrow> exn + json_dict" where
  "public_jwk env pem algorithm =
     res_bind (ae_export_jwk env pem (starts_with algorithm ''RS'')) (\<lambda>exported.
     let jwk = filter (\<lambda>(name, value). name \<noteq> ''key_ops'') exported;
         found = filter (\<lambda>name. name \<in> set (map fst jwk)) private_members
     in if found \<noteq> [] then Inl (AuthErr (str_join '', '' found)) else Inr jwk)"

definition new_dpop :: "'w auth_env \<Rightarrow> string \<Rightarrow> string \<Rightarrow> exn + dpop" where
  "new_dpop env key algorithm =
     (if algorithm \<notin> set SUPPORTED_ALGORITHMS then Inl (ValueError algorithm)
      else res_bind (public_jwk env key algorithm) (\<lambda>jwk.
        Inr \<lparr>dp_key = key, dp_algorithm = algorithm, dp_public_jwk = jwk\<rparr>))"

definition htu :: "string \<Rightarrow> string" where
  "htu url = takeWhile (\<lambda>c. c \<noteq> CHR ''?'') (takeWhile (\<lambda>c. c \<noteq> CHR ''#'') url)"

definition ath :: "'w auth_env \<Rightarrow> string \<Rightarrow> exn + string" where
  "ath env token_value =
     (if list_all (\<lambda>c. (of_char c :: nat) < 128) token_value
      then Inr (b64url (map of_char (ae_sha256 env token_value)))
      else Inl (ValueError token_value))"

definition proof_payload :: "string \<Rightarrow> string \<Rightarrow> string option \<Rightarrow> string option \<Rightarrow> int \<Rightarrow> string \<Rightarrow> json_dict" where
  "proof_payload method_name url token_hash nonce issued unique =
     [(''htm'', JStr method_name), (''htu'', JStr (htu url)), (''iat'', JInt issued), (''jti'', JStr unique)] @
     (case token_hash of None \<Rightarrow> [] | Some a \<Rightarrow> [(''ath'', JStr a)]) @
     (case nonce of None \<Rightarrow> [] | Some n \<Rightarrow> [(''nonce'', JStr n)])"

definition dpop_proof ::
  "'w auth_env \<Rightarrow> dpop \<Rightarrow> string \<Rightarrow> string \<Rightarrow> string option \<Rightarrow> string option \<Rightarrow> (string, 'w) io" where
  "dpop_proof env dp method_name url token_hash nonce =
     io_bind (ae_proof_clock env) (\<lambda>now.
     io_bind (ae_token_urlsafe env) (\<lambda>unique.
     ae_jwt env (proof_payload method_name url token_hash nonce (trunc now) unique)
       (dp_key dp) (dp_algorithm dp) [(''typ'', JStr ''dpop+jwt''), (''jwk'', JObj (dp_public_jwk dp))]))"

definition token_proof :: "'w auth_env \<Rightarrow> okta_credentials \<Rightarrow> dpop \<Rightarrow> 'w proof_maker" where
  "token_proof env cr dp nonce =
     io_bind (io_modify (\<lambda>s. if nonce = None then s else s\<lparr>as_nonce := nonce\<rparr>)) (\<lambda>_ s.
     on_world (dpop_proof env dp ''POST'' (token_url cr) None (as_nonce s)) s)"

definition dpop_headers ::
  "'w auth_env \<Rightarrow> okta_credentials \<Rightarrow> dpop \<Rightarrow> string \<Rightarrow> string \<Rightarrow> (headers, 'w auth_state) io" where
  "dpop_headers env cr dp method_name url =
     io_bind (okta_token env cr (Some (token_proof env cr dp))) (\<lambda>t.
     if str_casefold (at_token_type t) \<noteq> ''dpop'' then io_raise (AuthErr (at_token_type t))
     else io_bind (res_io (ath env (at_value t))) (\<lambda>token_hash.
       io_bind (on_world (dpop_proof env dp method_name url (Some token_hash) None)) (\<lambda>p.
       io_return [(''Authorization'', ''DPoP '' @ at_value t), (''DPoP'', p)])))"

subsection \<open>The protocol of an authorizer\<close>

text \<open>A call of \<open>headers\<close> keeps \<open>invar\<close>, and what it returns is usable for the request.\<close>

locale authorizer =
  fixes headers :: "string \<Rightarrow> string \<Rightarrow> (headers, 's) io"
    and invar :: "'s \<Rightarrow> bool"
    and usable :: "string \<Rightarrow> string \<Rightarrow> headers \<Rightarrow> 's \<Rightarrow> bool"
  assumes headers_usable:
    "triple invar (headers method_name url) (\<lambda>h s. invar s \<and> usable method_name url h s) (\<lambda>_. invar)"

subsection \<open>JWTs made and sent\<close>

text \<open>The JWTs a request carries.\<close>

definition sent_jwts :: "(string \<times> string) list \<Rightarrow> headers \<Rightarrow> string list" where
  "sent_jwts form headers =
     map snd (filter (\<lambda>(k, v). k = ''client_assertion'') form) @ map snd (filter (\<lambda>(k, v). k = ''DPoP'') headers)"

text \<open>
  What signing and sending do to two observations of the environment: \<open>made\<close>, the JWTs signed so
  far, and \<open>sent\<close>, those that went out in a request. A new JWT is unlike every earlier one, as its
  unique identifier is; the other calls do neither.
\<close>

definition keeps_jwts :: "('w \<Rightarrow> string list) \<Rightarrow> ('w \<Rightarrow> string list) \<Rightarrow> ('a, 'w) io \<Rightarrow> bool" where
  "keeps_jwts made sent m \<longleftrightarrow> (\<forall>w r w'. m w = (r, w') \<longrightarrow> made w' = made w \<and> sent w' = sent w)"

definition jwt_laws :: "'w auth_env \<Rightarrow> ('w \<Rightarrow> string list) \<Rightarrow> ('w \<Rightarrow> string list) \<Rightarrow> bool" where
  "jwt_laws env made sent \<longleftrightarrow>
     (\<forall>payload key alg hdr w r w'. ae_jwt env payload key alg hdr w = (r, w') \<longrightarrow>
        sent w' = sent w \<and>
        (case r of Inl _ \<Rightarrow> made w' = made w | Inr j \<Rightarrow> j \<notin> set (made w) \<and> made w' = j # made w)) \<and>
     (\<forall>url form headers w r w'. ae_post env url form headers w = (r, w') \<longrightarrow>
        made w' = made w \<and> sent w' = sent_jwts form headers @ sent w) \<and>
     keeps_jwts made sent (ae_clock env) \<and> keeps_jwts made sent (ae_proof_clock env) \<and>
     keeps_jwts made sent (ae_uuid env) \<and> keeps_jwts made sent (ae_token_urlsafe env)"

text \<open>No JWT was sent twice, and those of \<open>X\<close> were signed and not sent.\<close>

definition unsent :: "('w \<Rightarrow> string list) \<Rightarrow> ('w \<Rightarrow> string list) \<Rightarrow> string set \<Rightarrow> 'w \<Rightarrow> bool" where
  "unsent made sent X w \<longleftrightarrow> distinct (sent w) \<and> set (sent w) \<subseteq> set (made w) \<and> X \<subseteq> set (made w) - set (sent w)"

lemma unsent_subset: "unsent made sent X w \<Longrightarrow> Y \<subseteq> X \<Longrightarrow> unsent made sent Y w"
  by (auto simp: unsent_def)

lemma keeps_unsent:
  "keeps_jwts made sent m \<Longrightarrow> triple (unsent made sent X) m (\<lambda>_. unsent made sent X) (\<lambda>_. unsent made sent X)"
  by (intro tripleI) (simp_all add: keeps_jwts_def unsent_def)

lemma jwt_unsent:
  "jwt_laws env made sent \<Longrightarrow>
   triple (unsent made sent X) (ae_jwt env payload key alg hdr)
     (\<lambda>j w. unsent made sent (insert j X) w \<and> j \<notin> X) (\<lambda>_. unsent made sent X)"
  unfolding jwt_laws_def by (intro tripleI) (fastforce simp: unsent_def)+

lemma post_unsent:
  assumes "jwt_laws env made sent" and "distinct (sent_jwts form headers)" and "set (sent_jwts form headers) \<subseteq> X"
  shows "triple (unsent made sent X) (ae_post env url form headers)
     (\<lambda>_. unsent made sent {}) (\<lambda>_. unsent made sent {})"
proof -
  have "unsent made sent {} w'" if "unsent made sent X w" and "ae_post env url form headers w = (r, w')" for w r w'
  proof -
    have "made w' = made w" "sent w' = sent_jwts form headers @ sent w"
      using assms(1) that(2) by (auto simp: jwt_laws_def)
    with that(1) assms(2,3) show ?thesis by (auto simp: unsent_def)
  qed
  then show ?thesis by (intro tripleI) blast+
qed

lemma triple_on_world:
  "triple P m Q R \<Longrightarrow> triple (\<lambda>s. P (as_world s)) (on_world m) (\<lambda>x s. Q x (as_world s)) (\<lambda>e s. R e (as_world s))"
  by (force simp: triple_def on_world_def split: prod.splits sum.splits)

abbreviation unsent_in :: "('w \<Rightarrow> string list) \<Rightarrow> ('w \<Rightarrow> string list) \<Rightarrow> string set \<Rightarrow> 'w auth_state \<Rightarrow> bool" where
  "unsent_in made sent X \<equiv> (\<lambda>s. unsent made sent X (as_world s))"

lemma assertion_unsent:
  assumes "jwt_laws env made sent"
  shows "triple (unsent made sent X) (assertion env cr) (\<lambda>j w. unsent made sent (insert j X) w \<and> j \<notin> X)
    (\<lambda>_. unsent made sent X)"
  unfolding assertion_def Let_def
  using assms by (intro triple_bind [OF keeps_unsent] jwt_unsent) (auto simp: jwt_laws_def)

lemma proof_unsent:
  assumes "jwt_laws env made sent"
  shows "triple (unsent made sent X) (dpop_proof env dp m u h n) (\<lambda>j w. unsent made sent (insert j X) w \<and> j \<notin> X)
    (\<lambda>_. unsent made sent X)"
  unfolding dpop_proof_def
  using assms by (intro triple_bind [OF keeps_unsent] jwt_unsent) (auto simp: jwt_laws_def)

definition maker_ok :: "('w \<Rightarrow> string list) \<Rightarrow> ('w \<Rightarrow> string list) \<Rightarrow> 'w proof_maker option \<Rightarrow> bool" where
  "maker_ok made sent maker \<longleftrightarrow>
     (\<forall>f n X. maker = Some f \<longrightarrow>
        triple (unsent_in made sent X) (f n) (\<lambda>p s. unsent_in made sent (insert p X) s \<and> p \<notin> X)
          (\<lambda>_. unsent_in made sent X))"

lemma token_proof_unsent:
  assumes "jwt_laws env made sent"
  shows "triple (unsent_in made sent X) (token_proof env cr dp n)
    (\<lambda>p s. unsent_in made sent (insert p X) s \<and> p \<notin> X) (\<lambda>_. unsent_in made sent X)"
  unfolding token_proof_def
proof (rule triple_bind)
  show "triple (unsent_in made sent X) (io_modify (\<lambda>s. if n = None then s else s\<lparr>as_nonce := n\<rparr>))
      (\<lambda>_. unsent_in made sent X) (\<lambda>_. unsent_in made sent X)"
    by (rule triple_modify) simp
next
  show "triple (unsent_in made sent X) (\<lambda>s. on_world (dpop_proof env dp ''POST'' (token_url cr) None (as_nonce s)) s)
      (\<lambda>p s. unsent_in made sent (insert p X) s \<and> p \<notin> X) (\<lambda>_. unsent_in made sent X)" for u :: unit
    by (rule triple_get) (rule triple_on_world [OF proof_unsent [OF assms]])
qed

lemma attempt_unsent:
  assumes "jwt_laws env made sent" and "maker_ok made sent maker"
  shows "triple (unsent_in made sent {}) (mint_attempt env cr maker n)
    (\<lambda>_. unsent_in made sent {}) (\<lambda>_. unsent_in made sent {})"
  unfolding mint_attempt_def
proof (rule triple_bind)
  show "triple (unsent_in made sent {}) (on_world (assertion env cr)) (\<lambda>a. unsent_in made sent {a})
      (\<lambda>_. unsent_in made sent {})"
    by (rule triple_weaken [OF triple_on_world [OF assertion_unsent [OF assms(1)]]]) auto
next
  fix a
  let ?I = "\<lambda>extra s. \<exists>X. unsent_in made sent X s \<and> distinct (sent_jwts (token_form cr a) extra) \<and>
      set (sent_jwts (token_form cr a) extra) \<subseteq> X"
  let ?extra = "case maker of None \<Rightarrow> io_return [] | Some prove \<Rightarrow> io_bind (prove n) (\<lambda>p. io_return [(''DPoP'', p)])"
  have form: "sent_jwts (token_form cr a) h = a # map snd (filter (\<lambda>(k, v). k = ''DPoP'') h)" for h
    by (simp add: sent_jwts_def token_form_def)
  have "triple (unsent_in made sent {a}) ?extra ?I (\<lambda>_. unsent_in made sent {})"
  proof (cases maker)
    case None
    show ?thesis
      unfolding None option.case by (rule triple_return, rule exI [of _ "{a}"]) (simp add: form)
  next
    case (Some prove)
    then have "triple (unsent_in made sent {a}) (prove n) (\<lambda>p s. unsent_in made sent {p, a} s \<and> p \<notin> {a})
        (\<lambda>_. unsent_in made sent {a})"
      using assms(2) unfolding maker_ok_def by blast
    then have "triple (unsent_in made sent {a}) (prove n) (\<lambda>p s. unsent_in made sent {p, a} s \<and> p \<noteq> a)
        (\<lambda>_. unsent_in made sent {})"
      by (rule triple_weaken) (auto intro: unsent_subset)
    then show ?thesis
      unfolding Some option.case
      by (rule triple_bind) (rule triple_return, rule_tac x = "{x, a}" in exI, auto simp: form)
  qed
  moreover have "triple (?I extra) (on_world (ae_post env (token_url cr) (token_form cr a)
      ((''Accept'', ''application/json'') # extra))) (\<lambda>_. unsent_in made sent {}) (\<lambda>_. unsent_in made sent {})" for extra
  proof -
    have same: "sent_jwts (token_form cr a) ((''Accept'', ''application/json'') # extra) = sent_jwts (token_form cr a) extra"
      by (simp add: form)
    have "triple (unsent_in made sent X) (on_world (ae_post env (token_url cr) (token_form cr a)
        ((''Accept'', ''application/json'') # extra))) (\<lambda>_. unsent_in made sent {}) (\<lambda>_. unsent_in made sent {})"
      if "distinct (sent_jwts (token_form cr a) extra) \<and> set (sent_jwts (token_form cr a) extra) \<subseteq> X" for X
      by (rule triple_on_world [OF post_unsent [OF assms(1)]]) (simp_all add: same that)
    then show ?thesis by (rule triple_some)
  qed
  ultimately show "triple (\<lambda>s. unsent_in made sent {a} s) (io_bind ?extra (\<lambda>extra. on_world (ae_post env (token_url cr)
      (token_form cr a) ((''Accept'', ''application/json'') # extra))))
      (\<lambda>_. unsent_in made sent {}) (\<lambda>_. unsent_in made sent {})"
    by (rule triple_bind)
qed

abbreviation (input) kept :: "('s \<Rightarrow> bool) \<Rightarrow> ('a, 's) io \<Rightarrow> bool" where
  "kept I m \<equiv> triple I m (\<lambda>_. I) (\<lambda>_. I)"

lemma kept_res_io: "kept I (res_io r)"
  by (auto simp: triple_def res_io_def split: sum.split)

lemma mint_unsent:
  assumes laws: "jwt_laws env made sent" and maker: "maker_ok made sent maker"
  shows "kept (unsent_in made sent {}) (mint env cr maker)"
proof -
  let ?I = "unsent_in made sent {}"
  have clock: "kept ?I (on_world (ae_clock env))"
    using laws by (intro triple_on_world [OF keeps_unsent]) (simp add: jwt_laws_def)
  show ?thesis
    unfolding mint_def Let_def
    by (intro triple_bind [OF attempt_unsent [OF laws maker]] triple_bind [OF kept_res_io] triple_bind [OF clock]
        triple_bind [where Q = "\<lambda>_. ?I"] triple_option triple_if triple_return triple_raise
        attempt_unsent [OF laws maker])
qed

lemma token_unsent:
  assumes laws: "jwt_laws env made sent" and maker: "maker_ok made sent maker"
  shows "kept (unsent_in made sent {}) (okta_token env cr maker)"
proof -
  let ?I = "unsent_in made sent {}"
  have clock: "kept ?I (on_world (ae_clock env))"
    using laws by (intro triple_on_world [OF keeps_unsent]) (simp add: jwt_laws_def)
  have keep: "kept ?I (mint_and_keep env cr maker)"
    unfolding mint_and_keep_def
    by (rule triple_bind [OF mint_unsent [OF laws maker]], rule triple_bind [OF triple_modify [of ?I "\<lambda>_. ?I"]])
       (auto intro: triple_return)
  have "kept ?I (\<lambda>s. (case as_token s of None \<Rightarrow> mint_and_keep env cr maker
      | Some cached \<Rightarrow> io_bind (on_world (ae_clock env)) (\<lambda>now.
          if now < at_renew_at cached then io_return cached else mint_and_keep env cr maker)) s)"
    by (rule triple_get, rule triple_option [OF keep], rule triple_bind [OF clock], rule triple_if [OF triple_return keep])
  moreover have "okta_token env cr maker = (\<lambda>s. (case as_token s of None \<Rightarrow> mint_and_keep env cr maker
      | Some cached \<Rightarrow> io_bind (on_world (ae_clock env)) (\<lambda>now.
          if now < at_renew_at cached then io_return cached else mint_and_keep env cr maker)) s)"
    by (simp add: okta_token_def fun_eq_iff split: option.split)
  ultimately show ?thesis by simp
qed

lemma token_proof_ok: "jwt_laws env made sent \<Longrightarrow> maker_ok made sent (Some (token_proof env cr dp))"
  using token_proof_unsent by (fastforce simp: maker_ok_def)

lemma token_cached: "okta_token env cr maker s = (Inr t, s') \<Longrightarrow> as_token s' = Some t"
  by (auto simp: okta_token_def mint_and_keep_def io_bind_Inr_iff io_modify_def io_return_def on_world_def
      split: option.splits if_splits prod.splits)

subsection \<open>The two authorizers keep the protocol\<close>

definition bearer_usable :: "string \<Rightarrow> string \<Rightarrow> headers \<Rightarrow> 'w auth_state \<Rightarrow> bool" where
  "bearer_usable method_name url h s \<longleftrightarrow>
     (\<exists>t. as_token s = Some t \<and> str_casefold (at_token_type t) = ''bearer'' \<and>
        h = [(''Authorization'', ''Bearer '' @ at_value t)])"

interpretation bearer: authorizer "bearer_headers env cr" "\<lambda>_. True" bearer_usable
proof unfold_locales
  fix m u
  show "triple (\<lambda>_. True) (bearer_headers env cr m u) (\<lambda>h s. True \<and> bearer_usable m u h s) (\<lambda>_ _. True)"
    by (rule tripleI)
       (auto simp: bearer_headers_def bearer_usable_def io_bind_Inr_iff io_return_def io_raise_def
         dest: token_cached split: if_splits)
qed

text \<open>
  DPoP headers carry the cached token and a proof signed for this method and this URL, bound to
  the token, which no request has carried yet.
\<close>

definition dpop_usable ::
  "'w auth_env \<Rightarrow> dpop \<Rightarrow> ('w \<Rightarrow> string list) \<Rightarrow> ('w \<Rightarrow> string list) \<Rightarrow>
   string \<Rightarrow> string \<Rightarrow> headers \<Rightarrow> 'w auth_state \<Rightarrow> bool" where
  "dpop_usable env dp made sent method_name url h s \<longleftrightarrow>
     (\<exists>t a i j p w w'. as_token s = Some t \<and> str_casefold (at_token_type t) = ''dpop'' \<and>
        ath env (at_value t) = Inr a \<and>
        h = [(''Authorization'', ''DPoP '' @ at_value t), (''DPoP'', p)] \<and>
        ae_jwt env (proof_payload method_name url (Some a) None i j) (dp_key dp) (dp_algorithm dp)
          [(''typ'', JStr ''dpop+jwt''), (''jwk'', JObj (dp_public_jwk dp))] w = (Inr p, w') \<and>
        (jwt_laws env made sent \<longrightarrow> p \<in> set (made (as_world s)) - set (sent (as_world s))))"

definition dpop_invar :: "'w auth_env \<Rightarrow> ('w \<Rightarrow> string list) \<Rightarrow> ('w \<Rightarrow> string list) \<Rightarrow> 'w auth_state \<Rightarrow> bool" where
  "dpop_invar env made sent s \<longleftrightarrow> (jwt_laws env made sent \<longrightarrow> unsent_in made sent {} s)"

lemma proof_signed:
  "dpop_proof env dp m u h n w = (Inr p, w') \<Longrightarrow>
   \<exists>i j w1. ae_jwt env (proof_payload m u h n i j) (dp_key dp) (dp_algorithm dp)
     [(''typ'', JStr ''dpop+jwt''), (''jwk'', JObj (dp_public_jwk dp))] w1 = (Inr p, w')"
  by (auto simp: dpop_proof_def io_bind_Inr_iff)

lemma dpop_headers_kept:
  assumes "jwt_laws env made sent"
  shows "kept (unsent_in made sent {}) (dpop_headers env cr dp m u)"
proof -
  let ?I = "unsent_in made sent {}"
  have sign: "kept ?I (on_world (dpop_proof env dp m u a n))" for a n
    by (rule triple_weaken [OF triple_on_world [OF proof_unsent [OF assms, of "{}"]]]) (auto intro: unsent_subset)
  show ?thesis
    unfolding dpop_headers_def
    by (rule triple_bind [OF token_unsent [OF assms token_proof_ok [OF assms]]],
        intro triple_if triple_raise triple_bind [OF kept_res_io] triple_bind [OF sign] triple_return)
qed

lemma on_world_Inr_iff:
  "on_world m s = (Inr x, s') \<longleftrightarrow> (\<exists>w. m (as_world s) = (Inr x, w) \<and> s' = s\<lparr>as_world := w\<rparr>)"
  by (auto simp: on_world_def split: prod.splits)

lemma dpop_headers_parts:
  assumes "dpop_headers env cr dp m u s = (Inr h, s')"
  shows "\<exists>t s1 a p. okta_token env cr (Some (token_proof env cr dp)) s = (Inr t, s1) \<and>
    str_casefold (at_token_type t) = ''dpop'' \<and> ath env (at_value t) = Inr a \<and>
    dpop_proof env dp m u (Some a) None (as_world s1) = (Inr p, as_world s') \<and>
    s' = s1\<lparr>as_world := as_world s'\<rparr> \<and>
    h = [(''Authorization'', ''DPoP '' @ at_value t), (''DPoP'', p)]"
  using assms
  by (auto simp: dpop_headers_def io_bind_Inr_iff io_raise_def io_return_def res_io_def on_world_Inr_iff
      split: if_splits)

lemma dpop_headers_usable:
  assumes run: "dpop_headers env cr dp m u s = (Inr h, s')" and inv: "dpop_invar env made sent s"
  shows "dpop_usable env dp made sent m u h s'"
proof -
  from dpop_headers_parts [OF run] obtain t s1 a p where
    parts: "okta_token env cr (Some (token_proof env cr dp)) s = (Inr t, s1)"
      "str_casefold (at_token_type t) = ''dpop''" "ath env (at_value t) = Inr a"
      "dpop_proof env dp m u (Some a) None (as_world s1) = (Inr p, as_world s')"
      "s' = s1\<lparr>as_world := as_world s'\<rparr>" "h = [(''Authorization'', ''DPoP '' @ at_value t), (''DPoP'', p)]"
    by blast
  have "as_token s' = Some t" using token_cached [OF parts(1)] parts(5) by (metis auth_state.select_convs(1)
        auth_state.surjective auth_state.update_convs(3))
  moreover have "p \<in> set (made (as_world s')) - set (sent (as_world s'))" if laws: "jwt_laws env made sent"
  proof -
    have "unsent_in made sent {} s" using inv laws by (simp add: dpop_invar_def)
    from triple_Inr [OF token_unsent [OF laws token_proof_ok [OF laws]] this parts(1)]
    have "unsent made sent {} (as_world s1)" .
    from triple_Inr [OF proof_unsent [OF laws] this parts(4)] show ?thesis by (simp add: unsent_def)
  qed
  ultimately show ?thesis
    using proof_signed [OF parts(4)] parts(2,3,6) unfolding dpop_usable_def by blast
qed

interpretation dpop: authorizer "dpop_headers env cr dp" "dpop_invar env made sent" "dpop_usable env dp made sent"
proof unfold_locales
  fix m u
  have keep: "dpop_invar env made sent s'" if "dpop_headers env cr dp m u s = (r, s')" "dpop_invar env made sent s" for r s s'
    using that triple_Inr [OF dpop_headers_kept [of env made sent cr dp m u]]
      triple_Inl [OF dpop_headers_kept [of env made sent cr dp m u]]
    unfolding dpop_invar_def by (cases r) blast+
  show "triple (dpop_invar env made sent) (dpop_headers env cr dp m u)
      (\<lambda>h s. dpop_invar env made sent s \<and> dpop_usable env dp made sent m u h s) (\<lambda>_. dpop_invar env made sent)"
    by (rule tripleI) (auto intro: keep dpop_headers_usable)
qed

subsection \<open>Properties of the credentials\<close>


text \<open>An environment for the witnesses: signed and sent JWTs are kept, the first answers of the endpoint
  are given, and a new JWT is longer than all before.\<close>

type_synonym journal = "string list \<times> string list \<times> http_response list"

definition answer :: "int \<Rightarrow> json_dict \<Rightarrow> (string \<times> string) list \<Rightarrow> http_response" where
  "answer status body hs = \<lparr>hr_status = status, hr_json = Some (JObj body), hr_header = map_of hs,
     hr_header_list = (\<lambda>k. []), hr_reason = []\<rparr>"

definition journal_env :: "journal auth_env" where
  "journal_env =
     \<lparr>ae_post = (\<lambda>url form headers (made, sent, answers).
        (case answers of [] \<Rightarrow> Inl TransportErr | r # _ \<Rightarrow> Inr r, made, sent_jwts form headers @ sent, tl answers)),
      ae_clock = io_return 1000, ae_proof_clock = io_return 1000,
      ae_jwt = (\<lambda>payload key alg hdr (made, rest). (Inr (concat made @ ''x''), (concat made @ ''x'') # made, rest)),
      ae_uuid = io_return ''u'', ae_token_urlsafe = io_return ''r'', ae_sha256 = id, ae_float = (\<lambda>s. None),
      ae_export_jwk = (\<lambda>pem rsa. Inr [(''kty'', JStr ''RSA''), (''n'', JStr ''1''), (''key_ops'', JList [])])\<rparr>"



definition sample_credentials :: okta_credentials where
  "sample_credentials = \<lparr>ac_org_url = ''https://o.okta.com'', ac_client_id = ''0oa1'', ac_private_key = ''k'',
     ac_kid = ''kid1'', ac_scopes = [''okta.logs.read''], ac_algorithm = ''RS256''\<rparr>"


definition challenge_state :: "journal auth_state" where
  "challenge_state = \<lparr>as_token = None, as_nonce = None, as_world = ([], [],
     [answer 400 [(''error'', JStr ''use_dpop_nonce'')] [(''dpop-nonce'', ''n1'')],
      answer 200 [(''access_token'', JStr ''T''), (''token_type'', JStr ''DPoP''), (''expires_in'', JInt 3600)] []])\<rparr>"


text \<open>
  What the environment says about time: \<open>now\<close> is the time, which a clock reads, and \<open>until\<close> the end
  of the validity of a token. An answer with a token arrives while at least four fifths of its
  lifetime are left.
\<close>

definition answered_in_time ::
  "'w auth_env \<Rightarrow> (string \<Rightarrow> seconds) \<Rightarrow> seconds \<Rightarrow> http_response \<Rightarrow> bool" where
  "answered_in_time env until now response \<longleftrightarrow>
     (\<forall>v e. map_of (json_object response) ''access_token'' = Some v \<longrightarrow>
        (case map_of (json_object response) ''expires_in'' of None \<Rightarrow> Inr 3600 | Some e \<Rightarrow> py_float env e) = Inr e \<longrightarrow>
        0 < e \<and> now + e * 4 / 5 \<le> until (py_str v))"

definition time_laws :: "'w auth_env \<Rightarrow> ('w \<Rightarrow> seconds) \<Rightarrow> (string \<Rightarrow> seconds) \<Rightarrow> bool" where
  "time_laws env now until \<longleftrightarrow>
     (\<forall>w r w'. ae_clock env w = (r, w') \<longrightarrow> now w' = now w \<and> (\<forall>t. r = Inr t \<longrightarrow> t = now w)) \<and>
     (\<forall>url form headers w response w'. ae_post env url form headers w = (Inr response, w') \<longrightarrow>
        answered_in_time env until (now w') response)"

lemma attempt_posts:
  "mint_attempt env cr maker n s = (Inr response, s') \<Longrightarrow>
   \<exists>url form headers w. ae_post env url form headers w = (Inr response, as_world s')"
  by (auto simp: mint_attempt_def io_bind_Inr_iff on_world_Inr_iff) blast

lemma mint_in_time:
  assumes laws: "time_laws env now until" and run: "mint env cr maker s = (Inr t, s')"
  shows "now (as_world s') < at_renew_at t \<and> at_renew_at t \<le> until (at_value t)"
proof -
  from run obtain first s1 response s2 where
    first: "mint_attempt env cr maker None s = (Inr first, s1)"
    and second: "(case (if (case maker of None \<Rightarrow> False | Some _ \<Rightarrow> hr_status first = 400) then nonce_challenge first else None) of
          None \<Rightarrow> io_return first
        | Some nonce \<Rightarrow> mint_attempt env cr maker (Some nonce)) s1 = (Inr response, s2)"
    and rest: "(if hr_status response \<noteq> 200 then io_raise (token_error response)
     else (let body = json_object response in
       case map_of body ''access_token'' of
         None \<Rightarrow> io_raise (AuthErr ''Okta returned no access_token'')
       | Some v \<Rightarrow>
           io_bind (res_io (case map_of body ''expires_in'' of None \<Rightarrow> Inr 3600 | Some e \<Rightarrow> py_float env e)) (\<lambda>expires_in.
           io_bind (on_world (ae_clock env)) (\<lambda>now.
           io_return \<lparr>at_value = py_str v,
             at_token_type = (case map_of body ''token_type'' of None \<Rightarrow> ''Bearer'' | Some t \<Rightarrow> py_str t),
             at_renew_at = now + expires_in * TOKEN_RENEWAL_MARGIN\<rparr>)))) s2 = (Inr t, s')"
    unfolding mint_def io_bind_Inr_iff by blast
  have "\<exists>url form headers w. ae_post env url form headers w = (Inr response, as_world s2)"
    using attempt_posts [OF first] second by (auto split: option.splits intro: attempt_posts simp: io_return_def)
  then have timely: "answered_in_time env until (now (as_world s2)) response"
    using laws unfolding time_laws_def by blast
  from rest obtain v e w c where parts: "map_of (json_object response) ''access_token'' = Some v"
    "(case map_of (json_object response) ''expires_in'' of None \<Rightarrow> Inr 3600 | Some e \<Rightarrow> py_float env e) = Inr e"
    "ae_clock env (as_world s2) = (Inr c, w)" "as_world s' = w"
    "at_value t = py_str v" "at_renew_at t = c + e * TOKEN_RENEWAL_MARGIN"
    by (auto simp: Let_def io_raise_def io_bind_Inr_iff res_io_def on_world_Inr_iff io_return_def
        split: if_splits option.splits)
  have "now w = now (as_world s2)" "c = now (as_world s2)" using laws parts(3) unfolding time_laws_def by blast+
  moreover have "0 < e" "now (as_world s2) + e * 4 / 5 \<le> until (py_str v)"
    using timely parts(1,2) unfolding answered_in_time_def by blast+
  ultimately show ?thesis using parts(4-6) by (simp add: TOKEN_RENEWAL_MARGIN_def)
qed

text \<open>C26: A token is used only before its renewal time, and that is before it expires, if an answer of
  the token endpoint takes at most a fifth of the lifetime it grants. There is no need for a refresh.\<close>

theorem token_renewed_in_time:
  assumes "time_laws env now until"
    and "case as_token s of None \<Rightarrow> True | Some t \<Rightarrow> at_renew_at t \<le> until (at_value t)"
    and "okta_token env cr maker s = (Inr t, s')"
  shows "now (as_world s') < at_renew_at t \<and> at_renew_at t \<le> until (at_value t) \<and> as_token s' = Some t"
proof -
  have minted: ?thesis if "mint_and_keep env cr maker s1 = (Inr t, s')" for s1
    using that mint_in_time [OF assms(1)]
    by (auto simp: mint_and_keep_def io_bind_Inr_iff io_modify_def io_return_def)
  show ?thesis
  proof (cases "as_token s")
    case None
    with assms(3) minted show ?thesis by (simp add: okta_token_def)
  next
    case (Some cached)
    with assms(3) obtain c w where c: "ae_clock env (as_world s) = (Inr c, w)"
      "(if c < at_renew_at cached then io_return cached else mint_and_keep env cr maker) (s\<lparr>as_world := w\<rparr>) = (Inr t, s')"
      by (auto simp: okta_token_def io_bind_Inr_iff on_world_Inr_iff)
    have time: "now w = now (as_world s)" "c = now (as_world s)"
      using assms(1) c(1) unfolding time_laws_def by blast+
    show ?thesis
    proof (cases "c < at_renew_at cached")
      case True
      with c(2) have "t = cached" "s' = s\<lparr>as_world := w\<rparr>" by (simp_all add: io_return_def)
      with True time Some assms(2) show ?thesis by simp
    next
      case False
      with c(2) minted show ?thesis by simp
    qed
  qed
qed

definition hour_env :: "journal auth_env" where
  "hour_env = journal_env\<lparr>ae_post := \<lambda>url form headers w.
     (Inr (answer 200 [(''access_token'', JStr ''T''), (''expires_in'', JInt 3600)] []), w)\<rparr>"

theorem token_renewed_in_time_witness:
  "\<exists>t s'. okta_token hour_env sample_credentials None challenge_state = (Inr t, s') \<and>
     1000 < at_renew_at t \<and> at_renew_at t \<le> 4600 \<and> as_token s' = Some t"
proof -
  have laws: "time_laws hour_env (\<lambda>w. 1000) (\<lambda>v. 4600)"
    by (auto simp: time_laws_def hour_env_def journal_env_def io_return_def answered_in_time_def answer_def
        json_object_def py_float_def)
  have cached: "case as_token challenge_state of None \<Rightarrow> True | Some t \<Rightarrow> at_renew_at t \<le> 4600"
    by (simp add: challenge_state_def)
  have "(case okta_token hour_env sample_credentials None challenge_state of (Inl e, s') \<Rightarrow> False | (Inr t, s') \<Rightarrow> True)"
    by code_simp
  then obtain t s' where run: "okta_token hour_env sample_credentials None challenge_state = (Inr t, s')"
    by (auto split: prod.splits sum.splits)
  from token_renewed_in_time [OF laws cached run] run show ?thesis by blast
qed

text \<open>The guard of the public key: a JWK that is put into proofs has no private member, whatever the
  library exports, and loses nothing of the export but \<open>key_ops\<close>.\<close>

theorem proof_key_is_public:
  "new_dpop env key algorithm = Inr dp \<Longrightarrow>
     set (map fst (dp_public_jwk dp)) \<inter> {''d'', ''p'', ''q'', ''dp'', ''dq'', ''qi''} = {} \<and>
     algorithm \<in> set SUPPORTED_ALGORITHMS \<and>
     (\<exists>exported. ae_export_jwk env key (starts_with algorithm ''RS'') = Inr exported \<and>
        dp_public_jwk dp = filter (\<lambda>(k, v). k \<noteq> ''key_ops'') exported)"
proof -
  assume made: "new_dpop env key algorithm = Inr dp"
  then obtain jwk where jwk: "public_jwk env key algorithm = Inr jwk" "dp_public_jwk dp = jwk"
    and alg: "algorithm \<in> set SUPPORTED_ALGORITHMS"
    by (auto simp: new_dpop_def res_bind_Inr_iff split: if_splits)
  from jwk(1) obtain exported where exported: "ae_export_jwk env key (starts_with algorithm ''RS'') = Inr exported"
    "jwk = filter (\<lambda>(k, v). k \<noteq> ''key_ops'') exported" "filter (\<lambda>name. name \<in> set (map fst jwk)) private_members = []"
    by (auto simp: public_jwk_def res_bind_Inr_iff Let_def split: if_splits)
  then have "set (map fst jwk) \<inter> set private_members = {}" by (auto simp: filter_empty_conv)
  moreover have "set private_members = {''d'', ''p'', ''q'', ''dp'', ''dq'', ''qi''}" by (auto simp: private_members_def)
  ultimately show ?thesis using exported(1,2) jwk(2) alg by simp
qed

theorem proof_key_is_public_witness:
  "set (map fst (dp_public_jwk \<lparr>dp_key = ''k'', dp_algorithm = ''ES256'',
     dp_public_jwk = [(''kty'', JStr ''RSA''), (''n'', JStr ''1'')]\<rparr>)) \<inter> {''d'', ''p'', ''q'', ''dp'', ''dq'', ''qi''} = {}"
proof -
  have "new_dpop journal_env ''k'' ''ES256'' = Inr \<lparr>dp_key = ''k'', dp_algorithm = ''ES256'',
     dp_public_jwk = [(''kty'', JStr ''RSA''), (''n'', JStr ''1'')]\<rparr>" by code_simp
  from proof_key_is_public [OF this] show ?thesis by blast
qed

end
