(* ===== verification/OktaSource.thy ===== *)
theory OktaSource
  imports OktaAuth RunLoop
begin

section \<open>The Okta source\<close>

text \<open>
  \<open>src/ocsf_connector/sources/okta/source.py\<close>: the two opening queries, \<open>fetch\<close> with its retries
  and its waits for the rate limit, and the reading of a response. The HTTP client, the
  authorizer, the clock, \<open>sleep\<close>, \<open>jitter\<close> and the metric are the fields of \<open>source_env\<close> on a state
  \<open>'s\<close>; \<open>source_state\<close> is that state with the remembered budget. \<open>fetch_turn\<close> is one turn of the
  \<open>while\<close> of \<open>fetch\<close>, and \<open>fetch_loop\<close> the loop, which need not end: a vendor that answers 429
  for ever is waited for.
\<close>

definition LOGS_PATH :: string where
  "LOGS_PATH = ''/api/v1/logs''"

definition MAX_LIMIT :: int where
  "MAX_LIMIT = 1000"

definition RATE_LIMIT_WINDOW_SECONDS :: seconds where
  "RATE_LIMIT_WINDOW_SECONDS = 60"

definition RETENTION_SECONDS :: seconds where
  "RETENTION_SECONDS = 90 * 24 * 60 * 60"

definition BACKOFF_CAP_SECONDS :: seconds where
  "BACKOFF_CAP_SECONDS = 30"

definition RETRYABLE_STATUS :: "int list" where
  "RETRYABLE_STATUS = [500, 502, 503, 504]"

text \<open>What \<open>retention_shortfall\<close> uses of \<open>datetime\<close>: \<open>fromisoformat\<close> with None where it raises,
  whether there is an offset, \<open>replace(tzinfo=UTC)\<close>, and \<open>timestamp\<close>.\<close>

record 't datetimes =
  dt_fromisoformat :: "string \<Rightarrow> 't option"
  dt_aware :: "'t \<Rightarrow> bool"
  dt_as_utc :: "'t \<Rightarrow> 't"
  dt_timestamp :: "'t \<Rightarrow> seconds"

definition retention_shortfall :: "'t datetimes \<Rightarrow> string \<Rightarrow> seconds \<Rightarrow> exn + seconds" where
  "retention_shortfall dt since now =
     (case dt_fromisoformat dt since of
        None \<Rightarrow> Inl (ValueError since)
      | Some opened \<Rightarrow>
          (let bound = (if dt_aware dt opened then opened else dt_as_utc dt opened)
           in Inr (max 0 (now - RETENTION_SECONDS - dt_timestamp dt bound))))"

subsection \<open>The configuration and the opening queries\<close>

record okta_source =
  os_org_url :: string
  os_limit :: int
  os_rate_limit_reserve :: int
  os_max_attempts :: nat
  os_max_jitter_seconds :: seconds

definition new_source :: "okta_source \<Rightarrow> exn + okta_source" where
  "new_source cfg =
     (if \<not> (1 \<le> os_limit cfg \<and> os_limit cfg \<le> MAX_LIMIT) then Inl (ValueError (int_str (os_limit cfg)))
      else if \<not> starts_with (os_org_url cfg) ''https://'' then Inl (ValueError (os_org_url cfg))
      else Inr (cfg\<lparr>os_org_url := rstrip_slash (os_org_url cfg)\<rparr>))"

definition logs_endpoint :: "okta_source \<Rightarrow> string" where
  "logs_endpoint cfg = os_org_url cfg @ LOGS_PATH @ ''?''"

definition opening_query :: "okta_source \<Rightarrow> string \<Rightarrow> (string \<times> string) list \<Rightarrow> exn + string" where
  "opening_query cfg since params =
     (if since = [] then Inl (ValueError ''an opening query needs a since'')
      else Inr (logs_endpoint cfg @ urlencode (params @ [(''limit'', int_str (os_limit cfg))])))"

definition start_tail :: "okta_source \<Rightarrow> string \<Rightarrow> exn + string" where
  "start_tail cfg since = opening_query cfg since [(''since'', since), (''sortOrder'', ''ASCENDING'')]"

definition start_backfill :: "okta_source \<Rightarrow> string \<Rightarrow> string \<Rightarrow> exn + string" where
  "start_backfill cfg since until =
     opening_query cfg since [(''since'', since), (''until'', until), (''sortOrder'', ''ASCENDING'')]"

subsection \<open>Reading a response\<close>

text \<open>The rest of a text behind a prefix, letters of the prefix in any case.\<close>

fun after_word :: "string \<Rightarrow> string \<Rightarrow> string option" where
  "after_word [] s = Some s"
| "after_word (w # ws) [] = None"
| "after_word (w # ws) (c # cs) = (if lower_char c = w then after_word ws cs else None)"

definition after_spaces :: "string \<Rightarrow> string" where
  "after_spaces s = dropWhile is_space s"

text \<open>
  \<open>_REL\<close> at the start of a text: a semicolon, \<open>rel\<close>, an equals sign, with white space around, and a
  value that is quoted, or else has no white space, semicolon or comma. The value and what follows.
\<close>

definition bare_char :: "char \<Rightarrow> bool" where
  "bare_char c \<longleftrightarrow> \<not> is_space c \<and> c \<noteq> CHR '';'' \<and> c \<noteq> CHR '',''"

definition rel_value :: "string \<Rightarrow> (string \<times> string) option" where
  "rel_value s =
     (case s of
        c # cs \<Rightarrow>
          if c = CHR 0x22 \<and> CHR 0x22 \<in> set cs
          then Some (takeWhile (\<lambda>d. d \<noteq> CHR 0x22) cs, tl (dropWhile (\<lambda>d. d \<noteq> CHR 0x22) cs))
          else if bare_char c then Some (takeWhile bare_char s, dropWhile bare_char s)
          else None
      | [] \<Rightarrow> None)"

definition rel_at :: "string \<Rightarrow> (string \<times> string) option" where
  "rel_at s =
     (case s of
        [] \<Rightarrow> None
      | c # cs \<Rightarrow>
          if c \<noteq> CHR '';'' then None
          else (case after_word ''rel'' (after_spaces cs) of
                  None \<Rightarrow> None
                | Some r \<Rightarrow>
                    (case after_spaces r of
                       [] \<Rightarrow> None
                     | e # es \<Rightarrow> if e \<noteq> CHR ''='' then None else rel_value (after_spaces es))))"

lemma after_word_shorter: "after_word w s = Some r \<Longrightarrow> length r \<le> length s"
  by (induction w s rule: after_word.induct) (auto split: if_splits)

lemma rel_value_shorter: "rel_value s = Some (v, r) \<Longrightarrow> length r \<le> length s"
proof (cases s)
  case (Cons c cs)
  assume "rel_value s = Some (v, r)"
  with Cons have "r = tl (dropWhile (\<lambda>d. d \<noteq> CHR 0x22) cs) \<or> r = dropWhile bare_char s"
    by (auto simp: rel_value_def split: if_splits)
  then show "length r \<le> length s"
    using length_dropWhile_le [of "\<lambda>d. d \<noteq> CHR 0x22" cs] length_dropWhile_le [of bare_char s]
    by (auto simp: Cons)
qed (simp add: rel_value_def)

lemma rel_at_shorter: "rel_at s = Some (v, r) \<Longrightarrow> length r < length s"
proof -
  assume at: "rel_at s = Some (v, r)"
  then obtain c cs r1 e es where parts: "s = c # cs" "after_word ''rel'' (after_spaces cs) = Some r1"
    "after_spaces r1 = e # es" "rel_value (after_spaces es) = Some (v, r)"
    by (auto simp: rel_at_def split: list.splits if_splits option.splits)
  have drop: "length (after_spaces t) \<le> length t" for t by (simp add: after_spaces_def length_dropWhile_le)
  have "length r \<le> length es" using rel_value_shorter [OF parts(4)] drop [of es] by simp
  moreover have "length (e # es) \<le> length r1" using drop [of r1] parts(3) by simp
  moreover have "length r1 \<le> length cs" using after_word_shorter [OF parts(2)] drop [of cs] by simp
  ultimately show ?thesis using parts(1) by simp
qed

text \<open>\<open>_REL.findall\<close>.\<close>

function find_rels :: "string \<Rightarrow> string list" where
  "find_rels [] = []"
| "find_rels (c # cs) =
     (case rel_at (c # cs) of None \<Rightarrow> find_rels cs | Some (v, rest) \<Rightarrow> v # find_rels rest)"
  by pat_completeness auto
termination
  by (relation "measure length") (auto dest: rel_at_shorter)

text \<open>\<open>_LINK_VALUE.findall\<close>: a text in angle brackets, and what follows up to the next bracket.\<close>

function find_links :: "string \<Rightarrow> (string \<times> string) list" where
  "find_links [] = []"
| "find_links (c # cs) =
     (if c = CHR ''<'' \<and> CHR ''>'' \<in> set cs
      then (takeWhile (\<lambda>d. d \<noteq> CHR ''>'') cs,
            takeWhile (\<lambda>d. d \<noteq> CHR ''<'') (tl (dropWhile (\<lambda>d. d \<noteq> CHR ''>'') cs))) #
           find_links (dropWhile (\<lambda>d. d \<noteq> CHR ''<'') (tl (dropWhile (\<lambda>d. d \<noteq> CHR ''>'') cs)))
      else find_links cs)"
  by pat_completeness auto
termination
proof (relation "measure length")
  fix c :: char and cs
  have "length (dropWhile (\<lambda>d. d \<noteq> CHR ''<'') (tl (dropWhile (\<lambda>d. d \<noteq> CHR ''>'') cs))) \<le> length cs"
    using length_dropWhile_le [of "\<lambda>d. d \<noteq> CHR ''<''" "tl (dropWhile (\<lambda>d. d \<noteq> CHR ''>'') cs)"]
      length_dropWhile_le [of "\<lambda>d. d \<noteq> CHR ''>''" cs] by simp
  then show "(dropWhile (\<lambda>d. d \<noteq> CHR ''<'') (tl (dropWhile (\<lambda>d. d \<noteq> CHR ''>'') cs)), c # cs) \<in> measure length"
    by simp
qed simp_all

definition is_next :: "string \<Rightarrow> bool" where
  "is_next rel \<longleftrightarrow> ''next'' \<in> set (str_split (str_casefold rel))"

definition header_next :: "string \<Rightarrow> string option" where
  "header_next header =
     map_option fst (List.find (\<lambda>(url, params). list_ex is_next (find_rels params)) (find_links header))"

definition next_link :: "http_response \<Rightarrow> string option" where
  "next_link response =
     (case List.find (\<lambda>h. header_next h \<noteq> None) (hr_header_list response ''link'') of
        None \<Rightarrow> None | Some h \<Rightarrow> header_next h)"

definition int_header :: "http_response \<Rightarrow> string \<Rightarrow> int option" where
  "int_header response name =
     (case hr_header response name of
        None \<Rightarrow> None | Some v \<Rightarrow> (case int_of_string v of Inl _ \<Rightarrow> None | Inr i \<Rightarrow> Some i))"

definition api_error :: "http_response \<Rightarrow> exn" where
  "api_error response =
     (case hr_json response of
        Some (JObj body) \<Rightarrow>
          OktaApiError (Some (hr_status response)) (map_option py_str (map_of body ''errorCode''))
            (case map_of body ''errorSummary'' of None \<Rightarrow> hr_reason response | Some v \<Rightarrow> py_str v)
      | _ \<Rightarrow> OktaApiError (Some (hr_status response)) None (hr_reason response))"

definition page_of :: "http_response \<Rightarrow> exn + json_dict page" where
  "page_of response =
     (case hr_json response of
        None \<Rightarrow> Inl (OktaApiError (Some (hr_status response)) None ''response body is not JSON'')
      | Some (JList events) \<Rightarrow>
          (if list_all (\<lambda>e. case e of JObj _ \<Rightarrow> True | _ \<Rightarrow> False) events
           then Inr \<lparr>pg_records = map (\<lambda>e. case e of JObj d \<Rightarrow> d | _ \<Rightarrow> []) events,
                     pg_next_cursor = next_link response\<rparr>
           else Inl (OktaApiError (Some (hr_status response)) None ''expected a JSON array of events''))
      | Some _ \<Rightarrow> Inl (OktaApiError (Some (hr_status response)) None ''expected a JSON array of events''))"

subsection \<open>\<open>fetch\<close>\<close>

record 's source_env =
  se_get :: "string \<Rightarrow> headers \<Rightarrow> (http_response, 's) io"
  se_auth :: "string \<Rightarrow> string \<Rightarrow> (headers, 's) io"
  se_clock :: "(seconds, 's) io"
  se_sleep :: "seconds \<Rightarrow> (unit, 's) io"
  se_jitter :: "(seconds, 's) io"
  se_report :: "int \<Rightarrow> 's \<Rightarrow> 's"

record 's source_state =
  so_remaining :: "int option"
  so_reset_at :: "seconds option"
  so_rest :: 's

definition outside :: "('a, 's) io \<Rightarrow> ('a, 's source_state) io" where
  "outside m s = (case m (so_rest s) of (r, w) \<Rightarrow> (r, s\<lparr>so_rest := w\<rparr>))"

text \<open>\<open>_until\<close> and \<open>_backoff\<close>.\<close>

definition wait_until :: "'s source_env \<Rightarrow> okta_source \<Rightarrow> seconds option \<Rightarrow> (seconds, 's) io" where
  "wait_until env cfg reset_at =
     io_bind (case reset_at of
         None \<Rightarrow> io_return RATE_LIMIT_WINDOW_SECONDS
       | Some t \<Rightarrow> io_bind (se_clock env) (\<lambda>now. io_return (t - now))) (\<lambda>wait.
     io_bind (se_jitter env) (\<lambda>jitter.
     io_return (min (max wait 0) (2 * RATE_LIMIT_WINDOW_SECONDS) + jitter * os_max_jitter_seconds cfg)))"

definition backoff :: "'s source_env \<Rightarrow> nat \<Rightarrow> (seconds, 's) io" where
  "backoff env failures =
     io_bind (se_jitter env) (\<lambda>jitter. io_return (jitter * min BACKOFF_CAP_SECONDS (2 ^ failures)))"

definition respect_budget :: "'s source_env \<Rightarrow> okta_source \<Rightarrow> (unit, 's source_state) io" where
  "respect_budget env cfg s =
     (case so_remaining s of
        None \<Rightarrow> (Inr (), s)
      | Some remaining \<Rightarrow>
          if os_rate_limit_reserve cfg < remaining then (Inr (), s)
          else outside (io_bind (wait_until env cfg (so_reset_at s)) (se_sleep env)) (s\<lparr>so_remaining := None\<rparr>))"

definition observe_budget :: "'s source_env \<Rightarrow> http_response \<Rightarrow> 's source_state \<Rightarrow> 's source_state" where
  "observe_budget env response s =
     (case (int_header response ''X-Rate-Limit-Remaining'', int_header response ''X-Rate-Limit-Reset'') of
        (Some remaining, Some reset) \<Rightarrow>
          s\<lparr>so_remaining := Some remaining, so_reset_at := Some (of_int reset),
            so_rest := se_report env remaining (so_rest s)\<rparr>
      | _ \<Rightarrow> s)"

text \<open>A failure that counts: raise \<open>x\<close> or wait.\<close>

definition count_failure ::
  "'s source_env \<Rightarrow> okta_source \<Rightarrow> nat \<Rightarrow> exn \<Rightarrow> (json_dict page + nat, 's source_state) io" where
  "count_failure env cfg failures x =
     (if os_max_attempts cfg \<le> failures then io_raise x
      else io_bind (outside (io_bind (backoff env failures) (se_sleep env))) (\<lambda>_. io_return (Inr failures)))"

definition on_response ::
  "'s source_env \<Rightarrow> okta_source \<Rightarrow> nat \<Rightarrow> http_response \<Rightarrow> (json_dict page + nat, 's source_state) io" where
  "on_response env cfg failures response =
     io_bind (io_modify (observe_budget env response)) (\<lambda>_.
     if hr_status response = 429 then
       io_bind (io_modify (\<lambda>s. s\<lparr>so_remaining := None\<rparr>)) (\<lambda>_.
       io_bind (outside (io_bind (wait_until env cfg (map_option of_int (int_header response ''X-Rate-Limit-Reset'')))
         (se_sleep env))) (\<lambda>_. io_return (Inr failures)))
     else if hr_status response \<in> set RETRYABLE_STATUS then
       count_failure env cfg (failures + 1) (api_error response)
     else if hr_status response \<noteq> 200 then io_raise (api_error response)
     else io_bind (res_io (page_of response)) (\<lambda>page. io_return (Inl page)))"

definition fetch_turn ::
  "'s source_env \<Rightarrow> okta_source \<Rightarrow> string \<Rightarrow> nat \<Rightarrow> (json_dict page + nat, 's source_state) io" where
  "fetch_turn env cfg cursor failures =
     io_bind (respect_budget env cfg) (\<lambda>_ s.
     case outside (io_bind (se_auth env ''GET'' cursor) (\<lambda>h.
            se_get env cursor ((''Accept'', ''application/json'') # h))) s of
       (Inr response, s') \<Rightarrow> on_response env cfg failures response s'
     | (Inl x, s') \<Rightarrow>
         (if x = TransportErr
          then count_failure env cfg (failures + 1)
            (OktaApiError None None (''gave up after '' @ nat_str (failures + 1) @ '' attempts'')) s'
          else (Inl x, s')))"

partial_function (option) fetch_loop ::
  "'s source_env \<Rightarrow> okta_source \<Rightarrow> string \<Rightarrow> nat \<Rightarrow> 's source_state \<Rightarrow>
   ((exn + json_dict page) \<times> 's source_state) option" where
  "fetch_loop env cfg cursor failures s =
     (case fetch_turn env cfg cursor failures s of
        (Inl x, s') \<Rightarrow> Some (Inl x, s')
      | (Inr (Inl page), s') \<Rightarrow> Some (Inr page, s')
      | (Inr (Inr failures'), s') \<Rightarrow> fetch_loop env cfg cursor failures' s')"

definition fetch ::
  "'s source_env \<Rightarrow> okta_source \<Rightarrow> string \<Rightarrow> 's source_state \<Rightarrow>
   ((exn + json_dict page) \<times> 's source_state) option" where
  "fetch env cfg cursor s =
     (if starts_with cursor (logs_endpoint cfg) then fetch_loop env cfg cursor 0 s
      else Some (Inl (ValueError ''cursor''), s))"

subsection \<open>The rule of a turn\<close>

text \<open>The longest wait: a rate limit and its jitter, or the cap of the backoff.\<close>

definition longest_wait :: "okta_source \<Rightarrow> seconds" where
  "longest_wait cfg = max BACKOFF_CAP_SECONDS (2 * RATE_LIMIT_WINDOW_SECONDS + os_max_jitter_seconds cfg)"

text \<open>\<open>K\<close> is kept by the clock, the jitter, the metric and by every wait that is in bounds, and the
  jitter is between 0 and 1.\<close>

definition calm :: "'s source_env \<Rightarrow> okta_source \<Rightarrow> ('s \<Rightarrow> bool) \<Rightarrow> bool" where
  "calm env cfg K \<longleftrightarrow>
     triple K (se_clock env) (\<lambda>_. K) (\<lambda>_. K) \<and>
     triple K (se_jitter env) (\<lambda>j w. K w \<and> 0 \<le> j \<and> j \<le> 1) (\<lambda>_. K) \<and>
     (\<forall>d. 0 \<le> d \<and> d \<le> longest_wait cfg \<longrightarrow> triple K (se_sleep env d) (\<lambda>_. K) (\<lambda>_. K)) \<and>
     (\<forall>n w. K w \<longrightarrow> K (se_report env n w))"

lemma wait_triple:
  assumes "calm env cfg K" and "0 \<le> os_max_jitter_seconds cfg"
  shows "triple K (wait_until env cfg t) (\<lambda>d w. K w \<and> 0 \<le> d \<and> d \<le> longest_wait cfg) (\<lambda>_. K)"
proof -
  have first: "triple K (case t of None \<Rightarrow> io_return RATE_LIMIT_WINDOW_SECONDS
      | Some t \<Rightarrow> io_bind (se_clock env) (\<lambda>now. io_return (t - now))) (\<lambda>_. K) (\<lambda>_. K)"
    using assms(1) by (cases t) (auto simp: calm_def intro!: triple_return triple_bind)
  have jitter: "triple K (se_jitter env) (\<lambda>j w. K w \<and> 0 \<le> j \<and> j \<le> 1) (\<lambda>_. K)"
    using assms(1) by (simp add: calm_def)
  have bounds: "0 \<le> min (max wait 0) (2 * RATE_LIMIT_WINDOW_SECONDS) + j * os_max_jitter_seconds cfg \<and>
      min (max wait 0) (2 * RATE_LIMIT_WINDOW_SECONDS) + j * os_max_jitter_seconds cfg \<le> longest_wait cfg"
    if "0 \<le> j" "j \<le> 1" for wait j :: rat
  proof -
    have "j * os_max_jitter_seconds cfg \<le> 1 * os_max_jitter_seconds cfg"
      using that assms(2) by (intro mult_right_mono) simp_all
    moreover have "0 \<le> j * os_max_jitter_seconds cfg" using that assms(2) by simp
    moreover have "0 \<le> (2 * RATE_LIMIT_WINDOW_SECONDS :: rat)" by (simp add: RATE_LIMIT_WINDOW_SECONDS_def)
    ultimately show ?thesis by (auto simp: longest_wait_def min_def max_def)
  qed
  show ?thesis
    unfolding wait_until_def
    by (rule triple_bind [OF first], rule triple_bind [OF jitter], rule triple_return) (use bounds in blast)
qed

lemma backoff_triple:
  assumes "calm env cfg K"
  shows "triple K (backoff env f) (\<lambda>d w. K w \<and> 0 \<le> d \<and> d \<le> longest_wait cfg) (\<lambda>_. K)"
proof -
  have jitter: "triple K (se_jitter env) (\<lambda>j w. K w \<and> 0 \<le> j \<and> j \<le> 1) (\<lambda>_. K)"
    using assms(1) by (simp add: calm_def)
  have bounds: "0 \<le> j * min BACKOFF_CAP_SECONDS (2 ^ f) \<and> j * min BACKOFF_CAP_SECONDS (2 ^ f) \<le> longest_wait cfg"
    if "0 \<le> j" "j \<le> 1" for j :: rat
  proof -
    have cap: "0 \<le> min BACKOFF_CAP_SECONDS (2 ^ f)" by (simp add: BACKOFF_CAP_SECONDS_def min_def)
    then have "j * min BACKOFF_CAP_SECONDS (2 ^ f) \<le> 1 * min BACKOFF_CAP_SECONDS (2 ^ f)"
      using that by (intro mult_right_mono) simp_all
    also have "\<dots> \<le> longest_wait cfg" by (simp add: longest_wait_def min_def max_def)
    finally show ?thesis using that cap by simp
  qed
  show ?thesis
    unfolding backoff_def by (rule triple_bind [OF jitter], rule triple_return) (use bounds in blast)
qed

lemma sleep_after:
  assumes "calm env cfg K" and "triple K m (\<lambda>d w. K w \<and> 0 \<le> d \<and> d \<le> longest_wait cfg) (\<lambda>_. K)"
  shows "triple K (io_bind m (se_sleep env)) (\<lambda>_. K) (\<lambda>_. K)"
proof (rule triple_bind [OF assms(2)])
  fix d
  show "triple (\<lambda>w. K w \<and> 0 \<le> d \<and> d \<le> longest_wait cfg) (se_sleep env d) (\<lambda>_. K) (\<lambda>_. K)"
    using assms(1) by (auto simp: calm_def triple_def)
qed

lemma triple_outside:
  "triple P m Q R \<Longrightarrow> triple (\<lambda>s. P (so_rest s)) (outside m) (\<lambda>x s. Q x (so_rest s)) (\<lambda>e s. R e (so_rest s))"
  by (force simp: triple_def outside_def split: prod.splits sum.splits)

lemma respect_triple:
  assumes "calm env cfg K" and "0 \<le> os_max_jitter_seconds cfg"
  shows "triple (\<lambda>s. K (so_rest s)) (respect_budget env cfg) (\<lambda>_ s. K (so_rest s)) (\<lambda>_ s. K (so_rest s))"
proof -
  have wait: "triple (\<lambda>s. K (so_rest s)) (outside (io_bind (wait_until env cfg t) (se_sleep env)))
      (\<lambda>_ s. K (so_rest s)) (\<lambda>_ s. K (so_rest s))" for t
    by (rule triple_outside [OF sleep_after [OF assms(1) wait_triple [OF assms]]])
  have after: "K (so_rest t)"
    if "K (so_rest s)" and "outside (io_bind (wait_until env cfg u) (se_sleep env)) (s\<lparr>so_remaining := None\<rparr>) = (q, t)"
    for s t u q
  proof -
    have K: "K (so_rest (s\<lparr>so_remaining := None\<rparr>))" using that(1) by simp
    show ?thesis
    proof (cases q)
      case (Inl e)
      show ?thesis by (rule triple_Inl [OF wait K that(2) [unfolded Inl]])
    next
      case (Inr x)
      show ?thesis by (rule triple_Inr [OF wait K that(2) [unfolded Inr]])
    qed
  qed
  have keep: "K (so_rest t)" if "K (so_rest s)" and "respect_budget env cfg s = (q, t)" for s q t
  proof -
    have "t = s \<or> outside (io_bind (wait_until env cfg (so_reset_at s)) (se_sleep env)) (s\<lparr>so_remaining := None\<rparr>) = (q, t)"
      using that(2) by (simp add: respect_budget_def split: option.splits if_splits)
    with that(1) after show ?thesis by metis
  qed
  show ?thesis by (rule tripleI) (erule (1) keep)+
qed

lemma count_failure_triple:
  assumes "calm env cfg K"
  shows "triple (\<lambda>s. K (so_rest s)) (count_failure env cfg f x)
    (\<lambda>q s. K (so_rest s) \<and> q = Inr f \<and> f < os_max_attempts cfg) (\<lambda>_ s. K (so_rest s))"
  unfolding count_failure_def
  by (intro triple_if triple_raise
      triple_bind [OF triple_outside [OF sleep_after [OF assms backoff_triple [OF assms]]]] triple_return) simp_all

lemma response_triple:
  assumes "calm env cfg K" and "0 \<le> os_max_jitter_seconds cfg"
  shows "triple (\<lambda>s. K (so_rest s)) (on_response env cfg f response)
    (\<lambda>q s. K (so_rest s) \<and> (case q of
        Inl page \<Rightarrow> hr_status response = 200 \<and> page_of response = Inr page
      | Inr f' \<Rightarrow> f' = f \<and> hr_status response = 429 \<or> f' = f + 1 \<and> f' < os_max_attempts cfg))
    (\<lambda>_ s. K (so_rest s))"
proof -
  let ?K = "\<lambda>s. K (so_rest s)"
  have observe: "triple ?K (io_modify (observe_budget env response)) (\<lambda>_. ?K) (\<lambda>_. ?K)"
    using assms(1) by (intro triple_modify) (auto simp: observe_budget_def calm_def split: option.split)
  have forget: "triple ?K (io_modify (\<lambda>s. s\<lparr>so_remaining := None\<rparr>)) (\<lambda>_. ?K) (\<lambda>_. ?K)"
    by (intro triple_modify) simp
  have wait: "triple ?K (outside (io_bind (wait_until env cfg t) (se_sleep env))) (\<lambda>_. ?K) (\<lambda>_. ?K)" for t
    by (rule triple_outside [OF sleep_after [OF assms(1) wait_triple [OF assms]]])
  have page: "triple ?K (res_io (page_of response)) (\<lambda>p s. ?K s \<and> page_of response = Inr p) (\<lambda>_. ?K)"
    by (auto simp: triple_def res_io_def split: sum.split)
  show ?thesis
    unfolding on_response_def
  proof (intro triple_bind [OF observe] triple_if)
    assume "hr_status response = 429"
    then show "triple ?K (io_bind (io_modify (\<lambda>s. s\<lparr>so_remaining := None\<rparr>)) (\<lambda>_.
        io_bind (outside (io_bind (wait_until env cfg (map_option of_int (int_header response ''X-Rate-Limit-Reset'')))
          (se_sleep env))) (\<lambda>_. io_return (Inr f))))
      (\<lambda>q s. ?K s \<and> (case q of Inl page \<Rightarrow> hr_status response = 200 \<and> page_of response = Inr page
        | Inr f' \<Rightarrow> f' = f \<and> hr_status response = 429 \<or> f' = f + 1 \<and> f' < os_max_attempts cfg)) (\<lambda>_. ?K)"
      by (intro triple_bind [OF forget] triple_bind [OF wait] triple_return) simp
  next
    show "triple ?K (count_failure env cfg (f + 1) (api_error response))
      (\<lambda>q s. ?K s \<and> (case q of Inl page \<Rightarrow> hr_status response = 200 \<and> page_of response = Inr page
        | Inr f' \<Rightarrow> f' = f \<and> hr_status response = 429 \<or> f' = f + 1 \<and> f' < os_max_attempts cfg)) (\<lambda>_. ?K)"
      by (rule triple_weaken [OF count_failure_triple [OF assms(1)]]) auto
  next
    assume "\<not> hr_status response \<noteq> 200"
    then show "triple ?K (io_bind (res_io (page_of response)) (\<lambda>page. io_return (Inl page)))
      (\<lambda>q s. ?K s \<and> (case q of Inl page \<Rightarrow> hr_status response = 200 \<and> page_of response = Inr page
        | Inr f' \<Rightarrow> f' = f \<and> hr_status response = 429 \<or> f' = f + 1 \<and> f' < os_max_attempts cfg)) (\<lambda>_. ?K)"
      by (intro triple_bind [OF page] triple_return) simp
  qed (rule triple_raise, simp)
qed

text \<open>
  One turn, given what the authorizer and the request do: \<open>I\<close> holds before and after a failed request,
  \<open>J response\<close> after an answer.
\<close>

lemma turn_triple:
  assumes "0 \<le> os_max_jitter_seconds cfg" and "calm env cfg I" and "\<And>response. calm env cfg (J response)"
    and auth: "triple I (se_auth env ''GET'' cursor) U (\<lambda>_. I)"
    and get: "\<And>h. triple (U h) (se_get env cursor ((''Accept'', ''application/json'') # h)) J (\<lambda>_. I)"
  shows "triple (\<lambda>s. I (so_rest s)) (fetch_turn env cfg cursor f)
    (\<lambda>q s. case q of
        Inl page \<Rightarrow> \<exists>response. J response (so_rest s) \<and> hr_status response = 200 \<and> page_of response = Inr page
      | Inr f' \<Rightarrow> f' = f \<and> (\<exists>response. J response (so_rest s) \<and> hr_status response = 429) \<or>
          f' = f + 1 \<and> f' < os_max_attempts cfg \<and> (I (so_rest s) \<or> (\<exists>response. J response (so_rest s))))
    (\<lambda>_ s. I (so_rest s) \<or> (\<exists>response. J response (so_rest s)))"
    (is "triple ?I _ ?Q ?R")
proof -
  let ?ask = "outside (io_bind (se_auth env ''GET'' cursor) (\<lambda>h.
      se_get env cursor ((''Accept'', ''application/json'') # h)))"
  let ?rest = "\<lambda>s. case ?ask s of
       (Inr response, s') \<Rightarrow> on_response env cfg f response s'
     | (Inl x, s') \<Rightarrow>
         (if x = TransportErr
          then count_failure env cfg (f + 1)
            (OktaApiError None None (''gave up after '' @ nat_str (f + 1) @ '' attempts'')) s'
          else (Inl x, s'))"
  have ask: "triple ?I ?ask (\<lambda>response s. J response (so_rest s)) (\<lambda>_. ?I)"
    by (rule triple_outside [OF triple_bind [OF auth get]])
  have "triple ?I ?rest ?Q ?R"
  proof (rule tripleI)
    fix s q t assume I: "?I s" and run: "?rest s = (Inr q, t)"
    from run consider response s' where "?ask s = (Inr response, s')" "on_response env cfg f response s' = (Inr q, t)"
      | s' x where "?ask s = (Inl TransportErr, s')" "count_failure env cfg (f + 1) x s' = (Inr q, t)"
      by (auto split: prod.splits sum.splits if_splits)
    then show "?Q q t"
    proof cases
      case 1
      then have "J response (so_rest s')" using triple_Inr [OF ask I] by blast
      from triple_Inr [OF response_triple [OF assms(3,1)] this 1(2)] show ?thesis
        by (auto split: sum.splits)
    next
      case 2
      then have "I (so_rest s')" using triple_Inl [OF ask I] by blast
      from triple_Inr [OF count_failure_triple [OF assms(2)] this 2(2)] show ?thesis by auto
    qed
  next
    fix s e t assume I: "?I s" and run: "?rest s = (Inl e, t)"
    from run consider response s' where "?ask s = (Inr response, s')" "on_response env cfg f response s' = (Inl e, t)"
      | s' x where "?ask s = (Inl TransportErr, s')" "count_failure env cfg (f + 1) x s' = (Inl e, t)"
      | "?ask s = (Inl e, t)"
      by (auto split: prod.splits sum.splits if_splits)
    then show "?R e t"
    proof cases
      case 1
      then have "J response (so_rest s')" using triple_Inr [OF ask I] by blast
      from triple_Inl [OF response_triple [OF assms(3,1)] this 1(2)] show ?thesis by blast
    next
      case 2
      then have "I (so_rest s')" using triple_Inl [OF ask I] by blast
      from triple_Inl [OF count_failure_triple [OF assms(2)] this 2(2)] show ?thesis by blast
    next
      case 3
      then show ?thesis using triple_Inl [OF ask I] by blast
    qed
  qed
  then show ?thesis
    unfolding fetch_turn_def by (intro triple_bind [OF triple_weaken [OF respect_triple [OF assms(2,1)]]]) auto
qed

text \<open>The loop keeps what a turn keeps, and returns a page only from an answer 200.\<close>

lemma fetch_loop_rule:
  assumes "fetch_loop env cfg cursor f s = Some (r, s')" and "P s"
    and turn: "\<And>f. triple P (fetch_turn env cfg cursor f)
      (\<lambda>q s. case q of Inl page \<Rightarrow> Q (Inr page) s | Inr f' \<Rightarrow> P s) (\<lambda>x s. Q (Inl x) s)"
  shows "Q r s'"
proof -
  have "P s \<longrightarrow> Q (fst (r, s')) (snd (r, s'))"
  proof (rule fetch_loop.raw_induct [where
      P = "\<lambda>e c u f s rs. e = env \<longrightarrow> c = cfg \<longrightarrow> u = cursor \<longrightarrow> P s \<longrightarrow> Q (fst rs) (snd rs)", THEN mp, THEN mp, THEN mp])
    show "fetch_loop env cfg cursor f s = Some (r, s')" by (rule assms(1))
  next
    fix loop e c u f s rs
    assume IH: "\<And>e c u f s rs. loop e c u f s = Some rs \<Longrightarrow>
        e = env \<longrightarrow> c = cfg \<longrightarrow> u = cursor \<longrightarrow> P s \<longrightarrow> Q (fst rs) (snd rs)"
      and body: "(case fetch_turn e c u f s of (Inl x, s') \<Rightarrow> Some (Inl x, s')
        | (Inr (Inl page), s') \<Rightarrow> Some (Inr page, s') | (Inr (Inr f'), s') \<Rightarrow> loop e c u f' s') = Some rs"
    show "e = env \<longrightarrow> c = cfg \<longrightarrow> u = cursor \<longrightarrow> P s \<longrightarrow> Q (fst rs) (snd rs)"
    proof (intro impI)
      assume same: "e = env" "c = cfg" "u = cursor" and P: "P s"
      obtain q s1 where q: "fetch_turn env cfg cursor f s = (q, s1)" by (cases "fetch_turn env cfg cursor f s")
      show "Q (fst rs) (snd rs)"
      proof (cases q)
        case (Inl x)
        with triple_Inl [OF turn P] q body same show ?thesis by auto
      next
        case (Inr p)
        with triple_Inr [OF turn P] q have post: "case p of Inl page \<Rightarrow> Q (Inr page) s1 | Inr f' \<Rightarrow> P s1" by blast
        show ?thesis using Inr post q body same IH by (cases p) auto
      qed
    qed
  qed simp_all
  with assms(2) show ?thesis by simp
qed

subsection \<open>A client of the authorizer\<close>

context authorizer
begin

text \<open>
  What holds of the world as long as requests go to this org's endpoint with headers usable for them,
  and waits are in bounds, holds after \<open>fetch\<close>, whether it returns or raises.
\<close>

lemma fetch_invariant:
  assumes "se_auth env = headers" and "0 \<le> os_max_jitter_seconds cfg" and "calm env cfg invar"
    and get: "\<And>h. starts_with cursor (logs_endpoint cfg) \<Longrightarrow>
      triple (\<lambda>w. invar w \<and> usable ''GET'' cursor h w)
        (se_get env cursor ((''Accept'', ''application/json'') # h)) (\<lambda>_. invar) (\<lambda>_. invar)"
    and "invar (so_rest s)" and run: "fetch env cfg cursor s = Some (r, s')"
  shows "invar (so_rest s')"
proof (cases "starts_with cursor (logs_endpoint cfg)")
  case True
  have auth: "triple invar (se_auth env ''GET'' cursor) (\<lambda>h w. invar w \<and> usable ''GET'' cursor h w) (\<lambda>_. invar)"
    unfolding assms(1) by (rule headers_usable)
  have turn: "triple (\<lambda>s. invar (so_rest s)) (fetch_turn env cfg cursor f)
      (\<lambda>q s. case q of Inl page \<Rightarrow> invar (so_rest s) | Inr f' \<Rightarrow> invar (so_rest s)) (\<lambda>x s. invar (so_rest s))" for f
    by (rule triple_weaken [OF turn_triple [where J = "\<lambda>_. invar", OF assms(2,3) assms(3) auth get [OF True]]])
       (auto split: sum.splits)
  have "fetch_loop env cfg cursor 0 s = Some (r, s')" using run True by (simp add: fetch_def)
  from fetch_loop_rule [where P = "\<lambda>s. invar (so_rest s)" and Q = "\<lambda>_ s. invar (so_rest s)", OF this assms(5) turn]
  show ?thesis .
next
  case False
  with run assms(5) show ?thesis by (simp add: fetch_def)
qed

end

subsection \<open>Properties of the source\<close>

lemma calm_False: "calm env cfg (\<lambda>w. False)"
  by (simp add: calm_def triple_def)

text \<open>C27: A fetch ends if the vendor answers 429 finitely often. \<open>left\<close> bounds the answers 429 still to
  come: an answer 429 lowers it and nothing raises it. The other failures are at most
  \<open>max_attempts\<close>, whatever they are.\<close>

theorem fetch_ends:
  assumes jitter: "0 \<le> os_max_jitter_seconds cfg" and calm: "\<And>n. calm env cfg (\<lambda>w. left w \<le> n)"
    and auth: "\<And>n. triple (\<lambda>w. left w \<le> n) (se_auth env ''GET'' cursor) (\<lambda>_ w. left w \<le> n) (\<lambda>_ w. left w \<le> n)"
    and get: "\<And>n h. triple (\<lambda>w. left w \<le> (n :: nat)) (se_get env cursor h)
      (\<lambda>response w. left w + (if hr_status response = 429 then 1 else 0) \<le> n) (\<lambda>_ w. left w \<le> n)"
  shows "fetch env cfg cursor s \<noteq> None"
proof -
  have "fetch_loop env cfg cursor f s \<noteq> None" for f
  proof (induction "left (so_rest s) + (os_max_attempts cfg - f)" arbitrary: f s rule: less_induct)
    case less
    let ?n = "left (so_rest s)"
    let ?J = "\<lambda>response w. left w + (if hr_status response = 429 then 1 else 0) \<le> ?n"
    have calmJ: "calm env cfg (?J response)" for response
    proof (cases "hr_status response = 429 \<and> ?n = 0")
      case True
      then show ?thesis by (simp add: calm_False)
    next
      case False
      then have "?J response = (\<lambda>w. left w \<le> ?n - (if hr_status response = 429 then 1 else 0))"
        by (auto simp: fun_eq_iff)
      then show ?thesis using calm by simp
    qed
    note turn = turn_triple [where I = "\<lambda>w. left w \<le> ?n" and J = ?J, OF jitter calm calmJ auth get, of f]
    obtain q s1 where q: "fetch_turn env cfg cursor f s = (q, s1)" by (cases "fetch_turn env cfg cursor f s")
    show ?case
    proof (cases q)
      case (Inl x)
      with q show ?thesis by (simp add: fetch_loop.simps [of _ _ _ f])
    next
      case (Inr p)
      show ?thesis
      proof (cases p)
        case (Inl page)
        with q Inr show ?thesis by (simp add: fetch_loop.simps [of _ _ _ f])
      next
        case (Inr f')
        from triple_Inr [OF turn order_refl q [unfolded \<open>q = Inr p\<close> Inr]]
        have "f' = f \<and> left (so_rest s1) < ?n \<or> f' = f + 1 \<and> f' < os_max_attempts cfg \<and> left (so_rest s1) \<le> ?n"
          by (auto split: if_splits)
        then have "left (so_rest s1) + (os_max_attempts cfg - f') < ?n + (os_max_attempts cfg - f)" by auto
        then have "fetch_loop env cfg cursor f' s1 \<noteq> None" by (rule less)
        with q \<open>q = Inr p\<close> Inr show ?thesis by (simp add: fetch_loop.simps [of _ _ _ f])
      qed
    qed
  qed
  then show ?thesis by (simp add: fetch_def)
qed

text \<open>An environment for the witnesses: the answers are given, then the connection fails.\<close>

definition script_env :: "http_response list source_env" where
  "script_env = \<lparr>se_get = (\<lambda>url h w. case w of [] \<Rightarrow> (Inl TransportErr, []) | r # rs \<Rightarrow> (Inr r, rs)),
     se_auth = (\<lambda>m url. io_return []), se_clock = io_return 0, se_sleep = (\<lambda>d. io_return ()),
     se_jitter = io_return 0, se_report = (\<lambda>n w. w)\<rparr>"

definition sample_source :: okta_source where
  "sample_source = \<lparr>os_org_url = ''https://o.okta.com'', os_limit = 1000, os_rate_limit_reserve = 5,
     os_max_attempts = 5, os_max_jitter_seconds = 2\<rparr>"

lemma script_calm: "calm script_env cfg K"
  by (simp add: calm_def script_env_def triple_def io_return_def)

theorem fetch_ends_witness:
  "fetch script_env sample_source ''https://o.okta.com/api/v1/logs?since=x''
     \<lparr>so_remaining = None, so_reset_at = None, so_rest = [answer 429 [] [], answer 503 [] [], answer 429 [] []]\<rparr> \<noteq> None"
proof -
  let ?left = "\<lambda>w. length (filter (\<lambda>r. hr_status r = 429) w)"
  have jitter: "0 \<le> os_max_jitter_seconds sample_source" by (simp add: sample_source_def)
  have auth: "triple (\<lambda>w. ?left w \<le> n) (se_auth script_env ''GET'' u) (\<lambda>_ w. ?left w \<le> n) (\<lambda>_ w. ?left w \<le> n)" for n u
    by (simp add: script_env_def triple_def io_return_def)
  have get: "triple (\<lambda>w. ?left w \<le> n) (se_get script_env u h)
      (\<lambda>response w. ?left w + (if hr_status response = 429 then 1 else 0) \<le> n) (\<lambda>_ w. ?left w \<le> n)" for n u h
    by (auto simp: script_env_def triple_def split: list.split)
  show ?thesis by (rule fetch_ends [where left = ?left, OF jitter script_calm auth get])
qed

text \<open>C28: Every wait of a fetch is between 0 and two minutes plus the jitter, or the cap of the backoff,
  whatever the clock, the headers of the answers and the count of failures say.\<close>

theorem waits_bounded:
  assumes "0 \<le> os_max_jitter_seconds cfg" and "\<And>ds. triple (\<lambda>w. waits w = ds) (se_jitter env)
      (\<lambda>j w. waits w = ds \<and> 0 \<le> j \<and> j \<le> 1) (\<lambda>_ w. waits w = ds)"
    and "\<And>d ds. triple (\<lambda>w. waits w = ds) (se_sleep env d) (\<lambda>_ w. waits w = ds @ [d]) (\<lambda>_ w. waits w = ds @ [d])"
    and "\<And>ds. triple (\<lambda>w. waits w = ds) (se_clock env) (\<lambda>_ w. waits w = ds) (\<lambda>_ w. waits w = ds)"
    and "\<And>ds. triple (\<lambda>w. waits w = ds) (se_auth env ''GET'' cursor) (\<lambda>_ w. waits w = ds) (\<lambda>_ w. waits w = ds)"
    and "\<And>h ds. triple (\<lambda>w. waits w = ds) (se_get env cursor h) (\<lambda>_ w. waits w = ds) (\<lambda>_ w. waits w = ds)"
    and "\<And>n w. waits (se_report env n w) = waits w"
    and "waits (so_rest s) = []" and run: "fetch env cfg cursor s = Some (r, s')"
  shows "set (waits (so_rest s')) \<subseteq>
    {0..max BACKOFF_CAP_SECONDS (2 * RATE_LIMIT_WINDOW_SECONDS + os_max_jitter_seconds cfg)}"
proof -
  let ?I = "\<lambda>w. set (waits w) \<subseteq> {0..longest_wait cfg}"
  have lift: "triple ?I m (\<lambda>x w. ?I w \<and> B x) (\<lambda>_. ?I)"
    if "\<And>ds. triple (\<lambda>w. waits w = ds) m (\<lambda>x w. waits w = ds \<and> B x) (\<lambda>_ w. waits w = ds)"
    for B and m :: "('c, _) io"
    by (rule tripleI) (use triple_Inr [OF that refl] triple_Inl [OF that refl] in fastforce)+
  have keep: "triple ?I m (\<lambda>_. ?I) (\<lambda>_. ?I)"
    if "\<And>ds. triple (\<lambda>w. waits w = ds) m (\<lambda>_ w. waits w = ds) (\<lambda>_ w. waits w = ds)" for m :: "('c, _) io"
    by (rule tripleI) (use triple_Inr [OF that refl] triple_Inl [OF that refl] in fastforce)+
  have sleep: "triple ?I (se_sleep env d) (\<lambda>_. ?I) (\<lambda>_. ?I)" if "0 \<le> d \<and> d \<le> longest_wait cfg" for d
    by (rule tripleI) (use triple_Inr [OF assms(3) refl] triple_Inl [OF assms(3) refl] that in fastforce)+
  have calm: "calm env cfg ?I"
    unfolding calm_def using lift [OF assms(2)] keep [OF assms(4)] sleep assms(7) by simp
  have turn: "triple (\<lambda>s. ?I (so_rest s)) (fetch_turn env cfg cursor f)
      (\<lambda>q s. case q of Inl page \<Rightarrow> ?I (so_rest s) | Inr f' \<Rightarrow> ?I (so_rest s)) (\<lambda>x s. ?I (so_rest s))" for f
    by (rule triple_weaken [OF turn_triple [where J = "\<lambda>_. ?I" and U = "\<lambda>_. ?I",
          OF assms(1) calm calm keep [OF assms(5)] keep [OF assms(6)]]])
       (auto split: sum.splits)
  have start: "?I (so_rest s)" using assms(8) by simp
  have "?I (so_rest s')"
  proof (cases "starts_with cursor (logs_endpoint cfg)")
    case True
    with run have "fetch_loop env cfg cursor 0 s = Some (r, s')" by (simp add: fetch_def)
    from fetch_loop_rule [where P = "\<lambda>s. ?I (so_rest s)" and Q = "\<lambda>_ s. ?I (so_rest s)", OF this start turn]
    show ?thesis .
  next
    case False
    with run start show ?thesis by (simp add: fetch_def)
  qed
  then show ?thesis by (simp add: longest_wait_def)
qed

text \<open>The loop with fuel, to evaluate a fetch: what it returns, the loop returns.\<close>

fun fetch_fuel ::
  "nat \<Rightarrow> 's source_env \<Rightarrow> okta_source \<Rightarrow> string \<Rightarrow> nat \<Rightarrow> 's source_state \<Rightarrow>
   ((exn + json_dict page) \<times> 's source_state) option" where
  "fetch_fuel 0 env cfg cursor failures s = None"
| "fetch_fuel (Suc n) env cfg cursor failures s =
     (case fetch_turn env cfg cursor failures s of
        (Inl x, s') \<Rightarrow> Some (Inl x, s')
      | (Inr (Inl page), s') \<Rightarrow> Some (Inr page, s')
      | (Inr (Inr failures'), s') \<Rightarrow> fetch_fuel n env cfg cursor failures' s')"

lemma fetch_fuel_loop: "fetch_fuel n env cfg cursor f s = Some r \<Longrightarrow> fetch_loop env cfg cursor f s = Some r"
proof (induction n arbitrary: f s)
  case 0
  then show ?case by simp
next
  case (Suc n)
  then show ?case by (subst fetch_loop.simps) (auto split: prod.splits sum.splits)
qed

definition waits_env :: "(seconds list \<times> http_response list) source_env" where
  "waits_env = \<lparr>se_get = (\<lambda>url h (ds, w). case w of [] \<Rightarrow> (Inl TransportErr, ds, []) | r # rs \<Rightarrow> (Inr r, ds, rs)),
     se_auth = (\<lambda>m url. io_return []), se_clock = io_return 0, se_sleep = (\<lambda>d (ds, w). (Inr (), ds @ [d], w)),
     se_jitter = io_return (1 / 2), se_report = (\<lambda>n w. w)\<rparr>"

theorem waits_bounded_witness:
  "\<exists>r s'. fetch waits_env sample_source ''https://o.okta.com/api/v1/logs?since=x''
     \<lparr>so_remaining = None, so_reset_at = None, so_rest = ([], [answer 429 [] [(''X-Rate-Limit-Reset'', ''500'')]])\<rparr> =
       Some (r, s') \<and> hd (fst (so_rest s')) = 121 \<and> set (fst (so_rest s')) \<subseteq> {0..122}"
proof -
  let ?s = "\<lparr>so_remaining = None, so_reset_at = None, so_rest = ([], [answer 429 [] [(''X-Rate-Limit-Reset'', ''500'')]])\<rparr>"
  have "map_option (\<lambda>(r, s'). hd (fst (so_rest s'))) (fetch_fuel 6 waits_env sample_source
      ''https://o.okta.com/api/v1/logs?since=x'' 0 ?s) = Some 121" by code_simp
  then obtain r s' where ran: "fetch_fuel 6 waits_env sample_source ''https://o.okta.com/api/v1/logs?since=x'' 0 ?s = Some (r, s')"
    "hd (fst (so_rest s')) = 121" by auto
  have "starts_with ''https://o.okta.com/api/v1/logs?since=x'' (logs_endpoint sample_source)" by code_simp
  with fetch_fuel_loop [OF ran(1)] ran(2)
  have run: "fetch waits_env sample_source ''https://o.okta.com/api/v1/logs?since=x'' ?s = Some (r, s')"
    "hd (fst (so_rest s')) = 121" by (simp_all add: fetch_def)
  have "set (fst (so_rest s')) \<subseteq>
      {0..max BACKOFF_CAP_SECONDS (2 * RATE_LIMIT_WINDOW_SECONDS + os_max_jitter_seconds sample_source)}"
    by (rule waits_bounded [where waits = fst, OF _ _ _ _ _ _ _ _ run(1)])
       (auto simp: waits_env_def sample_source_def triple_def io_return_def split: list.split)
  then show ?thesis
    using run by (simp add: BACKOFF_CAP_SECONDS_def RATE_LIMIT_WINDOW_SECONDS_def sample_source_def)
qed




text \<open>An opening query is on the endpoint \<open>fetch\<close> accepts, and says which range it opens.\<close>

lemma str_join_Cons: "ys \<noteq> [] \<Longrightarrow> str_join sep (x # ys) = x @ sep @ str_join sep ys"
  by (cases ys) simp_all

lemma quote_plus_no_amp: "CHR ''&'' \<notin> set (quote_plus s)"
proof -
  have "(of_char (upper_hex n) :: nat) \<noteq> 38" if "n < 16" for n using that by (simp add: upper_hex_def)
  then have hex: "upper_hex n \<noteq> CHR ''&''" if "n < 16" for n using that by fastforce
  have "CHR ''&'' \<notin> set (percent b)" if "b < 256" for b
    using hex [of "b div 16"] hex [of "b mod 16"] that by (auto simp: percent_def div_less_iff_less_mult)
  then have "CHR ''&'' \<notin> set (quote_char c)" for c
    using utf8_byte [of _ c] by (auto simp: quote_char_def quote_safe_def is_letter_def is_digit_def)
  then show ?thesis by (auto simp: quote_plus_def)
qed

lemma quoted_inj:
  assumes "quote_plus s @ CHR ''&'' # x = quote_plus t @ CHR ''&'' # y"
  shows "s = t \<and> x = y"
proof -
  have no: "\<And>u. CHR ''&'' \<notin> set (quote_plus u)" by (rule quote_plus_no_amp)
  have "takeWhile (\<lambda>c. c \<noteq> CHR ''&'') (quote_plus u @ CHR ''&'' # z) = quote_plus u" for u z
    using no by (auto simp: takeWhile_tail takeWhile_eq_all_conv)
  with assms have "quote_plus s = quote_plus t" by metis
  with assms show ?thesis using quote_plus_inj by simp
qed

lemma quoted_not: "quote_plus s \<noteq> x @ CHR ''&'' # y"
  using quote_plus_no_amp [of s] by auto

text \<open>The opening cursor is a function of the configuration and the bounds alone, \<open>fetch\<close> accepts it,
  and different bounds, or a tail and a backfill, open at different cursors: so the bounds can be
  read back, and a restart with the same configuration addresses the same batch.\<close>

theorem opening_names_range:
  "{c. start_tail cfg since = Inr c} \<union> {c. start_backfill cfg since until = Inr c} \<subseteq>
     {c. starts_with c (logs_endpoint cfg)} \<and>
   (start_tail cfg since = start_tail cfg since' \<longleftrightarrow> since = since') \<and>
   (start_backfill cfg since until = start_backfill cfg since' until' \<longleftrightarrow>
      since = [] \<and> since' = [] \<or> since = since' \<and> until = until') \<and>
   (start_tail cfg since = start_backfill cfg since' until' \<longleftrightarrow> since = [] \<and> since' = [])"
proof -
  have tail: "start_tail cfg s = (if s = [] then Inl (ValueError ''an opening query needs a since'')
      else Inr (logs_endpoint cfg @ ''since='' @ quote_plus s @ CHR ''&'' #
        (''sortOrder=ASCENDING&limit='' @ quote_plus (int_str (os_limit cfg)))))" for s
    by (simp add: start_tail_def opening_query_def urlencode_def quote_plus_def quote_char_def quote_safe_def
        is_letter_def is_digit_def)
  have range: "start_backfill cfg s u = (if s = [] then Inl (ValueError ''an opening query needs a since'')
      else Inr (logs_endpoint cfg @ ''since='' @ quote_plus s @ CHR ''&'' # (''until='' @ quote_plus u @ CHR ''&'' #
        (''sortOrder=ASCENDING&limit='' @ quote_plus (int_str (os_limit cfg))))))" for s u
    by (simp add: start_backfill_def opening_query_def urlencode_def quote_plus_def quote_char_def quote_safe_def
        is_letter_def is_digit_def)
  show ?thesis
    unfolding tail range by (auto simp: quoted_not dest!: quoted_inj quote_plus_inj)
qed

text \<open>A \<open>Link\<close> header as RFC 8288 writes it: targets in brackets, each with a quoted relation.\<close>

definition link_value :: "string \<times> string \<Rightarrow> string" where
  "link_value = (\<lambda>(url, rel). ''<'' @ url @ ''>; rel='' @ [CHR 0x22] @ rel @ [CHR 0x22])"

definition link_header :: "(string \<times> string) list \<Rightarrow> string" where
  "link_header links = str_join '', '' (map link_value links)"

definition link_ok :: "string \<times> string \<Rightarrow> bool" where
  "link_ok = (\<lambda>(url, rel). CHR ''>'' \<notin> set url \<and> CHR 0x22 \<notin> set rel \<and> CHR ''<'' \<notin> set rel)"

text \<open>What the first pattern takes for the parameters of a link: all up to the next bracket.\<close>

definition link_params :: "bool \<Rightarrow> string \<Rightarrow> string" where
  "link_params final rel = ''; rel='' @ [CHR 0x22] @ rel @ [CHR 0x22] @ (if final then [] else '', '')"

lemma up_to:
  "d \<notin> set xs \<Longrightarrow> takeWhile (\<lambda>c. c \<noteq> d) (xs @ d # z) = xs"
  "d \<notin> set xs \<Longrightarrow> dropWhile (\<lambda>c. c \<noteq> d) (xs @ d # z) = d # z"
  "d \<notin> set xs \<Longrightarrow> takeWhile (\<lambda>c. c \<noteq> d) xs = xs"
  "d \<notin> set xs \<Longrightarrow> dropWhile (\<lambda>c. c \<noteq> d) xs = []"
  by (induction xs) auto

lemma find_links_bracket:
  assumes "CHR ''>'' \<notin> set url" and "CHR ''<'' \<notin> set params" and "rest = [] \<or> (\<exists>t. rest = CHR ''<'' # t)"
  shows "find_links (CHR ''<'' # url @ CHR ''>'' # params @ rest) = (url, params) # find_links rest"
  using assms(3)
proof
  assume "rest = []"
  then show ?thesis by (simp add: up_to [OF assms(1)] up_to [OF assms(2)])
next
  assume "\<exists>t. rest = CHR ''<'' # t"
  then obtain t where "rest = CHR ''<'' # t" by blast
  then show ?thesis by (simp add: up_to [OF assms(1)] up_to [OF assms(2)] del: find_links.simps(2)) (subst find_links.simps(2), simp add: up_to [OF assms(1)] up_to [OF assms(2)])
qed

lemma find_links_header:
  assumes "list_all link_ok links"
  shows "\<exists>ps. find_links (link_header links) = zip (map fst links) ps \<and> length ps = length links \<and>
    list_all2 (\<lambda>(url, rel) p. \<exists>final. p = link_params final rel) links ps"
  using assms
proof (induction links)
  case Nil
  then show ?case by (simp add: link_header_def)
next
  case (Cons l links)
  obtain url rel where l: "l = (url, rel)" by (cases l)
  have ok: "CHR ''>'' \<notin> set url" "CHR ''<'' \<notin> set (link_params b rel)" for b
    using Cons.prems by (auto simp: l link_ok_def link_params_def)
  from Cons obtain ps where ps: "find_links (link_header links) = zip (map fst links) ps" "length ps = length links"
    "list_all2 (\<lambda>(url, rel) p. \<exists>final. p = link_params final rel) links ps" by auto
  let ?final = "links = []"
  have "link_header (l # links) = CHR ''<'' # url @ CHR ''>'' # link_params ?final rel @ link_header links"
    by (cases links) (simp_all add: link_header_def link_value_def link_params_def l)
  moreover have "link_header links = [] \<or> (\<exists>t. link_header links = CHR ''<'' # t)"
    by (cases links; cases "tl links") (auto simp: link_header_def link_value_def split: prod.splits)
  ultimately have "find_links (link_header (l # links)) = (url, link_params ?final rel) # find_links (link_header links)"
    using find_links_bracket [OF ok] by simp
  with ps show ?case
    by (intro exI [of _ "link_params ?final rel # ps"]) (auto simp: l)
qed

lemma rels_of_params:
  assumes "CHR 0x22 \<notin> set rel"
  shows "find_rels (link_params final rel) = [rel]"
proof -
  note rel = up_to [OF assms]
  have "rel_at (link_params final rel) = Some (rel, if final then [] else '', '')"
    by (simp add: rel_at_def link_params_def after_spaces_def is_space_def lower_char_def rel_value_def rel)
  moreover have "find_rels '', '' = []" by code_simp
  moreover have "link_params final rel = CHR '';'' # tl (link_params final rel)" by (simp add: link_params_def)
  ultimately show ?thesis by (cases "link_params final rel") (auto simp: link_params_def split: if_splits)
qed

lemma find_next_params:
  assumes "list_all2 (\<lambda>(url, rel) p. \<exists>final. p = link_params final rel) links ps" and "list_all link_ok links"
  shows "map_option fst (List.find (\<lambda>(url, p). list_ex is_next (find_rels p)) (zip (map fst links) ps)) =
    map_option fst (List.find (\<lambda>(url, rel). is_next rel) links)"
  using assms
proof (induction rule: list_all2_induct)
  case Nil
  then show ?case by simp
next
  case (Cons l links p ps)
  obtain url rel where l: "l = (url, rel)" by (cases l)
  with Cons obtain final where "p = link_params final rel" by auto
  moreover have "CHR 0x22 \<notin> set rel" using Cons.prems by (simp add: l link_ok_def)
  ultimately have "find_rels p = [rel]" by (simp add: rels_of_params)
  with Cons show ?case by (simp add: l)
qed

lemma header_next_formatted:
  "list_all link_ok links \<Longrightarrow>
   header_next (link_header links) = map_option fst (List.find (\<lambda>(url, rel). is_next rel) links)"
  using find_links_header [of links] find_next_params [of links] by (auto simp: header_next_def)

text \<open>C30: The next cursor is the target of the first link with relation \<open>next\<close>, byte for byte, out of any
  headers in the standard form: a target may hold anything but the closing bracket, commas,
  semicolons and quotes included, and \<open>next\<close> may be one of several relations, in any case. Without
  such a link there is no cursor, and the range is at its end.\<close>

theorem next_link_verbatim:
  assumes "list_all (list_all link_ok) headers" and "hr_header_list response ''link'' = map link_header headers"
  shows "next_link response = map_option fst (List.find (\<lambda>(url, rel). is_next rel) (concat headers))"
proof -
  have "(case List.find (\<lambda>h. header_next h \<noteq> None) (map link_header headers) of None \<Rightarrow> None | Some h \<Rightarrow> header_next h) =
      map_option fst (List.find (\<lambda>(url, rel). is_next rel) (concat headers))"
    using assms(1)
  proof (induction headers)
    case Nil
    then show ?case by simp
  next
    case (Cons h headers)
    have found: "List.find P (xs @ ys) = (case List.find P xs of None \<Rightarrow> List.find P ys | Some x \<Rightarrow> Some x)"
      for P and xs ys :: "(string \<times> string) list"
      by (induction xs) simp_all
    show ?case
      using Cons header_next_formatted [of h]
      by (cases "List.find (\<lambda>(url, rel). is_next rel) h") (simp_all add: found)
  qed
  then show ?thesis by (simp add: next_link_def assms(2))
qed

theorem next_link_verbatim_witness:
  "next_link \<lparr>hr_status = 200, hr_json = None, hr_header = (\<lambda>k. None),
     hr_header_list = (\<lambda>k. map link_header [[(''https://o/a;b,c'', ''self'')], [(''https://o/?after=1;x,<y'', ''prev NEXT'')]]),
     hr_reason = []\<rparr> = Some ''https://o/?after=1;x,<y''"
proof -
  let ?headers = "[[(''https://o/a;b,c'', ''self'')], [(''https://o/?after=1;x,<y'', ''prev NEXT'')]]"
  have ok: "list_all (list_all link_ok) ?headers" by code_simp
  have found: "map_option fst (List.find (\<lambda>(url, rel). is_next rel) (concat ?headers)) = Some ''https://o/?after=1;x,<y''"
    by code_simp
  show ?thesis by (subst next_link_verbatim [OF ok]) (simp, rule found)
qed

end
