(* ===== verification/Settings.thy ===== *)
theory Settings
  imports Naming Json "HOL-Library.Sublist"
begin

section \<open>Configuration\<close>

text \<open>
  \<open>src/ocsf_connector/config.py\<close>: the document, the environment that overrides it, and the checks.
  Reading the file and pydantic's typing of a document are parameters (\<open>parse\<close> turns a document
  into typed settings or raises); the field bounds, the validators of the connector and its
  defaults for keys and destinations are modelled. The lemmas: an override reaches its setting and
  no other, the text form of the provider roles is read back, and what settings pass the checks.
\<close>

definition ENV_OVERRIDES :: "(string \<times> string list) list" where
  "ENV_OVERRIDES =
    [(''OCSF_OKTA_ORG_URL'', [''okta'', ''org_url'']),
     (''OCSF_OKTA_CLIENT_ID'', [''okta'', ''client_id'']),
     (''OCSF_OKTA_KID'', [''okta'', ''kid'']),
     (''OCSF_OKTA_PRIVATE_KEY_FILE'', [''okta'', ''private_key_file'']),
     (''OCSF_OKTA_PRIVATE_KEY'', [''okta'', ''private_key'']),
     (''OCSF_OKTA_DPOP_KEY_FILE'', [''okta'', ''dpop_key_file'']),
     (''OCSF_OKTA_DPOP_KEY'', [''okta'', ''dpop_key'']),
     (''OCSF_OKTA_SINCE'', [''okta'', ''since'']),
     (''OCSF_SINK_KIND'', [''sink'', ''kind'']),
     (''OCSF_SINK_DIRECTORY'', [''sink'', ''directory'']),
     (''OCSF_SINK_BUCKET'', [''sink'', ''bucket'']),
     (''OCSF_SINK_EXTERNAL_ID'', [''sink'', ''external_id'']),
     (''OCSF_SINK_PROVIDER_ROLES'', [''sink'', ''provider_roles'']),
     (''OCSF_SINK_REGION'', [''sink'', ''region'']),
     (''OCSF_SINK_ACCOUNT_ID'', [''sink'', ''account_id'']),
     (''OCSF_SINK_SOURCE_NAME'', [''sink'', ''source_name'']),
     (''OCSF_STATE_DATABASE'', [''state'', ''database'']),
     (''OCSF_TELEMETRY_ENABLED'', [''telemetry'', ''enabled'']),
     (''OCSF_HEALTH_FILE'', [''health'', ''file'']),
     (''OCSF_STREAM'', [''stream''])]"

subsection \<open>The environment over the document\<close>

text \<open>Writing at a path: a step that is no object becomes an empty one.\<close>

fun put_at :: "string list \<Rightarrow> json \<Rightarrow> json_dict \<Rightarrow> json_dict" where
  "put_at [] v d = d"
| "put_at [k] v d = AList.update k v d"
| "put_at (k # ks) v d =
     AList.update k (JObj (put_at ks v (case map_of d k of Some (JObj child) \<Rightarrow> child | _ \<Rightarrow> []))) d"

definition apply_env :: "json_dict \<Rightarrow> (string \<Rightarrow> string option) \<Rightarrow> json_dict" where
  "apply_env document env =
     foldl (\<lambda>d (variable, location). case env variable of None \<Rightarrow> d | Some v \<Rightarrow> put_at location (JStr v) d)
       document ENV_OVERRIDES"

subsection \<open>The settings\<close>

datatype sink_kind = Local | S3

record okta_settings =
  ok_org_url :: string
  ok_client_id :: string
  ok_kid :: string
  ok_private_key_file :: "string option"
  ok_private_key :: "string option"
  ok_dpop_key_file :: "string option"
  ok_dpop_key :: "string option"
  ok_since :: "string option"
  ok_limit :: int
  ok_poll_seconds :: seconds

record sink_settings =
  sk_kind :: sink_kind
  sk_directory :: string
  sk_bucket :: "string option"
  sk_provider_roles :: "(string \<times> string) list"
  sk_external_id :: "string option"
  sk_source_name :: string
  sk_region :: string
  sk_account_id :: string

record state_settings =
  st_database :: string
  st_ttl_hours :: rat

record settings =
  cf_okta :: okta_settings
  cf_sink :: sink_settings
  cf_state :: state_settings
  cf_telemetry_enabled :: bool
  cf_health_file :: "string option"
  cf_stream :: "string option"

text \<open>\<open>not s\<close> for an optional text.\<close>

definition blank :: "string option \<Rightarrow> bool" where
  "blank v \<longleftrightarrow> v = None \<or> v = Some []"

definition check_okta :: "okta_settings \<Rightarrow> exn + unit" where
  "check_okta ok =
     (if \<not> (1 \<le> ok_limit ok \<and> ok_limit ok \<le> 1000) then Inl (ValueError ''limit'')
      else if \<not> 0 < ok_poll_seconds ok then Inl (ValueError ''poll_seconds'')
      else if (ok_private_key_file ok = None) = (ok_private_key ok = None) then Inl (ValueError ''private_key'')
      else if ok_dpop_key_file ok \<noteq> None \<and> ok_dpop_key ok \<noteq> None then Inl (ValueError ''dpop_key'')
      else Inr ())"

definition client_key :: "(string \<Rightarrow> exn + string) \<Rightarrow> okta_settings \<Rightarrow> exn + string" where
  "client_key read_text ok =
     (case ok_private_key ok of
        Some pem \<Rightarrow> Inr pem
      | None \<Rightarrow> (case ok_private_key_file ok of
           None \<Rightarrow> Inl (RuntimeErr ''AssertionError'') | Some path \<Rightarrow> read_text path))"

definition proof_key :: "(string \<Rightarrow> exn + string) \<Rightarrow> okta_settings \<Rightarrow> exn + string option" where
  "proof_key read_text ok =
     (case ok_dpop_key ok of
        Some pem \<Rightarrow> Inr (Some pem)
      | None \<Rightarrow> (case ok_dpop_key_file ok of
           None \<Rightarrow> Inr None | Some path \<Rightarrow> res_bind (read_text path) (\<lambda>pem. Inr (Some pem))))"

text \<open>\<open>describe\<close>; a bucket that is None prints as such.\<close>

definition describe_sink :: "sink_settings \<Rightarrow> string" where
  "describe_sink sk =
     (case sk_kind sk of
        S3 \<Rightarrow> ''s3://'' @ (case sk_bucket sk of None \<Rightarrow> ''None'' | Some b \<Rightarrow> b)
      | Local \<Rightarrow> sk_directory sk)"

subsection \<open>The provider roles as text\<close>

text \<open>\<open>s.split(c)\<close> and \<open>s.partition(c)\<close>.\<close>

fun split_on :: "char \<Rightarrow> string \<Rightarrow> string list" where
  "split_on sep [] = [[]]"
| "split_on sep (c # cs) =
     (if c = sep then [] # split_on sep cs
      else (case split_on sep cs of [] \<Rightarrow> [[c]] | part # parts \<Rightarrow> (c # part) # parts))"

definition partition_at :: "char \<Rightarrow> string \<Rightarrow> string \<times> bool \<times> string" where
  "partition_at sep s =
     (takeWhile (\<lambda>c. c \<noteq> sep) s, sep \<in> set s, drop (Suc (length (takeWhile (\<lambda>c. c \<noteq> sep) s))) s)"

fun parse_pairs :: "string list \<Rightarrow> (string \<times> string) list \<Rightarrow> exn + (string \<times> string) list" where
  "parse_pairs [] roles = Inr roles"
| "parse_pairs (pair # pairs) roles =
     (if pair = [] then parse_pairs pairs roles
      else (case partition_at (CHR ''='') pair of
              (name, separator, arn) \<Rightarrow>
                if \<not> separator \<or> str_strip name = [] \<or> str_strip arn = [] then Inl (ValueError pair)
                else parse_pairs pairs (AList.update (str_strip name) (str_strip arn) roles)))"

definition parse_roles :: "string \<Rightarrow> exn + (string \<times> string) list" where
  "parse_roles value = parse_pairs (map str_strip (split_on (CHR '','') value)) []"

text \<open>What the validator does to the document before the fields are typed: a text becomes a table.\<close>

definition with_roles :: "json_dict \<Rightarrow> exn + json_dict" where
  "with_roles document =
     (case json_at (JObj document) [''sink'', ''provider_roles''] of
        Some (JStr text) \<Rightarrow>
          res_bind (parse_roles text) (\<lambda>roles.
          Inr (put_at [''sink'', ''provider_roles''] (JObj (map (\<lambda>(n, a). (n, JStr a)) roles)) document))
      | _ \<Rightarrow> Inr document)"

subsection \<open>The checks of the destination\<close>

definition check_destination :: "sink_settings \<Rightarrow> exn + unit" where
  "check_destination sk =
     (if sk_kind sk = S3 \<and> blank (sk_bucket sk) then Inl (ValueError ''bucket'')
      else if sk_provider_roles sk \<noteq> [] \<and> sk_kind sk \<noteq> S3 then Inl (ValueError ''provider_roles'')
      else if sk_provider_roles sk \<noteq> [] \<and> blank (sk_external_id sk) then Inl (ValueError ''external_id'')
      else if \<not> blank (sk_external_id sk) \<and> sk_provider_roles sk = [] then Inl (ValueError ''external_id'')
      else if sk_provider_roles sk \<noteq> [] \<and> set (map fst (sk_provider_roles sk)) \<noteq> all_source_names (sk_source_name sk)
        then Inl (ValueError ''provider_roles'')
      else if sk_kind sk = Local \<and> sk_bucket sk \<noteq> None then Inl (ValueError ''bucket'')
      else Inr ())"

definition check_sink :: "sink_settings \<Rightarrow> exn + unit" where
  "check_sink sk = res_bind (check_source_names (sk_source_name sk)) (\<lambda>_. check_destination sk)"

subsection \<open>The path of the database\<close>

text \<open>\<open>os.path.abspath\<close> on POSIX; \<open>cwd\<close> is the working directory.\<close>

fun normal_parts :: "bool \<Rightarrow> string list \<Rightarrow> string list \<Rightarrow> string list" where
  "normal_parts rooted stack [] = rev stack"
| "normal_parts rooted stack (p # ps) =
     (if p = [] \<or> p = ''.'' then normal_parts rooted stack ps
      else if p \<noteq> ''..'' \<or> (\<not> rooted \<and> stack = []) \<or> (stack \<noteq> [] \<and> hd stack = ''..'')
        then normal_parts rooted (p # stack) ps
      else normal_parts rooted (tl stack) ps)"

definition normpath :: "string \<Rightarrow> string" where
  "normpath path =
     (if path = [] then ''.''
      else (let slashes = (if \<not> starts_with path ''/'' then 0
                           else if starts_with path ''//'' \<and> \<not> starts_with path ''///'' then 2 else (1 :: nat));
                result = replicate slashes (CHR ''/'') @
                  str_join ''/'' (normal_parts (slashes \<noteq> 0) [] (split_on (CHR ''/'') path))
            in if result = [] then ''.'' else result))"

definition join_path :: "string \<Rightarrow> string \<Rightarrow> string" where
  "join_path a b =
     (if starts_with b ''/'' then b
      else if a = [] \<or> last a = CHR ''/'' then a @ b else a @ ''/'' @ b)"

definition abspath :: "string \<Rightarrow> string \<Rightarrow> string" where
  "abspath cwd path = normpath (if starts_with path ''/'' then path else join_path cwd path)"

definition check_state :: "(string \<Rightarrow> string) \<Rightarrow> string \<Rightarrow> state_settings \<Rightarrow> exn + state_settings" where
  "check_state expanduser cwd st =
     (if \<not> 0 < st_ttl_hours st then Inl (ValueError ''ttl_hours'')
      else Inr (st\<lparr>st_database := abspath cwd (expanduser (st_database st))\<rparr>))"

text \<open>What loading takes from its surroundings.\<close>

record loader =
  ld_read_toml :: "string \<Rightarrow> exn + json_dict"
  ld_parse :: "json_dict \<Rightarrow> exn + settings"
  ld_expanduser :: "string \<Rightarrow> string"
  ld_cwd :: string

definition model_validate :: "loader \<Rightarrow> json_dict \<Rightarrow> exn + settings" where
  "model_validate ld document =
     res_bind (with_roles document) (\<lambda>d.
     res_bind (ld_parse ld d) (\<lambda>cf.
     res_bind (check_okta (cf_okta cf)) (\<lambda>_.
     res_bind (check_sink (cf_sink cf)) (\<lambda>_.
     res_bind (check_state (ld_expanduser ld) (ld_cwd ld) (cf_state cf)) (\<lambda>st.
     Inr (cf\<lparr>cf_state := st\<rparr>))))))"

definition load_config :: "loader \<Rightarrow> string option \<Rightarrow> (string \<Rightarrow> string option) \<Rightarrow> exn + settings" where
  "load_config ld path env =
     res_bind (case path of None \<Rightarrow> Inr [] | Some p \<Rightarrow> ld_read_toml ld p) (\<lambda>document.
     model_validate ld (apply_env document env))"

subsection \<open>Overrides\<close>

lemma put_at_there: "location \<noteq> [] \<Longrightarrow> json_at (JObj (put_at location v d)) location = Some v"
  by (induction location v d rule: put_at.induct) auto

lemma put_at_elsewhere:
  assumes "location \<noteq> []" and "\<not> prefix location q" and "\<not> prefix q location"
  shows "json_at (JObj (put_at location v d)) q = json_at (JObj d) q"
  using assms
proof (induction location v d arbitrary: q rule: put_at.induct)
  case (1 v d)
  then show ?case by simp
next
  case (2 k v d)
  then show ?case by (cases q) auto
next
  case (3 k l ks v d)
  from "3.prems" obtain a as where q: "q = a # as" by (cases q) auto
  show ?case
  proof (cases "a = k")
    case True
    let ?child = "case map_of d k of Some (JObj child) \<Rightarrow> child | _ \<Rightarrow> []"
    from "3.prems" True q have "\<not> prefix (l # ks) as" "\<not> prefix as (l # ks)" by auto
    then have "json_at (JObj (put_at (l # ks) v ?child)) as = json_at (JObj ?child) as" and as: "as \<noteq> []"
      using "3.IH" by auto
    moreover have "json_at (JObj ?child) as = (case map_of d k of None \<Rightarrow> None | Some w \<Rightarrow> json_at w as)"
      using as by (cases as) (auto split: option.splits json.splits)
    ultimately show ?thesis using q True by simp
  next
    case False
    with q show ?thesis by simp
  qed
qed

text \<open>Paths none of which leads to another.\<close>

definition apart :: "string list \<Rightarrow> string list \<Rightarrow> bool" where
  "apart p q \<longleftrightarrow> \<not> prefix p q \<and> \<not> prefix q p"

fun all_apart :: "string list list \<Rightarrow> bool" where
  "all_apart [] = True"
| "all_apart (p # ps) = (list_all (apart p) ps \<and> all_apart ps)"

abbreviation override :: "(string \<Rightarrow> string option) \<Rightarrow> json_dict \<Rightarrow> string \<times> string list \<Rightarrow> json_dict" where
  "override env \<equiv> \<lambda>d (variable, location). case env variable of None \<Rightarrow> d | Some v \<Rightarrow> put_at location (JStr v) d"

lemma override_elsewhere:
  "location \<noteq> [] \<Longrightarrow> apart location q \<Longrightarrow>
   json_at (JObj (override env d (variable, location))) q = json_at (JObj d) q"
  by (auto simp: apart_def put_at_elsewhere split: option.split)

lemma overrides_elsewhere:
  "[] \<notin> snd ` set os \<Longrightarrow> (\<forall>(variable, location) \<in> set os. apart location q) \<Longrightarrow>
   json_at (JObj (foldl (override env) d os)) q = json_at (JObj d) q"
proof (induction os arbitrary: d)
  case Nil
  then show ?case by simp
next
  case (Cons o' os)
  obtain variable location where o': "o' = (variable, location)" by (cases o')
  have "location \<noteq> []" "apart location q" using Cons.prems by (auto simp: o')
  then have "json_at (JObj (override env d o')) q = json_at (JObj d) q" unfolding o' by (rule override_elsewhere)
  with Cons show ?case by (auto simp: o')
qed

lemma overrides_there:
  assumes "[] \<notin> snd ` set os" and "all_apart (map snd os)" and "(variable, location) \<in> set os"
  shows "json_at (JObj (foldl (override env) d os)) location =
    (case env variable of None \<Rightarrow> json_at (JObj d) location | Some v \<Rightarrow> Some (JStr v))"
  using assms
proof (induction os arbitrary: d)
  case Nil
  then show ?case by simp
next
  case (Cons o' os)
  show ?case
  proof (cases "o' = (variable, location)")
    case True
    with Cons.prems have here: "location \<noteq> []" "\<forall>(variable', location') \<in> set os. apart location' location"
      by (auto simp: list_all_iff apart_def)
    have "[] \<notin> snd ` set os" using Cons.prems by simp
    from overrides_elsewhere [OF this here(2)] show ?thesis
      using True put_at_there [OF here(1)] by (auto split: option.split)
  next
    case False
    obtain variable' location' where o': "o' = (variable', location')" by (cases o')
    from False Cons.prems have "(variable, location) \<in> set os" "apart location' location" "location' \<noteq> []"
      by (auto simp: o' list_all_iff)
    with Cons show ?thesis
      using override_elsewhere [where env = env and d = d and variable = variable' and location = location' and q = location] by (cases "env variable") (simp_all add: o')
  qed
qed

text \<open>C31: An environment variable that is set decides its setting, whatever the file says; one that is
  not set leaves it as the file has it; and no variable reaches any other setting.\<close>

theorem environment_wins:
  assumes "(variable, location) \<in> set ENV_OVERRIDES"
  shows "json_at (JObj (apply_env document env)) location =
      (case env variable of None \<Rightarrow> json_at (JObj document) location | Some v \<Rightarrow> Some (JStr v)) \<and>
    ({l \<in> snd ` set ENV_OVERRIDES. prefix l q \<or> prefix q l} = {} \<longrightarrow>
      json_at (JObj (apply_env document env)) q = json_at (JObj document) q)"
proof -
  have nonempty: "[] \<notin> snd ` set ENV_OVERRIDES" by (simp add: ENV_OVERRIDES_def)
  have "all_apart (map snd ENV_OVERRIDES)" by code_simp
  then have "json_at (JObj (apply_env document env)) location =
      (case env variable of None \<Rightarrow> json_at (JObj document) location | Some v \<Rightarrow> Some (JStr v))"
    unfolding apply_env_def by (rule overrides_there [OF nonempty _ assms])
  moreover have "json_at (JObj (apply_env document env)) q = json_at (JObj document) q"
    if "{l \<in> snd ` set ENV_OVERRIDES. prefix l q \<or> prefix q l} = {}"
    unfolding apply_env_def using that by (intro overrides_elsewhere [OF nonempty]) (force simp: apart_def)
  ultimately show ?thesis by blast
qed

theorem environment_wins_witness:
  "json_at (JObj (apply_env [(''sink'', JInt 3)] [''OCSF_SINK_BUCKET'' \<mapsto> ''lake''])) [''sink'', ''bucket''] =
     Some (JStr ''lake'') \<and>
   json_at (JObj (apply_env [(''sink'', JInt 3)] [''OCSF_SINK_BUCKET'' \<mapsto> ''lake''])) [''okta'', ''limit''] = None"
proof -
  have listed: "(''OCSF_SINK_BUCKET'', [''sink'', ''bucket'']) \<in> set ENV_OVERRIDES" by (simp add: ENV_OVERRIDES_def)
  have apart: "{l \<in> snd ` set ENV_OVERRIDES. prefix l [''okta'', ''limit''] \<or> prefix [''okta'', ''limit''] l} = {}"
    by (auto simp: ENV_OVERRIDES_def)
  note both = environment_wins [OF listed, of "[(''sink'', JInt 3)]" "[''OCSF_SINK_BUCKET'' \<mapsto> ''lake'']"]
  show ?thesis using both [THEN conjunct1] mp [OF both [THEN conjunct2] apart] by simp
qed

subsection \<open>Provider roles\<close>

text \<open>The text form the loader reads, for pairs it can say.\<close>

definition roles_text :: "(string \<times> string) list \<Rightarrow> string" where
  "roles_text roles = str_join '','' (map (\<lambda>(n, a). n @ ''='' @ a) roles)"

definition role_ok :: "string \<times> string \<Rightarrow> bool" where
  "role_ok = (\<lambda>(n, a). n \<noteq> [] \<and> a \<noteq> [] \<and> str_strip (n @ ''='' @ a) = n @ ''='' @ a \<and>
     str_strip n = n \<and> str_strip a = a \<and> CHR '','' \<notin> set n \<and> CHR '','' \<notin> set a \<and> CHR ''='' \<notin> set n)"

lemma split_on_free: "sep \<notin> set s \<Longrightarrow> split_on sep s = [s]"
  by (induction s) auto

lemma split_on_sep: "sep \<notin> set s \<Longrightarrow> split_on sep (s @ sep # t) = s # split_on sep t"
  by (induction s) auto

lemma split_join:
  "xs \<noteq> [] \<Longrightarrow> list_all (\<lambda>x. sep \<notin> set x) xs \<Longrightarrow> split_on sep (str_join [sep] xs) = xs"
proof (induction xs rule: induct_list012)
  case (3 x y zs)
  then show ?case using split_on_sep [of sep x] by simp
qed (simp_all add: split_on_free)

lemma parse_pairs_roles:
  assumes "list_all role_ok roles" and "distinct (map fst (acc @ roles))"
  shows "parse_pairs (map (\<lambda>(n, a). n @ ''='' @ a) roles) acc = Inr (acc @ roles)"
  using assms
proof (induction roles arbitrary: acc)
  case Nil
  then show ?case by simp
next
  case (Cons r roles)
  obtain n a where r: "r = (n, a)" by (cases r)
  have ok: "n \<noteq> []" "a \<noteq> []" "str_strip n = n" "str_strip a = a" "CHR ''='' \<notin> set n"
    using Cons.prems by (auto simp: r role_ok_def)
  have name: "takeWhile (\<lambda>c. c \<noteq> CHR ''='') (n @ CHR ''='' # a) = n"
    using ok(5) by (auto simp: takeWhile_tail takeWhile_eq_all_conv)
  have part: "partition_at (CHR ''='') (n @ CHR ''='' # a) = (n, True, a)"
    by (simp add: partition_at_def name)
  have fresh: "n \<notin> fst ` set acc" using Cons.prems by (auto simp: r)
  then have "AList.update n a acc = acc @ [(n, a)]" by (induction acc) auto
  with Cons.IH [of "acc @ [r]"] Cons.prems show ?case by (simp add: r part ok)
qed

text \<open>A table of provider roles written as text is read back: same roles, same order. Names and
  role ARNs may hold anything but the comma, and a name no equals sign, as long as they have no
  white space around them; so the environment can say every table the file can say of these.\<close>

theorem roles_text_roundtrip:
  assumes "list_all role_ok roles" and "distinct (map fst roles)"
  shows "parse_roles (roles_text roles) = Inr roles"
proof (cases "roles = []")
  case True
  have "parse_roles [] = Inr []" by code_simp
  with True show ?thesis by (simp add: roles_text_def)
next
  case False
  let ?texts = "map (\<lambda>(n, a). n @ ''='' @ a) roles"
  have "list_all (\<lambda>x. CHR '','' \<notin> set x) ?texts" using assms(1) by (auto simp: list_all_iff role_ok_def)
  then have "split_on (CHR '','') (roles_text roles) = ?texts"
    unfolding roles_text_def using False by (intro split_join) simp_all
  moreover have "map str_strip ?texts = ?texts"
    using assms(1) by (intro map_idI) (auto simp: list_all_iff role_ok_def)
  moreover have "parse_pairs ?texts [] = Inr ([] @ roles)"
    using assms by (intro parse_pairs_roles) simp_all
  ultimately show ?thesis by (simp only: parse_roles_def append_Nil)
qed

theorem roles_text_roundtrip_witness:
  "parse_roles ''okta_group=arn:aws:iam::1:role/a=b,okta_entity=arn:aws:iam::1:role/c'' =
     Inr [(''okta_group'', ''arn:aws:iam::1:role/a=b''), (''okta_entity'', ''arn:aws:iam::1:role/c'')]"
proof -
  let ?roles = "[(''okta_group'', ''arn:aws:iam::1:role/a=b''), (''okta_entity'', ''arn:aws:iam::1:role/c'')]"
  have ok: "list_all role_ok ?roles" "distinct (map fst ?roles)" by code_simp+
  from roles_text_roundtrip [OF ok] show ?thesis by (simp add: roles_text_def)
qed

subsection \<open>What settings pass\<close>

lemma check_okta_ok:
  "check_okta ok = Inr () \<longleftrightarrow>
     1 \<le> ok_limit ok \<and> ok_limit ok \<le> 1000 \<and> 0 < ok_poll_seconds ok \<and>
     (ok_private_key_file ok = None \<longleftrightarrow> ok_private_key ok \<noteq> None) \<and>
     (ok_dpop_key_file ok = None \<or> ok_dpop_key ok = None)"
  by (auto simp: check_okta_def)

lemma check_sink_roles:
  assumes "check_sink sk = Inr ()"
  shows "check_source_names (sk_source_name sk) = Inr ()"
    and "sk_kind sk = S3 \<Longrightarrow> \<not> blank (sk_bucket sk)"
    and "sk_kind sk = Local \<Longrightarrow> sk_bucket sk = None \<and> sk_provider_roles sk = []"
    and "sk_provider_roles sk \<noteq> [] \<Longrightarrow> \<not> blank (sk_external_id sk) \<and>
      set (map fst (sk_provider_roles sk)) = all_source_names (sk_source_name sk)"
  using assms by (auto simp: check_sink_def check_destination_def res_bind_Inr_iff split: if_splits)

lemma load_config_checked:
  assumes "load_config ld path env = Inr cf"
  shows "check_okta (cf_okta cf) = Inr ()" and "check_sink (cf_sink cf) = Inr ()"
  using assms by (auto simp: load_config_def model_validate_def res_bind_Inr_iff)

end
