(* ===== verification/Shutdown.thy ===== *)
theory Shutdown
  imports Prelude
begin

section \<open>Stopping on a signal\<close>

text \<open>
  \<open>src/ocsf_connector/runner/shutdown.py\<close>. \<open>shutdown\<close> is the class, \<open>watch\<close> the variables of
  \<open>stop_on_signals\<close> that \<open>arrive\<close> works on: the \<open>Shutdown\<close> and whether the task was cancelled.
  The event loop's \<open>add_signal_handler\<close> and \<open>remove_signal_handler\<close> are parameters. \<open>asyncio.sleep\<close>
  and the clock are written out in \<open>shutdown_sleep\<close>, over the signals that arrive, with their times.
\<close>

definition STOP_SIGNALS :: "int list" where
  "STOP_SIGNALS = [2, 15]"

record shutdown =
  sd_event :: bool
  sd_signum :: "int option"

definition new_shutdown :: shutdown where
  "new_shutdown = \<lparr>sd_event = False, sd_signum = None\<rparr>"

definition request :: "int \<Rightarrow> shutdown \<Rightarrow> shutdown" where
  "request signum sd =
     (if sd_signum sd = None then sd\<lparr>sd_signum := Some signum, sd_event := True\<rparr> else sd)"

definition requested :: "shutdown \<Rightarrow> int option" where
  "requested sd = sd_signum sd"

record watch =
  wt_shutdown :: shutdown
  wt_cancelled :: bool

definition new_watch :: watch where
  "new_watch = \<lparr>wt_shutdown = new_shutdown, wt_cancelled = False\<rparr>"

definition arrive :: "int \<Rightarrow> watch \<Rightarrow> watch" where
  "arrive signum wt =
     (if requested (wt_shutdown wt) \<noteq> None then wt\<lparr>wt_cancelled := True\<rparr>
      else wt\<lparr>wt_shutdown := request signum (wt_shutdown wt)\<rparr>)"

abbreviation arrivals :: "int list \<Rightarrow> watch \<Rightarrow> watch" where
  "arrivals signums wt \<equiv> foldl (\<lambda>wt n. arrive n wt) wt signums"

text \<open>
  \<open>sleep\<close>: \<open>wait_for\<close> of the event, with the time out suppressed. The signals that are still to
  arrive are given with their times, in order; the result is the time it ends, what is still to
  arrive, and the state. A sleep that starts with the event set ends at once.
\<close>

fun shutdown_wait ::
  "seconds \<Rightarrow> seconds \<Rightarrow> (seconds \<times> int) list \<Rightarrow> watch \<Rightarrow> seconds \<times> (seconds \<times> int) list \<times> watch" where
  "shutdown_wait now deadline [] wt =
     (if sd_event (wt_shutdown wt) then (now, [], wt) else (deadline, [], wt))"
| "shutdown_wait now deadline ((t, n) # coming) wt =
     (if sd_event (wt_shutdown wt) then (now, (t, n) # coming, wt)
      else if deadline \<le> t then (deadline, (t, n) # coming, wt)
      else shutdown_wait t deadline coming (arrive n wt))"

definition shutdown_sleep ::
  "seconds \<Rightarrow> seconds \<Rightarrow> (seconds \<times> int) list \<Rightarrow> watch \<Rightarrow> seconds \<times> (seconds \<times> int) list \<times> watch" where
  "shutdown_sleep seconds now coming wt = shutdown_wait now (now + max 0 seconds) coming wt"

subsection \<open>Handlers for the time of a block\<close>

text \<open>The loop that installs; the second result is \<open>installed\<close>, which a raise leaves incomplete.\<close>

fun install ::
  "(int \<Rightarrow> (unit, 'w) io) \<Rightarrow> int list \<Rightarrow> int list \<Rightarrow> 'w \<Rightarrow> (exn + unit) \<times> int list \<times> 'w" where
  "install add [] installed w = (Inr (), installed, w)"
| "install add (n # ns) installed w =
     (case add n w of
        (Inl x, w') \<Rightarrow> (Inl x, installed, w')
      | (Inr _, w') \<Rightarrow> install add ns (installed @ [n]) w')"

definition remove_all :: "(int \<Rightarrow> 'w \<Rightarrow> 'w) \<Rightarrow> int list \<Rightarrow> 'w \<Rightarrow> 'w" where
  "remove_all remove installed w = foldl (\<lambda>w n. remove n w) w installed"

text \<open>The body runs on the watch and the world; it need not end.\<close>

definition stop_on_signals ::
  "(int \<Rightarrow> (unit, 'w) io) \<Rightarrow> (int \<Rightarrow> 'w \<Rightarrow> 'w) \<Rightarrow> int list \<Rightarrow>
   (watch \<times> 'w \<Rightarrow> ((exn + 'a) \<times> watch \<times> 'w) option) \<Rightarrow> 'w \<Rightarrow> ((exn + 'a) \<times> 'w) option" where
  "stop_on_signals add remove signals body w =
     (case install add signals [] w of
        (Inl x, installed, w1) \<Rightarrow> Some (Inl x, remove_all remove installed w1)
      | (Inr _, installed, w1) \<Rightarrow>
          (case body (new_watch, w1) of
             None \<Rightarrow> None
           | Some (r, (wt, w2)) \<Rightarrow> Some (r, remove_all remove installed w2)))"

subsection \<open>The first signal and the second\<close>

text \<open>The watch after some signals arrived; both flags of a \<open>Shutdown\<close> say the same.\<close>

lemma arrivals_requested:
  "requested (wt_shutdown (arrivals ns wt)) =
     (case requested (wt_shutdown wt) of
        Some n \<Rightarrow> Some n | None \<Rightarrow> (case ns of [] \<Rightarrow> None | n # _ \<Rightarrow> Some n))"
  by (induction ns arbitrary: wt)
     (auto simp: arrive_def request_def requested_def split: option.splits list.splits)

lemma arrivals_cancelled:
  "wt_cancelled (arrivals ns wt) \<longleftrightarrow>
     wt_cancelled wt \<or> (case requested (wt_shutdown wt) of Some _ \<Rightarrow> ns \<noteq> [] | None \<Rightarrow> 1 < length ns)"
  by (induction ns arbitrary: wt)
     (auto simp: arrive_def request_def requested_def Suc_lessI split: option.splits)

definition watch_ok :: "watch \<Rightarrow> bool" where
  "watch_ok wt \<longleftrightarrow> sd_event (wt_shutdown wt) = (sd_signum (wt_shutdown wt) \<noteq> None)"

lemma watch_ok_arrive [simp]: "watch_ok wt \<Longrightarrow> watch_ok (arrive n wt)"
  by (auto simp: watch_ok_def arrive_def request_def requested_def)

lemma watch_ok_new [simp]: "watch_ok new_watch"
  by (simp add: watch_ok_def new_watch_def new_shutdown_def)

lemma arrivals_new:
  "requested (wt_shutdown (arrivals ns new_watch)) = (case ns of [] \<Rightarrow> None | n # _ \<Rightarrow> Some n)"
  "wt_cancelled (arrivals ns new_watch) \<longleftrightarrow> 1 < length ns"
  by (simp_all add: arrivals_requested arrivals_cancelled)
     (simp_all add: new_watch_def new_shutdown_def requested_def)

subsection \<open>A sleep\<close>

lemma wait_set:
  "sd_event (wt_shutdown wt) \<Longrightarrow> shutdown_wait now deadline coming wt = (now, coming, wt)"
  by (cases coming) auto

text \<open>How long a tail sleeps between two pages. Without a signal it is the whole poll interval. A
  signal that arrives in time ends the sleep at that moment, whatever the interval is, and the
  loop then reads that signal; a signal that came before makes it no sleep at all. Signals that
  arrive later are not consumed, so a second one still finds the first requested.\<close>

theorem sleep_ends_at_first_signal:
  assumes "watch_ok wt" and "sorted (map fst coming)"
    and "shutdown_sleep seconds now coming wt = (ended, rest, wt')"
  shows "case requested (wt_shutdown wt) of
      Some n \<Rightarrow> ended = now \<and> rest = coming \<and> wt' = wt
    | None \<Rightarrow>
        (case coming of
           [] \<Rightarrow> ended = now + max 0 seconds \<and> wt' = wt
         | (t, n) # later \<Rightarrow>
             if t < now + max 0 seconds
             then ended = t \<and> rest = later \<and> requested (wt_shutdown wt') = Some n \<and>
               wt_cancelled wt' = wt_cancelled wt
             else ended = now + max 0 seconds \<and> rest = coming \<and> wt' = wt)"
proof (cases "requested (wt_shutdown wt)")
  case (Some n)
  then have "sd_event (wt_shutdown wt)" using assms(1) by (simp add: watch_ok_def requested_def)
  with assms(3) Some show ?thesis by (simp add: shutdown_sleep_def wait_set)
next
  case None
  then have unset: "\<not> sd_event (wt_shutdown wt)" using assms(1) by (simp add: watch_ok_def requested_def)
  show ?thesis
  proof (cases coming)
    case Nil
    with assms(3) None unset show ?thesis by (auto simp: shutdown_sleep_def)
  next
    case (Cons c later)
    obtain t n where c: "c = (t, n)" by (cases c)
    have "sd_event (wt_shutdown (arrive n wt))"
      using None by (simp add: arrive_def request_def requested_def)
    from wait_set [OF this] assms(3) None unset Cons c show ?thesis
      by (auto simp: shutdown_sleep_def arrive_def request_def requested_def split: if_splits)
  qed
qed

theorem sleep_ends_at_first_signal_witness:
  "shutdown_sleep 10 100 [(103, 15), (104, 2)] new_watch =
     (103, [(104, 2)], arrive 15 new_watch) \<and>
   fst (shutdown_sleep 10 100 [(103, 15), (104, 2)] new_watch) = 103"
proof -
  have call: "shutdown_sleep 10 100 [(103, 15), (104, 2)] new_watch = (103, [(104, 2)], arrive 15 new_watch)"
    by (simp add: shutdown_sleep_def new_watch_def new_shutdown_def arrive_def request_def requested_def)
  have "requested (wt_shutdown new_watch) = None" by (simp add: new_watch_def new_shutdown_def requested_def)
  moreover have "sorted (map fst [(103 :: seconds, 15 :: int), (104, 2)])" by simp
  ultimately have "fst (shutdown_sleep 10 100 [(103, 15), (104, 2)] new_watch) = 103"
    using sleep_ends_at_first_signal [OF watch_ok_new _ call] unfolding call by simp
  with call show ?thesis by simp
qed

subsection \<open>No handler is left behind\<close>

text \<open>What is observed of the loop: the signals that have a handler.\<close>

definition handler_laws ::
  "('w \<Rightarrow> int set) \<Rightarrow> (int \<Rightarrow> (unit, 'w) io) \<Rightarrow> (int \<Rightarrow> 'w \<Rightarrow> 'w) \<Rightarrow> bool" where
  "handler_laws handled add remove \<longleftrightarrow>
     (\<forall>n w r w'. add n w = (r, w') \<longrightarrow>
        handled w' = (case r of Inl _ \<Rightarrow> handled w | Inr _ \<Rightarrow> insert n (handled w))) \<and>
     (\<forall>n w. handled (remove n w) = handled w - {n})"

lemma install_handled:
  assumes "handler_laws handled add remove" and "install add ns installed w = (r, installed', w')"
  shows "\<exists>added. installed' = installed @ added \<and> handled w' = handled w \<union> set added \<and> set added \<subseteq> set ns"
  using assms(2)
proof (induction ns arbitrary: installed w)
  case Nil
  then show ?case by simp
next
  case (Cons n ns)
  obtain q w1 where q: "add n w = (q, w1)" by (cases "add n w")
  with assms(1) have step: "handled w1 = (case q of Inl _ \<Rightarrow> handled w | Inr _ \<Rightarrow> insert n (handled w))"
    by (simp add: handler_laws_def)
  show ?case
  proof (cases q)
    case (Inl x)
    with q step Cons.prems show ?thesis by simp
  next
    case (Inr u)
    with q Cons.prems have "install add ns (installed @ [n]) w1 = (r, installed', w')" by simp
    from Cons.IH [OF this] obtain added where "installed' = installed @ (n # added)"
      and "handled w' = handled w \<union> set (n # added)" and "set added \<subseteq> set ns"
      using step Inr by auto
    then show ?thesis by (intro exI [of _ "n # added"]) auto
  qed
qed

lemma remove_all_handled:
  "handler_laws handled add remove \<Longrightarrow> handled (remove_all remove ns w) = handled w - set ns"
  unfolding remove_all_def by (induction ns arbitrary: w) (auto simp: handler_laws_def)

text \<open>The handlers last for the block and no longer. However the block ends, by returning, by
  raising or because a handler could not be installed, no handler is left for the signals it was
  called with and those of other signals are as they were, so the default disposition is back.\<close>

theorem handlers_removed:
  assumes "handler_laws handled add remove"
    and "\<And>wt w r wt' w'. body (wt, w) = Some (r, (wt', w')) \<Longrightarrow> handled w' = handled w"
    and "stop_on_signals add remove signals body w = Some (r, w')"
    and "handled w \<inter> set signals = {}"
  shows "handled w' = handled w"
proof -
  obtain q installed w1 where i: "install add signals [] w = (q, installed, w1)"
    by (cases "install add signals [] w") auto
  from install_handled [OF assms(1) i] assms(4)
  have w1: "handled w1 - set installed = handled w" by auto
  show ?thesis
  proof (cases q)
    case (Inl x)
    with assms(3) i have "w' = remove_all remove installed w1" by (simp add: stop_on_signals_def)
    with w1 show ?thesis using remove_all_handled [OF assms(1)] by simp
  next
    case (Inr u)
    with assms(3) i obtain wt w2 where "body (new_watch, w1) = Some (r, (wt, w2))"
      and w': "w' = remove_all remove installed w2"
      by (auto simp: stop_on_signals_def split: option.splits)
    with assms(2) have "handled w2 = handled w1" by blast
    with w1 w' show ?thesis using remove_all_handled [OF assms(1)] by simp
  qed
qed

text \<open>A loop that refuses SIGTERM, as a platform without it does: SIGINT is given back.\<close>

theorem handlers_removed_witness:
  "stop_on_signals (\<lambda>n (hs, trace). if n = 15 then (Inl (RuntimeErr ''NotImplementedError''), (hs, trace)) else (Inr (), (insert n hs, n # trace)))
     (\<lambda>n (hs, trace). (hs - {n}, - n # trace)) STOP_SIGNALS (\<lambda>(wt, w). Some (Inr (), (wt, w))) ({1}, []) =
     Some (Inl (RuntimeErr ''NotImplementedError''), ({1}, [-2, 2]))"
proof -
  let ?add = "\<lambda>n (hs, trace). if n = 15 then (Inl (RuntimeErr ''NotImplementedError''), (hs, trace)) else (Inr (), (insert n hs, n # trace))"
  let ?remove = "\<lambda>n :: int. \<lambda>(hs, trace). (hs - {n}, - n # trace)"
  have laws: "handler_laws fst ?add ?remove"
    by (auto simp: handler_laws_def split: if_splits sum.split)
  have call: "stop_on_signals ?add ?remove STOP_SIGNALS (\<lambda>(wt, w). Some (Inr (), (wt, w))) ({1}, []) =
      Some (Inl (RuntimeErr ''NotImplementedError''), ((insert 2 {1}) - {2}, [-2, 2]))"
    by (simp add: stop_on_signals_def STOP_SIGNALS_def remove_all_def)
  have "fst ((insert 2 {1 :: int}) - {2}, [-2, 2 :: int]) = fst ({1 :: int}, [] :: int list)"
    by (rule handlers_removed [OF laws _ call]) (auto simp: STOP_SIGNALS_def)
  with call show ?thesis by simp
qed

end
