(* ===== verification/Modes.thy ===== *)
theory Modes
  imports OcsfSchema S3Store OktaMapper OktaSource LakeSink Settings Shutdown
begin

section \<open>The two modes: tail and backfill\<close>

text \<open>
  \<open>src/ocsf_connector/runner/modes.py\<close>: what is built from the settings (\<open>assemble\<close>), the checks
  before a run, and the run with its opening cursor, its idling and its stop signal. \<open>mode_env\<close>
  holds what the modes call and do not define: the files, the constructors that open something,
  the clock, the event loop and the callbacks. \<open>me_wire\<close> makes the methods of the assembled
  components, which their own theories model, into the calls of the run loop; \<open>mode_deps\<close> is what
  the modes add to them.

  Inside the block of \<open>stop_on_signals\<close> the state is the watch and the world: signals arrive
  during the awaited calls, and a second one cancels the call it arrives in.
\<close>

definition TAIL_STREAM :: string where
  "TAIL_STREAM = ''okta-tail''"

definition BACKFILL_STREAM :: string where
  "BACKFILL_STREAM = ''okta-backfill''"

definition check_opening_bound :: "'t datetimes \<Rightarrow> string \<Rightarrow> seconds \<Rightarrow> exn + unit" where
  "check_opening_bound dt since now =
     (case retention_shortfall dt since now of
        Inl _ \<Rightarrow> Inl OpeningBoundRefused
      | Inr shortfall \<Rightarrow> if 0 < shortfall then Inl OpeningBoundRefused else Inr ())"

subsection \<open>What is built from the settings\<close>

datatype 'c destination = Files string | Bucket "'c s3_store"

definition objects_for :: "(string \<Rightarrow> 'c) \<Rightarrow> sink_settings \<Rightarrow> exn + 'c destination" where
  "objects_for make_client sk =
     (case sk_kind sk of
        Local \<Rightarrow> Inr (Files (sk_directory sk))
      | S3 \<Rightarrow>
          (case sk_bucket sk of
             None \<Rightarrow> Inl (RuntimeErr ''AssertionError'')
           | Some named \<Rightarrow>
               res_bind
                 (if sk_provider_roles sk = [] then Inr None
                  else (case sk_external_id sk of
                    None \<Rightarrow> Inl (RuntimeErr ''AssertionError'')
                  | Some external_id \<Rightarrow>
                      Inr (Some \<lparr>pr_roles = sk_provider_roles sk, pr_external_id = external_id,
                        pr_region = sk_region sk, pr_session_name = ''ocsf-connector'',
                        pr_assumed = 0, pr_cached = []\<rparr>)))
                 (\<lambda>roles. Inr (Bucket \<lparr>s3_bucket = named, s3_region = sk_region sk,
                    s3_client = make_client (sk_region sk), s3_roles = roles, s3_written = []\<rparr>))))"

text \<open>The components as they are constructed; \<open>pt_dpop\<close> is None for \<open>BearerAuth\<close>.\<close>

record 'c parts =
  pt_credentials :: okta_credentials
  pt_dpop :: "dpop option"
  pt_objects :: "'c destination"
  pt_database :: string
  pt_ttl :: seconds
  pt_mapper :: okta_rules
  pt_source :: okta_source
  pt_lake :: lake_config
  pt_telemetry :: bool

text \<open>Their methods, for a stream, and the two that \<open>tail\<close> calls beside the loop.\<close>

record ('r, 'w) assembled =
  am_source :: okta_source
  am_deps :: "string \<Rightarrow> ('r, 'w) deps"
  am_caught_up_age :: "string \<Rightarrow> (seconds option, 'w) io"
  am_close :: "(unit, 'w) io"

record ('t, 'c, 'r, 'w) mode_env =
  me_datetimes :: "'t datetimes"
  me_read_text :: "'w \<Rightarrow> string \<Rightarrow> exn + string"
  me_auth :: "'w auth_env"
  me_s3_client :: "string \<Rightarrow> 'c"
  me_mkdir :: "string \<Rightarrow> (unit, 'w) io"
  me_open_store :: "string \<Rightarrow> seconds \<Rightarrow> (unit, 'w) io"
  me_table :: json
  me_wire :: "'c parts \<Rightarrow> ('r, 'w) assembled"
  me_clock :: "(seconds, 'w) io"
  me_add_handler :: "int \<Rightarrow> (unit, 'w) io"
  me_remove_handler :: "int \<Rightarrow> 'w \<Rightarrow> 'w"
  me_signals :: "'w \<Rightarrow> int list \<times> 'w"
  me_idle :: "seconds \<Rightarrow> 'w \<Rightarrow> int list \<times> 'w"
  me_on_progress :: "(run_stats \<Rightarrow> (unit, 'w) io) option"
  me_on_warning :: "(string \<Rightarrow> seconds \<Rightarrow> (unit, 'w) io) option"

definition parent_directory :: "string \<Rightarrow> string" where
  "parent_directory path =
     (let up = rev (dropWhile (\<lambda>c. c \<noteq> CHR ''/'') (rev path))
      in if up = ''/'' \<or> up = ''//'' then up else butlast up)"

definition assemble :: "('t, 'c, 'r, 'w) mode_env \<Rightarrow> settings \<Rightarrow> (('r, 'w) assembled, 'w) io" where
  "assemble me cf =
     (let ok = cf_okta cf; sk = cf_sink cf in
      io_bind (\<lambda>w. (client_key (me_read_text me w) ok, w)) (\<lambda>key.
      io_bind (res_io (new_credentials \<lparr>ac_org_url = ok_org_url ok, ac_client_id = ok_client_id ok,
        ac_private_key = key, ac_kid = ok_kid ok, ac_scopes = [''okta.logs.read''], ac_algorithm = ''RS256''\<rparr>)) (\<lambda>cr.
      io_bind (\<lambda>w. (proof_key (me_read_text me w) ok, w)) (\<lambda>proof.
      io_bind (case proof of
          None \<Rightarrow> io_return None
        | Some pem \<Rightarrow> if pem = [] then io_return None
            else io_bind (res_io (new_dpop (me_auth me) pem ''RS256'')) (\<lambda>dp. io_return (Some dp))) (\<lambda>dp.
      io_bind (res_io (objects_for (me_s3_client me) sk)) (\<lambda>store_for_objects.
      io_bind (me_mkdir me (parent_directory (st_database (cf_state cf)))) (\<lambda>_.
      io_bind (me_open_store me (st_database (cf_state cf)) (st_ttl_hours (cf_state cf) * 3600)) (\<lambda>_.
      io_bind (res_io (load_rules (me_table me))) (\<lambda>rules.
      io_bind (res_io (new_source \<lparr>os_org_url = ok_org_url ok, os_limit = ok_limit ok,
        os_rate_limit_reserve = 5, os_max_attempts = 5, os_max_jitter_seconds = 2\<rparr>)) (\<lambda>src.
      io_return (me_wire me
        \<lparr>pt_credentials = cr, pt_dpop = dp, pt_objects = store_for_objects,
         pt_database = st_database (cf_state cf), pt_ttl = st_ttl_hours (cf_state cf) * 3600,
         pt_mapper = rules, pt_source = src,
         pt_lake = \<lparr>lc_source_name = sk_source_name sk, lc_region = sk_region sk,
           lc_account_id = sk_account_id sk, lc_max_bytes = MAX_BYTES, lc_max_seconds = MAX_SECONDS\<rparr>,
         pt_telemetry = cf_telemetry_enabled cf\<rparr>)))))))))))"

subsection \<open>The run under signals\<close>

text \<open>An awaited call: signals that arrived meanwhile are handled before it is resumed, and a
  cancellation is raised there, once. A call that is not awaited sees no signal.\<close>

definition awaited :: "('w \<Rightarrow> int list \<times> 'w) \<Rightarrow> ('a, 'w) io \<Rightarrow> ('a, watch \<times> 'w) io" where
  "awaited signals m = (\<lambda>(wt, w).
     case m w of (r, w1) \<Rightarrow>
       (case signals w1 of (ns, w2) \<Rightarrow>
          let wt' = arrivals ns wt
          in if wt_cancelled wt' then (Inl Cancelled, (wt'\<lparr>wt_cancelled := False\<rparr>, w2)) else (r, (wt', w2))))"

definition at_once :: "('a, 'w) io \<Rightarrow> ('a, watch \<times> 'w) io" where
  "at_once m = (\<lambda>(wt, w). case m w of (r, w') \<Rightarrow> (r, (wt, w')))"

text \<open>\<open>shutdown.sleep\<close>; how long it lasts, and what arrives, is the environment's.\<close>

definition idle_sleep :: "('t, 'c, 'r, 'w) mode_env \<Rightarrow> seconds \<Rightarrow> (unit, watch \<times> 'w) io" where
  "idle_sleep me seconds = (\<lambda>(wt, w).
     if sd_event (wt_shutdown wt) then (Inr (), (wt, w))
     else awaited (me_idle me seconds) (io_return ()) (wt, w))"

definition mode_deps ::
  "('t, 'c, 'r, 'w) mode_env \<Rightarrow> ('r, 'w) deps \<Rightarrow> (exn + string) \<Rightarrow> seconds option \<Rightarrow> ('r, watch \<times> 'w) deps" where
  "mode_deps me d opening idle =
     (let sg = me_signals me in
      \<lparr>d_get_cursor = awaited sg (d_get_cursor d),
       d_start = awaited sg (res_io opening),
       d_clock = at_once (d_clock d),
       d_stop_signal = Some (\<lambda>(wt, w). (Inr (requested (wt_shutdown wt)), (wt, w))),
       d_fetch = (\<lambda>c. awaited sg (d_fetch d c)),
       d_map = (\<lambda>r. at_once (d_map d r)),
       d_filter_unseen = (\<lambda>us. awaited sg (d_filter_unseen d us)),
       d_record_published = (\<lambda>ms. awaited sg (d_record_published d ms)),
       d_write = (\<lambda>es. awaited sg (d_write d es)),
       d_should_flush = at_once (d_should_flush d),
       d_flush = (\<lambda>key. awaited sg (d_flush d key)),
       d_commit = (\<lambda>c us. awaited sg (d_commit d c us)),
       d_mark_caught_up = awaited sg (d_mark_caught_up d),
       d_purge_expired = awaited sg (d_purge_expired d),
       d_on_progress = map_option (\<lambda>report st. at_once (report st)) (me_on_progress me),
       d_on_idle = map_option (idle_sleep me) idle,
       d_metric = (\<lambda>mt (wt, w). (wt, d_metric d mt w)),
       d_max_pages = None,
       d_purge_every = 3600,
       d_caught_up_every = 3600\<rparr>)"

definition run_under_signals ::
  "('t, 'c, 'r, 'w) mode_env \<Rightarrow> ('r, 'w) deps \<Rightarrow> (exn + string) \<Rightarrow> seconds option \<Rightarrow> 'w \<Rightarrow> ((exn + run_stats) \<times> 'w) option" where
  "run_under_signals me d opening idle =
     stop_on_signals (me_add_handler me) (me_remove_handler me) STOP_SIGNALS (run (mode_deps me d opening idle))"

text \<open>\<open>try: body; finally: close\<close>.\<close>

definition closing ::
  "(unit, 'w) io \<Rightarrow> ('w \<Rightarrow> ((exn + 'a) \<times> 'w) option) \<Rightarrow> 'w \<Rightarrow> ((exn + 'a) \<times> 'w) option" where
  "closing close body w =
     (case body w of
        None \<Rightarrow> None
      | Some (r, w1) \<Rightarrow> (case close w1 of (Inl x, w2) \<Rightarrow> Some (Inl x, w2) | (Inr _, w2) \<Rightarrow> Some (r, w2)))"

subsection \<open>The modes\<close>

text \<open>\<open>config.stream or default\<close>.\<close>

definition stream_name :: "settings \<Rightarrow> string \<Rightarrow> string" where
  "stream_name cf usual =
     (case cf_stream cf of None \<Rightarrow> usual | Some s \<Rightarrow> if s = [] then usual else s)"

definition warn_of_gap :: "('t, 'c, 'r, 'w) mode_env \<Rightarrow> string \<Rightarrow> seconds option \<Rightarrow> (unit, 'w) io" where
  "warn_of_gap me stream age =
     (case (age, me_on_warning me) of
        (Some a, Some warn) \<Rightarrow> if RETENTION_SECONDS < a then warn stream a else io_return ()
      | _ \<Rightarrow> io_return ())"

text \<open>What \<open>tail\<close> asks of the store before the run.\<close>

definition tail_guard ::
  "('t, 'c, 'r, 'w) mode_env \<Rightarrow> ('r, 'w) assembled \<Rightarrow> string \<Rightarrow> string \<Rightarrow> bool \<Rightarrow> (unit, 'w) io" where
  "tail_guard me am stream since from_scratch =
     io_bind (d_get_cursor (am_deps am stream)) (\<lambda>stored.
       case stored of
         None \<Rightarrow>
           if \<not> from_scratch then io_raise ColdStartRefused
           else io_bind (me_clock me) (\<lambda>now. res_io (check_opening_bound (me_datetimes me) since now))
       | Some _ \<Rightarrow>
           io_bind (am_caught_up_age am stream) (warn_of_gap me stream))"

definition tail :: "('t, 'c, 'r, 'w) mode_env \<Rightarrow> settings \<Rightarrow> bool \<Rightarrow> 'w \<Rightarrow> ((exn + run_stats) \<times> 'w) option" where
  "tail me cf from_scratch w =
     (case ok_since (cf_okta cf) of
        None \<Rightarrow> Some (Inl MissingConfig, w)
      | Some since \<Rightarrow>
          (case assemble me cf w of
             (Inl x, w1) \<Rightarrow> Some (Inl x, w1)
           | (Inr am, w1) \<Rightarrow>
               closing (am_close am) (\<lambda>w.
                 case tail_guard me am (stream_name cf TAIL_STREAM) since from_scratch w of
                   (Inl x, w2) \<Rightarrow> Some (Inl x, w2)
                 | (Inr _, w2) \<Rightarrow>
                     run_under_signals me (am_deps am (stream_name cf TAIL_STREAM))
                       (start_tail (am_source am) since) (Some (ok_poll_seconds (cf_okta cf))) w2) w1))"

definition backfill ::
  "('t, 'c, 'r, 'w) mode_env \<Rightarrow> settings \<Rightarrow> string \<Rightarrow> string \<Rightarrow> 'w \<Rightarrow> ((exn + run_stats) \<times> 'w) option" where
  "backfill me cf since until w =
     (case io_bind (me_clock me) (\<lambda>now. res_io (check_opening_bound (me_datetimes me) since now)) w of
        (Inl x, w1) \<Rightarrow> Some (Inl x, w1)
      | (Inr _, w1) \<Rightarrow>
          (case assemble me cf w1 of
             (Inl x, w2) \<Rightarrow> Some (Inl x, w2)
           | (Inr am, w2) \<Rightarrow>
               closing (am_close am)
                 (run_under_signals me (am_deps am (stream_name cf BACKFILL_STREAM))
                   (start_backfill (am_source am) since until) None) w2))"

subsection \<open>Signals in a run\<close>

text \<open>The watch of a run in which at most one signal, one of \<open>S\<close>, arrived and nothing was cancelled.\<close>

definition one_signal :: "int set \<Rightarrow> watch \<times> 'w \<Rightarrow> bool" where
  "one_signal S = (\<lambda>(wt, w). \<exists>ns. length ns \<le> 1 \<and> set ns \<subseteq> S \<and> wt = arrivals ns new_watch)"

definition signals_in :: "int set \<Rightarrow> ('t, 'c, 'r, 'w) mode_env \<Rightarrow> bool" where
  "signals_in S me \<longleftrightarrow>
     (\<forall>w. set (fst (me_signals me w)) \<subseteq> S) \<and> (\<forall>seconds w. set (fst (me_idle me seconds w)) \<subseteq> S)"

lemma keeps_at_once: "keeps (one_signal S) (at_once m)"
  by (auto simp: keeps_def at_once_def one_signal_def intro!: tripleI split: prod.splits)

lemma keeps_awaited:
  assumes "\<And>w. set (fst (signals w)) \<subseteq> S"
  shows "keeps (one_signal S) (awaited signals m)"
  unfolding keeps_def
proof (intro tripleI)
  fix s :: "watch \<times> 'a" and x t
  assume s: "one_signal S s" and call: "awaited signals m s = (Inr x, t)"
  obtain wt w where sw: "s = (wt, w)" by (cases s)
  with s obtain ns where ns: "set ns \<subseteq> S" "wt = arrivals ns new_watch" by (auto simp: one_signal_def)
  obtain r w1 where m: "m w = (r, w1)" by (cases "m w")
  obtain ms w2 where sig: "signals w1 = (ms, w2)" by (cases "signals w1")
  have whole: "arrivals ms wt = arrivals (ns @ ms) new_watch" by (simp add: ns)
  have from_S: "set (ns @ ms) \<subseteq> S" using ns(1) assms [of w1] sig by simp
  from call have "\<not> wt_cancelled (arrivals ms wt)" and t: "t = (arrivals ms wt, w2)"
    by (auto simp: sw awaited_def m sig Let_def split: if_splits)
  then have "length (ns @ ms) \<le> 1" by (simp only: whole arrivals_new not_less)
  with t whole from_S show "one_signal S t" by (auto simp: one_signal_def intro!: exI [of _ "ns @ ms"])
qed simp

lemma keeps_idle_sleep:
  assumes "signals_in S me"
  shows "keeps (one_signal S) (idle_sleep me seconds)"
  unfolding keeps_def
proof (intro tripleI)
  fix s x t
  assume s: "one_signal S s" and call: "idle_sleep me seconds s = (Inr x, t)"
  obtain wt w where sw: "s = (wt, w)" by (cases s)
  show "one_signal S t"
  proof (cases "sd_event (wt_shutdown wt)")
    case True
    with s call sw show ?thesis by (simp add: idle_sleep_def)
  next
    case False
    with call sw have sleep: "awaited (me_idle me seconds) (io_return ()) s = (Inr x, t)" by (simp add: idle_sleep_def)
    have "keeps (one_signal S) (awaited (me_idle me seconds) (io_return ()))"
      using assms by (intro keeps_awaited) (simp add: signals_in_def)
    from triple_Inr [OF this [unfolded keeps_def] s sleep] show ?thesis .
  qed
qed simp

lemma keeps_requested: "keeps (one_signal S) (\<lambda>(wt, w). (Inr (requested (wt_shutdown wt)), (wt, w)))"
  by (auto simp: keeps_def one_signal_def intro!: tripleI)

lemma one_signal_metric: "one_signal S (wt, w) \<Longrightarrow> one_signal S (wt, w')"
  by (simp add: one_signal_def)

lemma mode_deps_keep:
  assumes "signals_in S me"
  shows "deps_keep (one_signal S) (mode_deps me d opening idle)"
proof -
  have sub: "set (fst (me_signals me w)) \<subseteq> S" for w using assms by (simp add: signals_in_def)
  show ?thesis
    unfolding deps_keep_def mode_deps_def Let_def deps.select_convs
    by (intro conjI allI impI keeps_at_once keeps_awaited sub;
        clarsimp simp: keeps_requested keeps_at_once keeps_idle_sleep [OF assms]; erule one_signal_metric)
qed

lemma mode_deps_simps [simp]:
  "d_max_pages (mode_deps me d opening idle) = None"
  "d_stop_signal (mode_deps me d opening idle) = Some (\<lambda>(wt, w). (Inr (requested (wt_shutdown wt)), (wt, w)))"
  "d_get_cursor (mode_deps me d opening idle) = awaited (me_signals me) (d_get_cursor d)"
  by (simp_all add: mode_deps_def Let_def)

lemma run_turn_stops:
  assumes "run_turn (mode_deps me d opening idle) l s = (Inr (Inl st), t)"
  shows "case rs_stopped_by st of None \<Rightarrow> True | Some n \<Rightarrow> requested (wt_shutdown (fst t)) = Some n"
proof (cases "requested (wt_shutdown (fst s))")
  case (Some n)
  with assms(1) show ?thesis
    by (auto simp: run_turn_def io_bind_def io_return_def split_def run_snapshot_def)
next
  case None
  with assms(1) have "rs_stopped_by st = None"
    by (auto simp: run_turn_def io_bind_def io_return_def split_def run_snapshot_def split: sum.splits prod.splits)
  then show ?thesis by simp
qed

lemma run_signals:
  assumes "signals_in S me" and "run (mode_deps me d opening idle) (new_watch, w) = Some (Inr st, (wt, w'))"
  shows "\<exists>ns. length ns \<le> 1 \<and> set ns \<subseteq> S \<and> wt = arrivals ns new_watch \<and>
    (rs_exhausted st \<and> rs_stopped_by st = None \<or>
     \<not> rs_exhausted st \<and> (\<exists>n. ns = [n] \<and> rs_stopped_by st = Some n))"
proof -
  let ?Q = "\<lambda>r s. case r of Inl _ \<Rightarrow> True | Inr st \<Rightarrow> one_signal S s \<and>
    (case rs_stopped_by st of None \<Rightarrow> True | Some n \<Rightarrow> requested (wt_shutdown (fst s)) = Some n)"
  note keep = mode_deps_keep [OF assms(1)]
  have "?Q (Inr st :: exn + run_stats) (wt, w')"
  proof (rule run_rule [OF assms(2), where P = "one_signal S" and I = "\<lambda>_. one_signal S" and Q = ?Q])
    show "triple (one_signal S) (run_open (mode_deps me d opening idle)) (\<lambda>_. one_signal S) (\<lambda>x w. ?Q (Inl x) w)"
      using run_open_keeps [OF keep] by (simp add: keeps_def)
    show "one_signal S (new_watch, w)" by (auto simp: one_signal_def intro: exI [of _ "[]"])
    show "triple (one_signal S) (run_turn (mode_deps me d opening idle) l)
      (\<lambda>q w. case q of Inl st \<Rightarrow> ?Q (Inr st) w | Inr l' \<Rightarrow> one_signal S w) (\<lambda>x w. ?Q (Inl x) w)" for l
      using run_turn_keeps [OF keep, THEN keeps_def [THEN iffD1], THEN triple_Inr] run_turn_stops
      by (intro tripleI) (auto split: sum.splits)
  qed
  then have signals: "one_signal S (wt, w')"
    and stopped: "rs_stopped_by st = Some n \<Longrightarrow> requested (wt_shutdown wt) = Some n" for n
    by simp_all
  then obtain ns where ns: "length ns \<le> 1" "set ns \<subseteq> S" "wt = arrivals ns new_watch" by (auto simp: one_signal_def)
  have "ns = [n]" if "rs_stopped_by st = Some n" for n
    using stopped [OF that] ns by (auto simp: arrivals_new length_Suc_conv le_Suc_eq split: list.splits)
  with run_balances(2) [OF assms(2)] ns show ?thesis by (intro exI [of _ ns]) auto
qed

text \<open>C36: How a run that a mode starts ends when it ends normally. At most one signal came, since a
  second one would have cancelled it, and either the range was exhausted, or that one signal
  stopped the run and its number is what the run reports. A tail's source never runs out, so a tail
  that returns was stopped by exactly one signal and says which.\<close>

theorem stop_is_reported:
  assumes "run (mode_deps me d opening idle) (new_watch, w) = Some (Inr st, (wt, w'))"
  shows "\<exists>ns. length ns \<le> 1 \<and> wt = arrivals ns new_watch \<and>
    (rs_exhausted st \<and> rs_stopped_by st = None \<or>
     \<not> rs_exhausted st \<and> (\<exists>n. ns = [n] \<and> rs_stopped_by st = Some n))"
  using run_signals [OF _ assms, of UNIV] by (auto simp: signals_in_def)

subsection \<open>An environment for the witnesses\<close>

text \<open>
  The world is the stored cursor, the calls that were made, and the signals to come. A time text of
  \<open>n\<close> characters is \<open>n\<close> seconds after 1970; it is 100 then. The source has the one page \<open>records\<close>
  and ends there.
\<close>

type_synonym sample_world = "string option \<times> string list \<times> int list"

definition sample_note :: "string \<Rightarrow> 'a \<Rightarrow> ('a, sample_world) io" where
  "sample_note call x = (\<lambda>(cur, calls, sg). (Inr x, (cur, calls @ [call], sg)))"

definition sample_auth :: "sample_world auth_env" where
  "sample_auth =
     \<lparr>ae_post = (\<lambda>url form h. io_raise TransportErr), ae_clock = io_return 100, ae_proof_clock = io_return 100,
      ae_jwt = (\<lambda>p k a h. io_return []), ae_uuid = io_return [], ae_token_urlsafe = io_return [],
      ae_sha256 = id, ae_float = (\<lambda>s. None), ae_export_jwk = (\<lambda>pem rsa. Inr [])\<rparr>"

definition sample_mode_deps :: "string \<Rightarrow> (ocsf_event, sample_world) deps" where
  "sample_mode_deps stream =
     \<lparr>d_get_cursor = (\<lambda>(cur, calls, sg). (Inr cur, (cur, calls, sg))), d_start = io_raise Cancelled,
      d_clock = io_return 100, d_stop_signal = None,
      d_fetch = (\<lambda>c. sample_note (''fetch '' @ c) \<lparr>pg_records = [], pg_next_cursor = None\<rparr>), d_map = io_return,
      d_filter_unseen = (\<lambda>us. io_return us), d_record_published = (\<lambda>_. io_return ()), d_write = (\<lambda>_. io_return ()),
      d_should_flush = io_return False, d_flush = (\<lambda>_. io_return ()),
      d_commit = (\<lambda>c us (cur, calls, sg). (Inr (), (c, calls, sg))),
      d_mark_caught_up = io_return (), d_purge_expired = io_return (), d_on_progress = None, d_on_idle = None,
      d_metric = (\<lambda>_ w. w), d_max_pages = None, d_purge_every = 3600, d_caught_up_every = 3600\<rparr>"

definition sample_mode :: "(seconds, unit, ocsf_event, sample_world) mode_env" where
  "sample_mode =
     \<lparr>me_datetimes = \<lparr>dt_fromisoformat = (\<lambda>s. if s = [] then None else Some (of_nat (length s))),
        dt_aware = (\<lambda>_. True), dt_as_utc = id, dt_timestamp = id\<rparr>,
      me_read_text = (\<lambda>w path. Inr ''pem''), me_auth = sample_auth, me_s3_client = (\<lambda>_. ()),
      me_mkdir = (\<lambda>path. sample_note (''mkdir '' @ path) ()), me_open_store = (\<lambda>path ttl. sample_note (''open '' @ path) ()),
      me_table = JObj [(''fallback'', row_value (0, 0))],
      me_wire = (\<lambda>pt. \<lparr>am_source = pt_source pt, am_deps = sample_mode_deps,
        am_caught_up_age = (\<lambda>_. io_return None), am_close = sample_note ''close'' ()\<rparr>),
      me_clock = io_return 100, me_add_handler = (\<lambda>_. io_return ()), me_remove_handler = (\<lambda>_ w. w),
      me_signals = (\<lambda>(cur, calls, sg). (sg, (cur, calls, []))), me_idle = (\<lambda>_ w. ([], w)),
      me_on_progress = None, me_on_warning = None\<rparr>"

definition sample_settings :: settings where
  "sample_settings =
     \<lparr>cf_okta = \<lparr>ok_org_url = ''https://o'', ok_client_id = ''c'', ok_kid = ''k'', ok_private_key_file = None,
        ok_private_key = Some ''pem'', ok_dpop_key_file = None, ok_dpop_key = None, ok_since = Some ''s'',
        ok_limit = 9, ok_poll_seconds = 10\<rparr>,
      cf_sink = \<lparr>sk_kind = Local, sk_directory = ''out'', sk_bucket = None, sk_provider_roles = [],
        sk_external_id = None, sk_source_name = ''okta'', sk_region = ''r'', sk_account_id = ''a''\<rparr>,
      cf_state = \<lparr>st_database = ''/s/db'', st_ttl_hours = 24\<rparr>, cf_telemetry_enabled = False,
      cf_health_file = None, cf_stream = None\<rparr>"

definition sample_assembled :: "(ocsf_event, sample_world) assembled" where
  "sample_assembled =
     \<lparr>am_source = \<lparr>os_org_url = ''https://o'', os_limit = 9, os_rate_limit_reserve = 5, os_max_attempts = 5,
        os_max_jitter_seconds = 2\<rparr>,
      am_deps = sample_mode_deps, am_caught_up_age = (\<lambda>_. io_return None), am_close = sample_note ''close'' ()\<rparr>"

lemma sample_table:
  "load_rules (JObj [(''fallback'', row_value (0, 0))]) =
     Inr \<lparr>or_ocsf_version = ''1.3.0'', or_mapping_version = ''unknown'', or_fallback = (0, 0), or_events = []\<rparr>"
  by code_simp

lemma assemble_sample:
  "assemble sample_mode sample_settings (cur, calls, sg) =
     (Inr sample_assembled, (cur, calls @ [''mkdir /s'', ''open /s/db''], sg))"
  by (simp add: assemble_def sample_mode_def sample_settings_def sample_table client_key_def proof_key_def
      new_credentials_def SUPPORTED_ALGORITHMS_def objects_for_def parent_directory_def sample_note_def
      new_source_def MAX_LIMIT_def sample_assembled_def io_bind_def res_io_def io_return_def starts_with_def
      rstrip_slash_def Let_def)

lemmas sample_run_simps =
  sample_mode_def sample_mode_deps_def mode_deps_def awaited_def at_once_def idle_sleep_def res_io_def sample_note_def
  run_def run_open_def run_turn_def page_step_def take_page_def published_phase_def flush_phase_def
  idle_phase_def run_snapshot_def io_on_error_def io_bind_def io_return_def io_modify_def uniq_def Let_def
  new_watch_def new_shutdown_def arrive_def request_def requested_def

lemma sample_run:
  "run (mode_deps sample_mode (sample_mode_deps s) (Inr ''o'') None) (new_watch, (Some ''c7'', calls, [])) =
     Some (Inr \<lparr>rs_pages = 1, rs_mapped = 0, rs_written = 0, rs_duplicates_skipped = 0, rs_commits = 1,
       rs_exhausted = True, rs_stopped_by = None\<rparr>, (new_watch, (None, calls @ [''fetch c7''], [])))"
  by (simp add: sample_run_simps run_loop.simps)

text \<open>SIGTERM while the cursor is read.\<close>

theorem stop_is_reported_witness:
  "\<exists>wt w' st. run (mode_deps sample_mode (sample_mode_deps TAIL_STREAM) (Inr ''o'') None) (new_watch, (Some ''c7'', [], [15])) =
     Some (Inr st, (wt, w')) \<and> rs_pages st = 0 \<and> rs_stopped_by st = Some 15 \<and> wt = arrivals [15] new_watch"
proof -
  obtain st wt w' where run: "run (mode_deps sample_mode (sample_mode_deps TAIL_STREAM) (Inr ''o'') None) (new_watch, (Some ''c7'', [], [15])) =
      Some (Inr st, (wt, w'))" and st: "rs_pages st = 0" "rs_stopped_by st = Some 15" "\<not> rs_exhausted st"
    by (simp add: sample_run_simps run_loop.simps)
  from stop_is_reported [OF run] st obtain ns where "wt = arrivals ns new_watch" "ns = [15]" by auto
  with run st show ?thesis by blast
qed

subsection \<open>Opening and resuming\<close>

lemma run_under_opening:
  assumes "fst (d_get_cursor d (snd (snd (install (me_add_handler me) STOP_SIGNALS [] w)))) \<noteq> Inr None"
  shows "run_under_signals me d opening idle w = run_under_signals me d opening' idle w"
proof -
  obtain q installed w1 where i: "install (me_add_handler me) STOP_SIGNALS [] w = (q, installed, w1)"
    by (cases "install (me_add_handler me) STOP_SIGNALS [] w") auto
  let ?d = "mode_deps me d opening idle" and ?d' = "mode_deps me d opening' idle"
  have other: "?d' = ?d\<lparr>d_start := d_start ?d'\<rparr>" by (simp add: mode_deps_def Let_def)
  have "fst (d_get_cursor d w1) \<noteq> Inr None" using assms i by simp
  then have "fst (d_get_cursor ?d (new_watch, w1)) \<noteq> Inr None"
    by (auto simp: awaited_def Let_def split: prod.splits)
  then have "run (?d\<lparr>d_start := d_start ?d'\<rparr>) (new_watch, w1) = run ?d (new_watch, w1)"
    by (rule run_start_unread)
  then have "run ?d (new_watch, w1) = run ?d' (new_watch, w1)" using other by simp
  then show ?thesis by (cases q) (simp_all add: run_under_signals_def stop_on_signals_def i)
qed

lemma modes_share_stream:
  "stream_name cf TAIL_STREAM = stream_name cf BACKFILL_STREAM \<longleftrightarrow> \<not> blank (cf_stream cf)"
  by (auto simp: stream_name_def blank_def TAIL_STREAM_def BACKFILL_STREAM_def split: option.splits)

text \<open>C35: A backfill does not always open fresh. When its stream has a stored cursor, as after an
  earlier backfill that was interrupted past a commit, or when the configuration names the stream and
  a tail has used it, the bounds it was called with play no part beyond the check of the first: any
  other bounds that pass give the same pages, the same result and the same final state.\<close>

theorem backfill_resumes:
  assumes "me_clock me w = (Inr now, w1)"
    and "check_opening_bound (me_datetimes me) since now = Inr ()"
    and "check_opening_bound (me_datetimes me) since' now = Inr ()"
    and "assemble me cf w1 = (Inr am, w2)"
    and "fst (d_get_cursor (am_deps am (stream_name cf BACKFILL_STREAM))
           (snd (snd (install (me_add_handler me) STOP_SIGNALS [] w2)))) = Inr (Some c)"
  shows "backfill me cf since until w = backfill me cf since' until' w"
proof -
  let ?d = "am_deps am (stream_name cf BACKFILL_STREAM)"
  have "run_under_signals me ?d (start_backfill (am_source am) since until) None w2 =
      run_under_signals me ?d (start_backfill (am_source am) since' until') None w2"
    by (rule run_under_opening) (simp add: assms(5))
  with assms(1-4) show ?thesis by (simp add: backfill_def closing_def io_bind_def res_io_def)
qed

theorem backfill_resumes_witness:
  "backfill sample_mode sample_settings ''2026'' ''2027'' (Some ''c7'', [], []) =
     Some (Inr \<lparr>rs_pages = 1, rs_mapped = 0, rs_written = 0, rs_duplicates_skipped = 0, rs_commits = 1,
       rs_exhausted = True, rs_stopped_by = None\<rparr>,
       (None, [''mkdir /s'', ''open /s/db'', ''fetch c7'', ''close''], [])) \<and>
   backfill sample_mode sample_settings ''2026'' ''2027'' (Some ''c7'', [], []) =
     backfill sample_mode sample_settings ''1'' ''2'' (Some ''c7'', [], [])"
proof
  let ?w = "(Some ''c7'', [], []) :: sample_world"
  have clock: "me_clock sample_mode ?w = (Inr 100, ?w)" by (simp add: sample_mode_def io_return_def)
  have bound: "check_opening_bound (me_datetimes sample_mode) s 100 = Inr ()" if "s \<noteq> []" for s
    using that by (simp add: check_opening_bound_def retention_shortfall_def sample_mode_def RETENTION_SECONDS_def)
  have stored: "fst (d_get_cursor (am_deps sample_assembled (stream_name sample_settings BACKFILL_STREAM))
      (snd (snd (install (me_add_handler sample_mode) STOP_SIGNALS [] (Some ''c7'', calls, [])))))
      = Inr (Some ''c7'')" for calls
    by (simp add: sample_assembled_def sample_mode_deps_def sample_mode_def STOP_SIGNALS_def io_return_def)
  show "backfill sample_mode sample_settings ''2026'' ''2027'' ?w = backfill sample_mode sample_settings ''1'' ''2'' ?w"
    by (rule backfill_resumes [OF clock bound bound assemble_sample stored]) simp_all
  show "backfill sample_mode sample_settings ''2026'' ''2027'' ?w =
     Some (Inr \<lparr>rs_pages = 1, rs_mapped = 0, rs_written = 0, rs_duplicates_skipped = 0, rs_commits = 1,
       rs_exhausted = True, rs_stopped_by = None\<rparr>,
       (None, [''mkdir /s'', ''open /s/db'', ''fetch c7'', ''close''], []))"
    using assemble_sample [of "Some ''c7''" "[]" "[]"] bound [of "''2026''"] clock
    by (simp add: backfill_def closing_def run_under_signals_def stop_on_signals_def STOP_SIGNALS_def remove_all_def
        sample_assembled_def sample_run_simps run_loop.simps)
qed

text \<open>What \<open>tail\<close> relies on between its reading of the cursor and the run's: nothing changes it.\<close>

definition cursor_kept :: "('w \<Rightarrow> 'v) \<Rightarrow> ('a, 'w) io \<Rightarrow> bool" where
  "cursor_kept cur m \<longleftrightarrow> (\<forall>w r w'. m w = (r, w') \<longrightarrow> cur w' = cur w)"

definition cursor_laws ::
  "('t, 'c, 'r, 'w) mode_env \<Rightarrow> ('r, 'w) assembled \<Rightarrow> string \<Rightarrow> ('w \<Rightarrow> string option) \<Rightarrow> bool" where
  "cursor_laws me am stream cur \<longleftrightarrow>
     cursor_kept cur (d_get_cursor (am_deps am stream)) \<and>
     (\<forall>w x w'. d_get_cursor (am_deps am stream) w = (Inr x, w') \<longrightarrow> x = cur w) \<and>
     cursor_kept cur (am_caught_up_age am stream) \<and>
     (\<forall>warn a. me_on_warning me = Some warn \<longrightarrow> cursor_kept cur (warn stream a)) \<and>
     (\<forall>n. cursor_kept cur (me_add_handler me n))"

lemma cursor_kept_bind:
  "cursor_kept cur m \<Longrightarrow> (\<And>x. cursor_kept cur (f x)) \<Longrightarrow> cursor_kept cur (io_bind m f)"
  unfolding cursor_kept_def io_bind_def by (fastforce split: prod.splits sum.splits)

lemma cursor_kept_return: "cursor_kept cur (io_return x)" "cursor_kept cur (io_raise e)"
  by (simp_all add: cursor_kept_def io_return_def io_raise_def)

lemma install_cursor:
  assumes "\<And>n. cursor_kept cur (add n)"
  shows "cur (snd (snd (install add ns installed w))) = cur w"
proof (induction ns arbitrary: installed w)
  case (Cons n ns)
  obtain q w1 where q: "add n w = (q, w1)" by (cases "add n w")
  with assms [of n] have "cur w1 = cur w" by (simp add: cursor_kept_def)
  with q Cons show ?case by (cases q) simp_all
qed simp

lemma guard_stored:
  assumes "cursor_laws me am stream cur" and "tail_guard me am stream since False w = (Inr u, w')"
  shows "cur w' = cur w \<and> cur w \<noteq> None"
proof -
  have warn: "cursor_kept cur (warn_of_gap me stream age)" for age
    using assms(1) by (auto simp: warn_of_gap_def cursor_laws_def cursor_kept_return split: option.split)
  from assms(2) [unfolded tail_guard_def] obtain stored w1 where get: "d_get_cursor (am_deps am stream) w = (Inr stored, w1)"
    and rest: "(case stored of
         None \<Rightarrow> if \<not> False then io_raise ColdStartRefused
           else io_bind (me_clock me) (\<lambda>now. res_io (check_opening_bound (me_datetimes me) since now))
       | Some _ \<Rightarrow> io_bind (am_caught_up_age am stream) (warn_of_gap me stream)) w1 = (Inr u, w')"
    by (subst (asm) io_bind_Inr_iff) blast
  have first: "stored = cur w" "cur w1 = cur w"
    using assms(1) get by (auto simp: cursor_laws_def cursor_kept_def)
  show ?thesis
  proof (cases stored)
    case None
    with rest show ?thesis by (simp add: io_raise_def)
  next
    case (Some c)
    have "cursor_kept cur (am_caught_up_age am stream)" using assms(1) by (simp add: cursor_laws_def)
    from cursor_kept_bind [OF this warn] rest Some have "cur w' = cur w1" by (simp add: cursor_kept_def)
    moreover have "cur w = Some c" using first(1) Some by simp
    ultimately show ?thesis using first(2) by simp
  qed
qed

lemma keys_since:
  "client_key read_text (ok\<lparr>ok_since := s\<rparr>) = client_key read_text ok"
  "proof_key read_text (ok\<lparr>ok_since := s\<rparr>) = proof_key read_text ok"
  by (simp_all add: client_key_def proof_key_def cong: option.case_cong)

lemma assemble_since: "assemble me (cf\<lparr>cf_okta := cf_okta cf\<lparr>ok_since := s\<rparr>\<rparr>) = assemble me cf"
  by (simp add: assemble_def Let_def keys_since)

text \<open>C33: A tail that was not told to start from scratch never opens a query. Without a stored
  cursor it raises and makes no run, and with one the configured \<open>since\<close> plays no part: any other
  text there, however old, gives the same run. So losing the state database cannot make it read
  the log again from \<open>since\<close> unasked, and a configuration that has aged does not stop a tail.\<close>

theorem tail_never_opens_unasked:
  assumes "assemble me cf w = (Inr am, w1)"
    and "cursor_laws me am (stream_name cf TAIL_STREAM) cur"
    and "ok_since (cf_okta cf) = Some since"
  shows "(case cur w1 of
      None \<Rightarrow> (case tail me cf False w of None \<Rightarrow> False | Some (r, w') \<Rightarrow> \<exists>x. r = Inl x)
    | Some _ \<Rightarrow> tail me (cf\<lparr>cf_okta := cf_okta cf\<lparr>ok_since := Some since'\<rparr>\<rparr>) False w = tail me cf False w)"
proof -
  let ?s = "stream_name cf TAIL_STREAM" and ?cf = "cf\<lparr>cf_okta := cf_okta cf\<lparr>ok_since := Some since'\<rparr>\<rparr>"
  have stream: "stream_name ?cf TAIL_STREAM = ?s" by (simp add: stream_name_def)
  obtain q w2 where guard: "tail_guard me am ?s since False w1 = (q, w2)"
    by (cases "tail_guard me am ?s since False w1")
  have guard': "tail_guard me am ?s since' False w1 = (q, w2)"
    using guard by (simp add: tail_guard_def cong: option.case_cong)
  show ?thesis
  proof (cases "cur w1")
    case None
    have "q \<noteq> Inr u" for u
      using guard_stored [OF assms(2), of since w1 u w2] guard None by auto
    then obtain x where "q = Inl x" by (cases q) auto
    with None guard assms(1,3) show ?thesis
      by (simp add: tail_def closing_def split: prod.split sum.split)
  next
    case (Some c)
    show ?thesis
    proof (cases q)
      case (Inl x)
      with Some guard guard' assms(1,3) show ?thesis by (simp add: tail_def assemble_since stream closing_def)
    next
      case (Inr u)
      from guard_stored [OF assms(2)] guard Inr have "cur w2 \<noteq> None" by auto
      moreover have "cur (snd (snd (install (me_add_handler me) STOP_SIGNALS [] w2))) = cur w2"
        using assms(2) by (intro install_cursor) (simp add: cursor_laws_def)
      ultimately have "fst (d_get_cursor (am_deps am ?s) (snd (snd (install (me_add_handler me) STOP_SIGNALS [] w2)))) \<noteq> Inr None"
        using assms(2) unfolding cursor_laws_def by (metis prod.collapse)
      from run_under_opening [OF this] have
        "run_under_signals me (am_deps am ?s) (start_tail (am_source am) since') idle w2 =
         run_under_signals me (am_deps am ?s) (start_tail (am_source am) since) idle w2" for idle .
      with Some guard guard' Inr assms(1,3) show ?thesis by (simp add: tail_def assemble_since stream closing_def)
    qed
  qed
qed

theorem tail_never_opens_unasked_witness:
  "\<exists>x w'. tail sample_mode sample_settings False (None, [], []) = Some (Inl x, w') \<and> x = ColdStartRefused \<and>
     w' = (None, [''mkdir /s'', ''open /s/db'', ''close''], [])"
proof -
  have laws: "cursor_laws sample_mode sample_assembled s fst" for s
    by (auto simp: cursor_laws_def cursor_kept_def sample_mode_def sample_assembled_def sample_mode_deps_def io_return_def)
  have since: "ok_since (cf_okta sample_settings) = Some ''s''" by (simp add: sample_settings_def)
  from tail_never_opens_unasked [OF assemble_sample laws since, of None "[]" "[]"] obtain x w' where
    raised: "tail sample_mode sample_settings False (None, [], []) = Some (Inl x, w')"
    by (auto split: option.splits)
  have "tail sample_mode sample_settings False (None, [], []) =
      Some (Inl ColdStartRefused, (None, [''mkdir /s'', ''open /s/db'', ''close''], []))"
    using assemble_sample [of None "[]" "[]"] since
    by (simp add: tail_def closing_def tail_guard_def sample_assembled_def sample_mode_deps_def sample_note_def
        io_raise_def io_bind_def)
  with raised show ?thesis by blast
qed

subsection \<open>Opening bounds and the store\<close>


lemma closing_Inr:
  "closing close body w = Some (Inr x, w') \<Longrightarrow> \<exists>w1. body w = Some (Inr x, w1)"
  by (auto simp: closing_def split: option.splits prod.splits sum.splits)








subsection \<open>What a mode returns\<close>

text \<open>The statistics a mode can return: the range is exhausted, or a signal of \<open>S\<close> stopped it.\<close>

definition ended_by :: "int set \<Rightarrow> run_stats \<Rightarrow> bool" where
  "ended_by S st \<longleftrightarrow>
     (case rs_stopped_by st of None \<Rightarrow> rs_exhausted st | Some n \<Rightarrow> n \<in> S \<and> \<not> rs_exhausted st)"

lemma run_under_signals_ended:
  assumes "signals_in S me" and "run_under_signals me d opening idle w = Some (Inr st, w')"
  shows "ended_by S st"
proof -
  from assms(2) obtain w1 wt w2 where "run (mode_deps me d opening idle) (new_watch, w1) = Some (Inr st, (wt, w2))"
    by (auto simp: run_under_signals_def stop_on_signals_def split: prod.splits sum.splits option.splits)
  from run_signals [OF assms(1) this] show ?thesis by (auto simp: ended_by_def)
qed

lemma tail_ended:
  assumes "signals_in S me" and "tail me cf from_scratch w = Some (Inr st, w')"
  shows "ended_by S st"
  using assms(2) run_under_signals_ended [OF assms(1)]
  by (fastforce simp: tail_def dest: closing_Inr split: option.splits prod.splits sum.splits)

lemma backfill_ended:
  assumes "signals_in S me" and "backfill me cf since until w = Some (Inr st, w')"
  shows "ended_by S st"
  using assms(2) run_under_signals_ended [OF assms(1)]
  by (fastforce simp: backfill_def dest: closing_Inr split: option.splits prod.splits sum.splits)

subsection \<open>An accepted configuration can deliver\<close>

text \<open>C32: A configuration that loads can deliver. Building the object store from it does not raise; one
  for S3 with provider roles has the bucket, and a role, one the configuration names, for the custom
  source of every class of the schema, so that no write is refused for want of a role; without
  provider roles the caller's own credentials are used. And the client key is never asked for where
  none was configured.\<close>

theorem accepted_config_delivers:
  assumes "load_config ld path environment = Inr cf"
  shows "(case objects_for make_client (cf_sink cf) of
      Inl _ \<Rightarrow> False
    | Inr (Files dir) \<Rightarrow> sk_kind (cf_sink cf) = Local \<and> dir = sk_directory (cf_sink cf)
    | Inr (Bucket st) \<Rightarrow>
        sk_kind (cf_sink cf) = S3 \<and> s3_bucket st \<noteq> [] \<and> sk_bucket (cf_sink cf) = Some (s3_bucket st) \<and>
        (case s3_roles st of
           None \<Rightarrow> sk_provider_roles (cf_sink cf) = []
         | Some pr \<Rightarrow> \<forall>class_uid \<in> fst ` set schema_classes.
             \<exists>source role. source_name (sk_source_name (cf_sink cf)) class_uid = Inr source \<and>
               map_of (pr_roles pr) source = Some role \<and>
               (source, role) \<in> set (sk_provider_roles (cf_sink cf)))) \<and>
    (ok_private_key_file (cf_okta cf) = None \<longrightarrow> (\<exists>pem. client_key read_text (cf_okta cf) = Inr pem))"
proof
  let ?sk = "cf_sink cf"
  note sink = check_sink_roles [OF load_config_checked(2) [OF assms]]
  have role: "\<exists>source role. source_name (sk_source_name ?sk) class_uid = Inr source \<and>
      map_of (sk_provider_roles ?sk) source = Some role \<and> (source, role) \<in> set (sk_provider_roles ?sk)"
    if "sk_provider_roles ?sk \<noteq> []" "class_uid \<in> fst ` set schema_classes" for class_uid
  proof -
    have "class_uid \<in> set (map fst CLASS_SOURCES)" using that(2) by (simp only: schema_uids_named set_map)
    then obtain slug where "map_of CLASS_SOURCES class_uid = Some slug"
      by (metis map_of_eq_None_iff not_None_eq set_map)
    then obtain source where source: "source_name (sk_source_name ?sk) class_uid = Inr source"
      by (simp add: source_name_def)
    then have "source \<in> set (map fst (sk_provider_roles ?sk))" using sink(4) [OF that(1)] source_name_in by blast
    then obtain role where "map_of (sk_provider_roles ?sk) source = Some role"
      by (metis map_of_eq_None_iff not_None_eq set_map)
    with source show ?thesis by (auto dest: map_of_SomeD)
  qed
  show "case objects_for make_client ?sk of
      Inl _ \<Rightarrow> False
    | Inr (Files dir) \<Rightarrow> sk_kind ?sk = Local \<and> dir = sk_directory ?sk
    | Inr (Bucket st) \<Rightarrow>
        sk_kind ?sk = S3 \<and> s3_bucket st \<noteq> [] \<and> sk_bucket ?sk = Some (s3_bucket st) \<and>
        (case s3_roles st of
           None \<Rightarrow> sk_provider_roles ?sk = []
         | Some pr \<Rightarrow> \<forall>class_uid \<in> fst ` set schema_classes.
             \<exists>source role. source_name (sk_source_name ?sk) class_uid = Inr source \<and>
               map_of (pr_roles pr) source = Some role \<and> (source, role) \<in> set (sk_provider_roles ?sk))"
  proof (cases "sk_kind ?sk")
    case Local
    then show ?thesis by (simp add: objects_for_def)
  next
    case S3
    with sink(2) obtain b where b: "sk_bucket ?sk = Some b" "b \<noteq> []" by (auto simp: blank_def)
    show ?thesis
    proof (cases "sk_provider_roles ?sk = []")
      case True
      with S3 b show ?thesis by (simp add: objects_for_def)
    next
      case False
      with sink(4) obtain e where "sk_external_id ?sk = Some e" by (auto simp: blank_def)
      then show ?thesis using S3 b False role [OF False] by (simp add: objects_for_def)
    qed
  qed
  show "ok_private_key_file (cf_okta cf) = None \<longrightarrow> (\<exists>pem. client_key read_text (cf_okta cf) = Inr pem)"
    using load_config_checked(1) [OF assms] by (auto simp: check_okta_ok client_key_def)
qed

text \<open>A run on S3 with the seven roles, all but its roles from the sample.\<close>

definition delivering_settings :: settings where
  "delivering_settings = sample_settings\<lparr>cf_sink := \<lparr>sk_kind = S3, sk_directory = ''out'', sk_bucket = Some ''lake'',
     sk_provider_roles = map (\<lambda>n. (n, ''arn:'' @ n)) (derived_names ''okta''), sk_external_id = Some ''x'',
     sk_source_name = ''okta'', sk_region = ''r'', sk_account_id = ''a''\<rparr>\<rparr>"

theorem accepted_config_delivers_witness:
  "\<exists>st pr. objects_for (\<lambda>_. ()) (cf_sink delivering_settings) = Inr (Bucket st) \<and> s3_bucket st = ''lake'' \<and>
     s3_roles st = Some pr \<and> (\<exists>role. map_of (pr_roles pr) ''okta_authentication'' = Some role)"
proof -
  let ?ld = "\<lparr>ld_read_toml = (\<lambda>_. Inr []), ld_parse = (\<lambda>_. Inr delivering_settings), ld_expanduser = id, ld_cwd = ''/''\<rparr>"
  have "check_sink (cf_sink delivering_settings) = Inr ()" by code_simp
  moreover have "check_okta (cf_okta delivering_settings) = Inr ()"
    by (simp add: check_okta_ok delivering_settings_def sample_settings_def)
  moreover have "check_state id ''/'' (cf_state delivering_settings) = Inr (cf_state delivering_settings)"
    by code_simp
  moreover have "with_roles (apply_env [] (\<lambda>_. None)) = Inr []" by code_simp
  ultimately have load: "load_config ?ld None (\<lambda>_. None) = Inr delivering_settings"
    by (simp add: load_config_def model_validate_def res_bind_def)
  obtain st where st: "objects_for (\<lambda>_. ()) (cf_sink delivering_settings) = Inr (Bucket st)"
    and parts: "s3_bucket st = ''lake''" "s3_roles st \<noteq> None"
    by (simp add: objects_for_def delivering_settings_def derived_names_list)
  then obtain pr where pr: "s3_roles st = Some pr" by blast
  have "(3002 :: int) \<in> fst ` set schema_classes" by (simp add: schema_classes_def)
  moreover have "source_name (sk_source_name (cf_sink delivering_settings)) 3002 = Inr ''okta_authentication''"
    by (simp add: source_name_def CLASS_SOURCES_def delivering_settings_def)
  ultimately have "\<exists>role. map_of (pr_roles pr) ''okta_authentication'' = Some role"
    using accepted_config_delivers [OF load, of "\<lambda>_. ()" Inr] st pr by force
  with st parts(1) pr show ?thesis by blast
qed

end
