(* ===== verification/Telemetry.thy ===== *)
theory Telemetry
  imports RunLoop Json
begin

section \<open>Telemetry\<close>

text \<open>
  \<open>src/ocsf_connector/telemetry/\<close>: the two implementations of the protocol \<open>Metrics\<close>. OpenTelemetry
  is seen as the measurements it was given, in order: the instrument, the value, the attributes.
  \<open>NullMetrics\<close> leaves them as they are. \<open>loop_metric\<close> is the calls the run loop makes, for its stream.

  The lemmas: what the exported totals are of the calls made, that every measurement is one of an
  instrument that was created, and that a mapper that raises is not counted. That the loop does the
  same under either implementation is the type of its \<open>d_metric\<close>, which returns nothing.
\<close>

datatype instrument_kind = Counter | Histogram | Gauge

definition INSTRUMENTATION_NAME :: string where
  "INSTRUMENTATION_NAME = ''ocsf_connector''"

definition instruments :: "(string \<times> instrument_kind \<times> string) list" where
  "instruments =
    [(''events_total'', Counter, ''1''), (''errors_total'', Counter, ''1''),
     (''unmapped_event_type_total'', Counter, ''1''), (''parquet_objects_written'', Counter, ''1''),
     (''ingest_lag_seconds'', Histogram, ''s''), (''cursor_commit_lag_seconds'', Histogram, ''s''),
     (''rate_limit_remaining'', Gauge, ''1'')]"

record measurement =
  mt_instrument :: string
  mt_value :: rat
  mt_attributes :: "(string \<times> json) list"

definition measure :: "string \<Rightarrow> rat \<Rightarrow> (string \<times> json) list \<Rightarrow> measurement list \<Rightarrow> measurement list" where
  "measure name value attributes ms =
     ms @ [\<lparr>mt_instrument = name, mt_value = value, mt_attributes = attributes\<rparr>]"

definition otel_count_events :: "nat \<Rightarrow> string \<Rightarrow> measurement list \<Rightarrow> measurement list" where
  "otel_count_events events stream = measure ''events_total'' (of_nat events) [(''stream'', JStr stream)]"

definition otel_count_error :: "string \<Rightarrow> string \<Rightarrow> measurement list \<Rightarrow> measurement list" where
  "otel_count_error stage stream = measure ''errors_total'' 1 [(''stage'', JStr stage), (''stream'', JStr stream)]"

definition otel_count_unmapped_event_type :: "string \<Rightarrow> measurement list \<Rightarrow> measurement list" where
  "otel_count_unmapped_event_type event_type =
     measure ''unmapped_event_type_total'' 1 [(''event_type'', JStr event_type)]"

definition otel_count_object_written :: "int \<Rightarrow> measurement list \<Rightarrow> measurement list" where
  "otel_count_object_written class_uid = measure ''parquet_objects_written'' 1 [(''class_uid'', JInt class_uid)]"

definition otel_record_ingest_lag :: "seconds \<Rightarrow> string \<Rightarrow> measurement list \<Rightarrow> measurement list" where
  "otel_record_ingest_lag seconds stream = measure ''ingest_lag_seconds'' seconds [(''stream'', JStr stream)]"

definition otel_record_commit_lag :: "seconds \<Rightarrow> string \<Rightarrow> measurement list \<Rightarrow> measurement list" where
  "otel_record_commit_lag seconds stream = measure ''cursor_commit_lag_seconds'' seconds [(''stream'', JStr stream)]"

definition otel_record_rate_limit_remaining :: "int \<Rightarrow> measurement list \<Rightarrow> measurement list" where
  "otel_record_rate_limit_remaining remaining = measure ''rate_limit_remaining'' (of_int remaining) []"

text \<open>The calls of the loop, on \<open>OtelMetrics\<close> and on \<open>NullMetrics\<close>.\<close>

definition loop_metric :: "string \<Rightarrow> metric \<Rightarrow> measurement list \<Rightarrow> measurement list" where
  "loop_metric stream mt =
     (case mt of
        CountError stage \<Rightarrow> otel_count_error stage stream
      | CountEvents n \<Rightarrow> otel_count_events n stream
      | IngestLag s \<Rightarrow> otel_record_ingest_lag s stream
      | CommitLag s \<Rightarrow> otel_record_commit_lag s stream)"

definition null_metric :: "string \<Rightarrow> metric \<Rightarrow> measurement list \<Rightarrow> measurement list" where
  "null_metric stream mt ms = ms"

subsection \<open>Totals\<close>

text \<open>What a backend makes of a counter: the sum of what was added.\<close>

definition total :: "string \<Rightarrow> measurement list \<Rightarrow> rat" where
  "total name ms = sum_list (map mt_value (filter (\<lambda>m. mt_instrument m = name) ms))"

lemma total_measure:
  "total name (measure name' v a ms) = total name ms + (if name' = name then v else 0)"
  by (simp add: total_def measure_def)

lemmas otel_defs =
  otel_count_events_def otel_count_error_def otel_count_unmapped_event_type_def otel_count_object_written_def
  otel_record_ingest_lag_def otel_record_commit_lag_def otel_record_rate_limit_remaining_def

lemma loop_metric_totals:
  "total ''events_total'' (loop_metric stream mt ms) =
     total ''events_total'' ms + (case mt of CountEvents n \<Rightarrow> of_nat n | _ \<Rightarrow> 0)"
  "total ''errors_total'' (loop_metric stream mt ms) =
     total ''errors_total'' ms + (case mt of CountError _ \<Rightarrow> 1 | _ \<Rightarrow> 0)"
  by (cases mt; simp add: loop_metric_def otel_defs total_measure)+

text \<open>The name of every measurement is that of an instrument that was created.\<close>

definition declared :: "measurement list \<Rightarrow> bool" where
  "declared ms \<longleftrightarrow> mt_instrument ` set ms \<subseteq> fst ` set instruments"

lemma declared_measure: "declared ms \<Longrightarrow> name \<in> fst ` set instruments \<Longrightarrow> declared (measure name v a ms)"
  by (simp add: declared_def measure_def)

lemma measures_declared:
  assumes "declared ms"
  shows "declared (loop_metric stream mt ms)" and "declared (otel_count_unmapped_event_type t ms)"
    and "declared (otel_count_object_written c ms)" and "declared (otel_record_rate_limit_remaining n ms)"
  unfolding loop_metric_def otel_defs
  by (cases mt; simp add: declared_measure [OF assms] instruments_def)
     (simp_all add: declared_measure [OF assms] instruments_def)

subsection \<open>What is not counted\<close>

text \<open>A mapper that raises ends the page with the state in which it raised: no error is counted.\<close>

lemma mapping_error_uncounted:
  assumes "d_fetch d (l_cursor l) w = (Inr page, w1)"
    and "io_map (d_map d) (pg_records page) w1 = (Inl x, w2)"
  shows "page_step d l w = (Inl x, w2)"
  using assms by (simp add: page_step_def take_page_def io_bind_def io_on_error_def)

end
