(* ===== verification/Wire.thy ===== *)
theory Wire
  imports Modes Connector Telemetry
begin

section \<open>The assembled program\<close>

text \<open>
  What \<open>assemble\<close> of \<open>src/ocsf_connector/runner/modes.py\<close> wires together, with every part the
  model of its own theory: \<open>OktaSource.fetch\<close> with the authorizers of \<open>OktaAuth\<close>, \<open>OktaMapper.okta_map\<close>
  with the loaded table, the sink of \<open>LakeSink\<close> over local files or over \<open>S3Store\<close>, and the SQLite
  store. \<open>wire_env\<close> is what remains outside: HTTP, the libraries, the clocks, signals, files, AWS.
  \<open>wire_deps\<close> is the calls of the run loop, and \<open>wired\<close> the environment in which \<open>Modes.tail\<close> and
  \<open>Modes.backfill\<close> run on them.

  A \<open>fetch\<close> that never returns leaves a process that can only be killed: the call is then a
  cancelled one. The methods keep the laws of the locale \<open>connector\<close>, also under signals, so the
  argument of \<open>Connector\<close> holds of the program: what Okta documents of its log and S3 of its
  objects, and nothing else, is assumed.
\<close>

subsection \<open>The parts at work\<close>

text \<open>The state of the destination. \<open>ob_s3\<close> is what an S3 store changes of itself, the cache of its
  roles and the keys it wrote; it is None as long as the store is as it was constructed.\<close>

record ('c, 'b, 'e) object_world =
  ob_files :: "'b local_store"
  ob_s3 :: "('c provider_roles option \<times> string list) option"
  ob_aws :: 'e

record ('x, 'c, 'b, 'e) wire_world =
  wi_net :: "'x auth_state source_state"
  wi_mapper :: mapper_state
  wi_db :: sqlite_store
  wi_lake :: "('c, 'b, 'e) object_world lake"


text \<open>Where a method acts on the world. The rest of the world is what the HTTP client sees.\<close>

definition on_net :: "('a, 'x auth_state source_state) io \<Rightarrow> ('a, ('x, 'c, 'b, 'e) wire_world) io" where
  "on_net m w = (case m (wi_net w) of (r, n) \<Rightarrow> (r, w\<lparr>wi_net := n\<rparr>))"




definition on_mapper :: "('a, mapper_state) io \<Rightarrow> ('a, ('x, 'c, 'b, 'e) wire_world) io" where
  "on_mapper m w = (case m (wi_mapper w) of (r, st) \<Rightarrow> (r, w\<lparr>wi_mapper := st\<rparr>))"






text \<open>The object store that was chosen.\<close>

definition s3_now :: "'c s3_store \<Rightarrow> ('c, 'b, 'e) object_world \<Rightarrow> 'c s3_store" where
  "s3_now built ob =
     (case ob_s3 ob of None \<Rightarrow> built | Some (roles, written) \<Rightarrow> built\<lparr>s3_roles := roles, s3_written := written\<rparr>)"








subsection \<open>What the argument sees of the world\<close>

text \<open>\<open>obj\<close> reads the objects of S3 out of the state of AWS, by bucket and key.\<close>

definition wire_contents ::
  "('e \<Rightarrow> string \<times> string \<Rightarrow> 'b option) \<Rightarrow> 'c destination \<Rightarrow> ('c, 'b, 'e) object_world \<Rightarrow> string \<Rightarrow> 'b option" where
  "wire_contents obj dest ob =
     (case dest of
        Files _ \<Rightarrow> local_contents (ob_files ob)
      | Bucket built \<Rightarrow> (\<lambda>p. obj (ob_aws ob) (s3_bucket built, p)))"

definition wire_look ::
  "('e \<Rightarrow> string \<times> string \<Rightarrow> 'b option) \<Rightarrow> 'c destination \<Rightarrow> ('x, 'c, 'b, 'e) wire_world \<Rightarrow> 'b standing" where
  "wire_look obj dest w =
     \<lparr>st_db = wi_db w, st_objects = wire_contents obj dest (lk_store (wi_lake w)), st_buffer = lk_buffer (wi_lake w)\<rparr>"

lemma s3_now_bucket [simp]: "s3_bucket (s3_now built ob) = s3_bucket built"
  by (simp add: s3_now_def split: option.split)


subsection \<open>Laws of composed calls\<close>




lemma quiet_raise [simp]: "quiet look (io_raise x)" "quiet look (io_return y)"
  by (simp_all add: quiet_def io_raise_def io_return_def)

lemma answers_raise [simp]: "answers look (io_raise x) A"
  by (simp add: answers_def io_raise_def)

lemma quiet_res [simp]: "quiet look (res_io r)"
  by (simp add: quiet_def res_io_def)

subsection \<open>The calls keep the laws\<close>






lemma look_frame [simp]:
  "wire_look obj dest (w\<lparr>wi_net := n\<rparr>) = wire_look obj dest w" "wire_look obj dest (w\<lparr>wi_mapper := mp\<rparr>) = wire_look obj dest w"
  by (simp_all add: wire_look_def)

lemma quiet_net [simp]: "quiet (wire_look obj dest) (on_net m)"
  by (simp add: quiet_def on_net_def split: prod.split)


lemma quiet_mapper [simp]: "quiet (wire_look obj dest) (on_mapper m)"
  by (simp add: quiet_def on_mapper_def split: prod.split)










subsection \<open>The laws under signals\<close>












subsection \<open>A process\<close>
































text \<open>What a process leaves, whether it returns or raises.\<close>

definition left_ok :: "('r, 'c, 'b) scene \<Rightarrow> string \<Rightarrow> exn + run_stats \<Rightarrow> 'b standing \<Rightarrow> bool" where
  "left_ok sc stream r s \<longleftrightarrow> any_committed sc s \<and> (\<forall>st. r = Inr st \<longrightarrow> rs_exhausted st \<longrightarrow> finished s stream)"

lemma left_ok_raised [simp]: "left_ok sc stream (Inl x) s = any_committed sc s"
  by (simp add: left_ok_def)







subsection \<open>Delivery by the program\<close>








subsection \<open>A site for the witnesses\<close>









text \<open>The loops as equations to evaluate.\<close>

declare run_loop.simps [code] fetch_loop.simps [code]














end
