(* ===== verification/Cli.thy ===== *)
theory Cli
  imports Modes
begin

section \<open>The command line\<close>

text \<open>
  \<open>src/ocsf_connector/cli.py\<close>: the summary line, the two progress reporters and \<open>main\<close>, which calls
  the modes of \<open>Modes\<close> and turns how they end into an exit code. \<open>argparse\<close> is a parameter: \<open>arguments\<close>
  is what it returns. The reporters keep variables of their closures; \<open>reporting\<close> is these and the
  world. \<open>stderr\<close>, the monotonic clock, \<open>touch\<close> and \<open>load_config\<close> are the fields of \<open>cli_env\<close>.
\<close>

definition LIVENESS_SECONDS :: seconds where
  "LIVENESS_SECONDS = 300"

definition DEFAULT_CONFIG :: string where
  "DEFAULT_CONFIG = ''config.toml''"

text \<open>\<open>signal.Signals\<close> on Linux, without the real-time signals.\<close>

definition signal_names :: "(int \<times> string) list" where
  "signal_names =
    [(1, ''SIGHUP''), (2, ''SIGINT''), (3, ''SIGQUIT''), (4, ''SIGILL''), (5, ''SIGTRAP''), (6, ''SIGABRT''),
     (7, ''SIGBUS''), (8, ''SIGFPE''), (9, ''SIGKILL''), (10, ''SIGUSR1''), (11, ''SIGSEGV''), (12, ''SIGUSR2''),
     (13, ''SIGPIPE''), (14, ''SIGALRM''), (15, ''SIGTERM''), (16, ''SIGSTKFLT''), (17, ''SIGCHLD''),
     (18, ''SIGCONT''), (19, ''SIGSTOP''), (20, ''SIGTSTP''), (21, ''SIGTTIN''), (22, ''SIGTTOU''),
     (23, ''SIGURG''), (24, ''SIGXCPU''), (25, ''SIGXFSZ''), (26, ''SIGVTALRM''), (27, ''SIGPROF''),
     (28, ''SIGWINCH''), (29, ''SIGIO''), (30, ''SIGPWR''), (31, ''SIGSYS'')]"

definition summarise :: "run_stats \<Rightarrow> exn + string" where
  "summarise st =
     (let parts = [int_str (int (rs_pages st)) @ '' pages'',
                   int_str (int (rs_written st)) @ '' events written'',
                   int_str (int (rs_duplicates_skipped st)) @ '' duplicates skipped'',
                   int_str (int (rs_commits st)) @ '' commits''] @
                  (if rs_exhausted st then [''range complete''] else [])
      in case rs_stopped_by st of
           None \<Rightarrow> Inr (str_join '', '' parts)
         | Some n \<Rightarrow>
             (case map_of signal_names n of
                None \<Rightarrow> Inl (ValueError (int_str n))
              | Some name \<Rightarrow> Inr (str_join '', '' (parts @ [''stopped on '' @ name]))))"

subsection \<open>Progress\<close>

record 'w reporting =
  rp_last :: seconds
  rp_reported :: bool
  rp_world :: 'w

record 'w cli_env =
  ce_monotonic :: "(seconds, 'w) io"
  ce_print :: "string \<Rightarrow> 'w \<Rightarrow> 'w"
  ce_touch :: "string \<Rightarrow> (unit, 'w) io"
  ce_default_exists :: "'w \<Rightarrow> bool"
  ce_not_found :: "exn \<Rightarrow> bool"
  ce_load_config :: "string option \<Rightarrow> (settings, 'w) io"

definition on_reporting :: "('a, 'w) io \<Rightarrow> ('a, 'w reporting) io" where
  "on_reporting m s = (case m (rp_world s) of (r, w) \<Rightarrow> (r, s\<lparr>rp_world := w\<rparr>))"

definition say :: "'w cli_env \<Rightarrow> string \<Rightarrow> (unit, 'w reporting) io" where
  "say ce line = on_reporting (io_modify (ce_print ce line))"

text \<open>The test of \<open>report\<close>: the new \<open>last\<close>, and whether to speak.\<close>

definition liveness_step :: "seconds \<Rightarrow> seconds \<Rightarrow> seconds \<Rightarrow> seconds \<times> bool" where
  "liveness_step every spoken now = (if now - spoken < every then (spoken, False) else (now, True))"

definition liveness_report :: "'w cli_env \<Rightarrow> seconds \<Rightarrow> run_stats \<Rightarrow> (unit, 'w reporting) io" where
  "liveness_report ce every st =
     io_bind (on_reporting (ce_monotonic ce)) (\<lambda>now s.
       (case liveness_step every (rp_last s) now of
          (spoken, speak) \<Rightarrow>
            if speak then io_bind (res_io (summarise st)) (\<lambda>line. say ce (''alive: '' @ line)) (s\<lparr>rp_last := spoken\<rparr>)
            else (Inr (), s)))"

text \<open>\<open>heartbeat\<close>: an \<open>OSError\<close> is swallowed and said once.\<close>

definition heartbeat_touch :: "'w cli_env \<Rightarrow> string \<Rightarrow> run_stats \<Rightarrow> (unit, 'w reporting) io" where
  "heartbeat_touch ce path st = (\<lambda>s.
     case on_reporting (ce_touch ce path) s of
       (Inl (OSErr e), s') \<Rightarrow>
         if rp_reported s' then (Inr (), s')
         else say ce (''health file '' @ path @ '' cannot be written ('' @ e @ '')'') (s'\<lparr>rp_reported := True\<rparr>)
     | (r, s') \<Rightarrow> (r, s'))"

definition report_to :: "(run_stats \<Rightarrow> (unit, 'v) io) list \<Rightarrow> run_stats \<Rightarrow> (unit, 'v) io" where
  "report_to reporters st = io_each (\<lambda>reporter. reporter st) reporters"

text \<open>\<open>warn\<close>; of the message the stream is kept.\<close>

definition warn :: "'w cli_env \<Rightarrow> string \<Rightarrow> seconds \<Rightarrow> (unit, 'w reporting) io" where
  "warn ce stream age = say ce (''warning: '' @ stream)"

subsection \<open>\<open>main\<close>\<close>

datatype command = Tail bool | Backfill string string

record arguments =
  ar_config :: "string option"
  ar_command :: command

definition config_path :: "'w cli_env \<Rightarrow> arguments \<Rightarrow> 'w \<Rightarrow> string option" where
  "config_path ce args w =
     (case ar_config args of
        None \<Rightarrow> if ce_default_exists ce w then Some DEFAULT_CONFIG else None
      | Some path \<Rightarrow> Some path)"

definition settings_source :: "string option \<Rightarrow> string" where
  "settings_source path = (case path of None \<Rightarrow> ''the environment'' | Some p \<Rightarrow> p)"

definition is_value_error :: "exn \<Rightarrow> bool" where
  "is_value_error x = (case x of ValueError _ \<Rightarrow> True | MissingConfig \<Rightarrow> True | _ \<Rightarrow> False)"

definition is_os_error :: "exn \<Rightarrow> bool" where
  "is_os_error x = (case x of OSErr _ \<Rightarrow> True | _ \<Rightarrow> False)"

definition progress_of :: "'w cli_env \<Rightarrow> settings \<Rightarrow> run_stats \<Rightarrow> (unit, 'w reporting) io" where
  "progress_of ce cf =
     (case cf_health_file cf of
        None \<Rightarrow> liveness_report ce LIVENESS_SECONDS
      | Some path \<Rightarrow> report_to [liveness_report ce LIVENESS_SECONDS, heartbeat_touch ce path])"

text \<open>The startup lines, and the mode with its callbacks.\<close>

definition announce :: "'w cli_env \<Rightarrow> settings \<Rightarrow> command \<Rightarrow> (unit, 'w reporting) io" where
  "announce ce cf command =
     (let destination = ok_org_url (cf_okta cf) @ '' -> '' @ describe_sink (cf_sink cf) in
      io_bind (say ce (''state: '' @ st_database (cf_state cf))) (\<lambda>_.
      io_bind (\<lambda>s. case ce_monotonic ce (rp_world s) of
           (Inl x, w) \<Rightarrow> (Inl x, s\<lparr>rp_world := w\<rparr>)
         | (Inr now, w) \<Rightarrow> (Inr (), s\<lparr>rp_last := now, rp_world := w\<rparr>)) (\<lambda>_.
      io_bind (case cf_health_file cf of None \<Rightarrow> io_return () | Some path \<Rightarrow> say ce (''health: '' @ path)) (\<lambda>_.
      say ce (case command of
          Tail _ \<Rightarrow> ''tailing '' @ destination @ '' (Ctrl-C or SIGTERM to stop)''
        | Backfill since until \<Rightarrow> ''backfilling '' @ since @ '' .. '' @ until @ '' '' @ destination)))))"

definition run_mode ::
  "'w cli_env \<Rightarrow> ('t, 'c, 'r, 'w reporting) mode_env \<Rightarrow> settings \<Rightarrow> command \<Rightarrow> 'w reporting \<Rightarrow>
   ((exn + run_stats) \<times> 'w reporting) option" where
  "run_mode ce me cf command =
     (case command of
        Tail from_scratch \<Rightarrow>
          tail (me\<lparr>me_on_progress := Some (progress_of ce cf), me_on_warning := Some (warn ce)\<rparr>) cf from_scratch
      | Backfill since until \<Rightarrow>
          backfill (me\<lparr>me_on_progress := Some (progress_of ce cf), me_on_warning := None\<rparr>) cf since until)"

text \<open>\<open>except\<close> and \<open>return\<close> after the mode; \<open>Inl\<close> is an exception that leaves \<open>main\<close>.\<close>

definition finish :: "'w cli_env \<Rightarrow> string \<Rightarrow> exn + run_stats \<Rightarrow> (int, 'w reporting) io" where
  "finish ce source r =
     (case r of
        Inl MissingConfig \<Rightarrow> io_bind (say ce (''configuration error in '' @ source)) (\<lambda>_. io_return 2)
      | Inl ColdStartRefused \<Rightarrow> io_bind (say ce ''refusing to start'') (\<lambda>_. io_return 2)
      | Inl OpeningBoundRefused \<Rightarrow> io_bind (say ce ''refusing to start'') (\<lambda>_. io_return 2)
      | Inl Cancelled \<Rightarrow> io_bind (say ce ''interrupted'') (\<lambda>_. io_return 130)
      | Inl x \<Rightarrow> io_raise x
      | Inr st \<Rightarrow>
          io_bind (res_io (summarise st)) (\<lambda>line.
          io_bind (say ce line) (\<lambda>_.
          io_return (case rs_stopped_by st of None \<Rightarrow> 0 | Some n \<Rightarrow> 128 + n))))"

definition main ::
  "'w cli_env \<Rightarrow> ('t, 'c, 'r, 'w reporting) mode_env \<Rightarrow> arguments \<Rightarrow> 'w reporting \<Rightarrow> ((exn + int) \<times> 'w reporting) option" where
  "main ce me args s =
     (let path = config_path ce args (rp_world s); source = settings_source path in
      case on_reporting (ce_load_config ce path) s of
        (Inl x, s1) \<Rightarrow>
          if ce_not_found ce x then Some (io_bind (say ce (''no configuration at '' @ source)) (\<lambda>_. io_return 2) s1)
          else if is_os_error x \<or> is_value_error x
          then Some (io_bind (say ce (''configuration error in '' @ source)) (\<lambda>_. io_return 2) s1)
          else Some (Inl x, s1)
      | (Inr cf, s1) \<Rightarrow>
          (case announce ce cf (ar_command args) s1 of
             (Inl x, s2) \<Rightarrow> Some (Inl x, s2)
           | (Inr _, s2) \<Rightarrow>
               (case run_mode ce me cf (ar_command args) s2 of
                  None \<Rightarrow> None
                | Some (r, s3) \<Rightarrow> Some (finish ce source r s3))))"

text \<open>What the shell sees; an exception that leaves \<open>main\<close> ends the interpreter with 1.\<close>

definition exit_code :: "exn + int \<Rightarrow> int" where
  "exit_code r = (case r of Inl _ \<Rightarrow> 1 | Inr n \<Rightarrow> n)"

subsection \<open>How often a run says it is alive\<close>

lemma liveness_report_speaks:
  assumes "on_reporting (ce_monotonic ce) s = (Inr now, s1)" and "summarise st = Inr line"
  shows "liveness_report ce every st s =
    (if now - rp_last s1 < every then (Inr (), s1)
     else (Inr (), s1\<lparr>rp_last := now, rp_world := ce_print ce (''alive: '' @ line) (rp_world s1)\<rparr>))"
  using assms
  by (simp add: liveness_report_def liveness_step_def io_bind_def res_io_def say_def on_reporting_def io_modify_def)

text \<open>The times of the lines, from the times at which pages are completed.\<close>

fun alive_times :: "seconds \<Rightarrow> seconds \<Rightarrow> seconds list \<Rightarrow> seconds list" where
  "alive_times every spoken [] = []"
| "alive_times every spoken (t # ts) =
     (case liveness_step every spoken t of
        (spoken', speak) \<Rightarrow> (if speak then [t] else []) @ alive_times every spoken' ts)"

lemma alive_times_cons:
  "alive_times every spoken (t # ts) =
     (if t - spoken < every then alive_times every spoken ts else t # alive_times every t ts)"
  by (simp add: liveness_step_def)

text \<open>C38: The \<open>alive\<close> lines are neither too many nor too few. Two of them are at least the interval
  apart, the first as far from the start, and whenever a page is completed there was a line, or the
  start, less than an interval before or at it: silence for longer means no page was completed.\<close>

theorem alive_lines_spaced:
  assumes "sorted (start # ts)" and "0 < every"
  shows "successively (\<lambda>a b. every \<le> b - a) (start # alive_times every start ts) \<and>
    (\<forall>t \<in> set ts. \<exists>l \<in> set (start # alive_times every start ts). l \<le> t \<and> t - l < every)"
  using assms(1)
proof (induction ts arbitrary: start)
  case Nil
  then show ?case by simp
next
  case (Cons t ts)
  show ?case
  proof (cases "t - start < every")
    case True
    from Cons.prems have "sorted (start # ts)" by simp
    with Cons.IH [of start] True Cons.prems show ?thesis
      unfolding alive_times_cons by auto
  next
    case False
    from Cons.prems have "sorted (t # ts)" by simp
    with Cons.IH [of t] False assms(2) show ?thesis
      unfolding alive_times_cons by (auto simp: not_less)
  qed
qed

theorem alive_lines_spaced_witness:
  "alive_times LIVENESS_SECONDS 0 [100, 250, 310, 500, 650] = [310, 650] \<and>
   (\<exists>l \<in> {0, 310, 650 :: seconds}. l \<le> 500 \<and> 500 - l < 300)"
proof -
  have times: "alive_times 300 0 [100, 250, 310, 500, 650] = [310, 650]" by (simp add: liveness_step_def)
  have "\<forall>t \<in> set [100, 250, 310, 500, 650]. \<exists>l \<in> set (0 # alive_times 300 0 [100, 250, 310, 500, 650]).
      l \<le> t \<and> t - l < (300 :: seconds)"
    using alive_lines_spaced [of 0 "[100, 250, 310, 500, 650]" 300] by simp
  with times show ?thesis by (auto simp: LIVENESS_SECONDS_def)
qed

text \<open>A tail that completes a page every ten seconds speaks every five minutes, twelve times an hour.\<close>

primrec ten_second_pages :: "nat \<Rightarrow> seconds \<Rightarrow> seconds list" where
  "ten_second_pages 0 t = []"
| "ten_second_pages (Suc n) t = map (\<lambda>i. t + 10 * of_nat i) [1..<31] @ ten_second_pages n (t + 300)"

lemma alive_times_append:
  "alive_times every spoken (ts @ us) =
     alive_times every spoken ts @ alive_times every (foldl (\<lambda>_ t. t) spoken (alive_times every spoken ts)) us"
  by (induction ts arbitrary: spoken) (simp_all only: append_Cons alive_times_cons, simp_all)

lemma alive_five_minutes:
  "alive_times LIVENESS_SECONDS t (ten_second_pages n t) = map (\<lambda>k. t + 300 * of_nat (Suc k)) [0..<n]"
proof (induction n arbitrary: t)
  case (Suc n)
  have window: "alive_times 300 t (map (\<lambda>i. t + 10 * of_nat i) [1..<31]) = [t + 300]"
    by (simp add: upt_rec liveness_step_def)
  have "alive_times 300 t (ten_second_pages (Suc n) t) =
      (t + 300) # alive_times 300 (t + 300) (ten_second_pages n (t + 300))"
    by (simp only: ten_second_pages.simps alive_times_append window) simp
  also have "\<dots> = (t + 300) # map (\<lambda>k. t + 300 + 300 * of_nat (Suc k)) [0..<n]"
    using Suc [of "t + 300"] by (simp only: LIVENESS_SECONDS_def)
  also have "\<dots> = map (\<lambda>k. t + 300 * of_nat (Suc k)) [0..<Suc n]"
    by (simp only: upt_conv_Cons zero_less_Suc map_Suc_upt [symmetric]) (simp add: algebra_simps)
  finally show ?case by (simp only: LIVENESS_SECONDS_def)
qed simp

subsection \<open>Exit codes\<close>

text \<open>The mode was run, and this is how it ended.\<close>

definition mode_ended ::
  "'w cli_env \<Rightarrow> ('t, 'c, 'r, 'w reporting) mode_env \<Rightarrow> arguments \<Rightarrow> 'w reporting \<Rightarrow> exn + run_stats \<Rightarrow> bool" where
  "mode_ended ce me args s r \<longleftrightarrow>
     (\<exists>cf s1 s2 s3. on_reporting (ce_load_config ce (config_path ce args (rp_world s))) s = (Inr cf, s1) \<and>
        announce ce cf (ar_command args) s1 = (Inr (), s2) \<and>
        run_mode ce me cf (ar_command args) s2 = Some (r, s3))"

lemma run_mode_ended:
  assumes "signals_in S me" and "run_mode ce me cf command s = Some (Inr st, s')"
  shows "ended_by S st"
proof -
  have "signals_in S (me\<lparr>me_on_progress := a, me_on_warning := b\<rparr>)" for a b
    using assms(1) by (simp add: signals_in_def)
  with assms(2) show ?thesis
    by (auto simp: run_mode_def split: command.splits intro: tail_ended backfill_ended)
qed

lemma say_code: "io_bind (say ce line) (\<lambda>_. io_return n) s = (Inr m, s') \<Longrightarrow> m = n"
  by (auto simp: say_def on_reporting_def io_modify_def io_bind_def io_return_def)

text \<open>The exceptions by which a mode refuses to run.\<close>

definition refusals :: "exn set" where
  "refusals = {MissingConfig, ColdStartRefused, OpeningBoundRefused}"

lemma finish_code:
  assumes "finish ce source r s = (Inr code, s')"
  shows "case r of
      Inl x \<Rightarrow> x \<in> refusals \<and> code = 2 \<or> x = Cancelled \<and> code = 130
    | Inr st \<Rightarrow> code = (case rs_stopped_by st of None \<Rightarrow> 0 | Some n \<Rightarrow> 128 + n)"
proof (cases r)
  case (Inl x)
  with assms show ?thesis
    by (cases x) (auto simp: finish_def refusals_def io_raise_def dest: say_code)
next
  case (Inr st)
  with assms obtain line s1 where "io_bind (say ce line) (\<lambda>_. io_return
      (case rs_stopped_by st of None \<Rightarrow> 0 | Some n \<Rightarrow> 128 + n)) s1 = (Inr code, s')"
    by (auto simp: finish_def io_bind_Inr_iff)
  with Inr show ?thesis by (auto dest: say_code)
qed

text \<open>C37: What a supervisor may read from an exit code. When \<open>main\<close> returns, the code is 0 only when
  the range was exhausted, 2 only when nothing was run, for want of a configuration or because the
  mode refused, and otherwise it is 130 or 143: the run was stopped by SIGINT or by SIGTERM, or, with
  130, cancelled. A code of 0 never hides a run that was stopped.\<close>

theorem exit_codes:
  assumes "signals_in {2, 15} me" and "main ce me args s = Some (Inr code, s')"
  shows "code = 0 \<and> (\<exists>st. mode_ended ce me args s (Inr st) \<and> rs_exhausted st \<and> rs_stopped_by st = None) \<or>
    code = 2 \<and> ((\<nexists>r. mode_ended ce me args s r) \<or> (\<exists>x \<in> refusals. mode_ended ce me args s (Inl x))) \<or>
    code = 130 \<and> (mode_ended ce me args s (Inl Cancelled) \<or>
      (\<exists>st. mode_ended ce me args s (Inr st) \<and> rs_stopped_by st = Some 2)) \<or>
    code = 143 \<and> (\<exists>st. mode_ended ce me args s (Inr st) \<and> rs_stopped_by st = Some 15)"
proof -
  let ?path = "config_path ce args (rp_world s)"
  obtain q s1 where load: "on_reporting (ce_load_config ce ?path) s = (q, s1)"
    by (cases "on_reporting (ce_load_config ce ?path) s")
  show ?thesis
  proof (cases q)
    case (Inl x)
    have "\<not> mode_ended ce me args s r" for r using load Inl by (simp add: mode_ended_def)
    moreover have "code = 2"
      using assms(2) load Inl by (auto simp: main_def Let_def dest: say_code split: if_splits)
    ultimately show ?thesis by blast
  next
    case (Inr cf)
    with assms(2) load obtain s2 r s3 where announced: "announce ce cf (ar_command args) s1 = (Inr (), s2)"
      and ran: "run_mode ce me cf (ar_command args) s2 = Some (r, s3)"
      and fin: "finish ce (settings_source ?path) r s3 = (Inr code, s')"
      by (auto simp: main_def Let_def split: prod.splits sum.splits option.splits)
    have ended: "mode_ended ce me args s r"
      using load Inr announced ran by (auto simp: mode_ended_def)
    show ?thesis
    proof (cases r)
      case (Inl x)
      with finish_code [OF fin] ended show ?thesis by auto
    next
      case (Inr st)
      with run_mode_ended [OF assms(1)] ran have "ended_by {2, 15} st" by blast
      with finish_code [OF fin] Inr ended show ?thesis by (auto simp: ended_by_def split: option.splits)
    qed
  qed
qed

text \<open>A process that gets SIGTERM while the stored cursor is read. The world is the lines of \<open>stderr\<close>.\<close>

definition term_deps :: "(ocsf_event, string list reporting) deps" where
  "term_deps =
     \<lparr>d_get_cursor = io_return (Some ''c7''), d_start = io_raise Cancelled,
      d_clock = io_return 100, d_stop_signal = None, d_fetch = (\<lambda>c. io_raise TransportErr), d_map = io_return,
      d_filter_unseen = io_return, d_record_published = (\<lambda>_. io_return ()), d_write = (\<lambda>_. io_return ()),
      d_should_flush = io_return False, d_flush = (\<lambda>_. io_return ()), d_commit = (\<lambda>_ _. io_return ()),
      d_mark_caught_up = io_return (), d_purge_expired = io_return (), d_on_progress = None, d_on_idle = None,
      d_metric = (\<lambda>_ w. w), d_max_pages = None, d_purge_every = 3600, d_caught_up_every = 3600\<rparr>"

definition term_mode :: "(seconds, unit, ocsf_event, string list reporting) mode_env" where
  "term_mode =
     \<lparr>me_datetimes = \<lparr>dt_fromisoformat = (\<lambda>s. Some 0), dt_aware = (\<lambda>_. True), dt_as_utc = id, dt_timestamp = id\<rparr>,
      me_read_text = (\<lambda>w path. Inr ''pem''),
      me_auth = \<lparr>ae_post = (\<lambda>url form h. io_raise TransportErr), ae_clock = io_return 100, ae_proof_clock = io_return 100,
        ae_jwt = (\<lambda>p k a h. io_return []), ae_uuid = io_return [], ae_token_urlsafe = io_return [],
        ae_sha256 = id, ae_float = (\<lambda>s. None), ae_export_jwk = (\<lambda>pem rsa. Inr [])\<rparr>,
      me_s3_client = (\<lambda>_. ()), me_mkdir = (\<lambda>_. io_return ()), me_open_store = (\<lambda>_ _. io_return ()),
      me_table = JObj [(''fallback'', row_value (0, 0))],
      me_wire = (\<lambda>pt. \<lparr>am_source = pt_source pt, am_deps = (\<lambda>_. term_deps),
        am_caught_up_age = (\<lambda>_. io_return None), am_close = io_return ()\<rparr>),
      me_clock = io_return 100, me_add_handler = (\<lambda>_. io_return ()), me_remove_handler = (\<lambda>_ w. w),
      me_signals = (\<lambda>w. ([15], w)), me_idle = (\<lambda>_ w. ([], w)), me_on_progress = None, me_on_warning = None\<rparr>"

definition term_cli :: "string list cli_env" where
  "term_cli = \<lparr>ce_monotonic = io_return 0, ce_print = (\<lambda>line ls. ls @ [line]), ce_touch = (\<lambda>_. io_return ()),
     ce_default_exists = (\<lambda>_. False), ce_not_found = (\<lambda>_. False), ce_load_config = (\<lambda>_. io_return sample_settings)\<rparr>"

definition tail_arguments :: arguments where
  "tail_arguments = \<lparr>ar_config = None, ar_command = Tail False\<rparr>"

lemma stop_summary:
  "summarise \<lparr>rs_pages = 0, rs_mapped = 0, rs_written = 0, rs_duplicates_skipped = 0, rs_commits = 0,
     rs_exhausted = False, rs_stopped_by = Some 15\<rparr> =
   Inr ''0 pages, 0 events written, 0 duplicates skipped, 0 commits, stopped on SIGTERM''"
  by code_simp

lemma main_sample:
  "main term_cli term_mode tail_arguments \<lparr>rp_last = 0, rp_reported = False, rp_world = []\<rparr> =
   Some (Inr 143, \<lparr>rp_last = 0, rp_reported = False, rp_world =
     [''state: /s/db'', ''tailing https://o -> out (Ctrl-C or SIGTERM to stop)'',
      ''0 pages, 0 events written, 0 duplicates skipped, 0 commits, stopped on SIGTERM'']\<rparr>)"
proof -
  let ?me = "term_mode\<lparr>me_on_progress := Some (progress_of term_cli sample_settings), me_on_warning := Some (warn term_cli)\<rparr>"
  let ?am = "\<lparr>am_source = \<lparr>os_org_url = ''https://o'', os_limit = 9, os_rate_limit_reserve = 5, os_max_attempts = 5,
        os_max_jitter_seconds = 2\<rparr>, am_deps = (\<lambda>_. term_deps),
        am_caught_up_age = (\<lambda>_. io_return None), am_close = io_return ()\<rparr>"
  let ?st = "\<lparr>rs_pages = 0, rs_mapped = 0, rs_written = 0, rs_duplicates_skipped = 0, rs_commits = 0,
     rs_exhausted = False, rs_stopped_by = Some 15\<rparr>"
  have assembled: "assemble ?me sample_settings s = (Inr ?am, s)" for s
    by (simp add: assemble_def term_mode_def sample_settings_def sample_table client_key_def proof_key_def
        new_credentials_def SUPPORTED_ALGORITHMS_def objects_for_def parent_directory_def
        new_source_def MAX_LIMIT_def io_bind_def res_io_def io_return_def starts_with_def
        rstrip_slash_def Let_def)
  have guard: "tail_guard ?me ?am stream since False s = (Inr (), s)" for stream since s
    by (simp add: tail_guard_def term_deps_def io_bind_def io_return_def warn_of_gap_def)
  have ran: "run_under_signals ?me term_deps cursor idle s = Some (Inr ?st, s)" for cursor idle s
    by (simp add: run_under_signals_def stop_on_signals_def STOP_SIGNALS_def remove_all_def term_mode_def term_deps_def
        sample_run_simps run_loop.simps)
  have mode: "run_mode term_cli term_mode sample_settings (Tail False) s = Some (Inr ?st, s)" for s
    using assembled guard ran
    by (simp add: run_mode_def tail_def sample_settings_def closing_def io_return_def)
  have fin: "finish term_cli source (Inr ?st) s = (Inr 143, s\<lparr>rp_world := rp_world s @
      [''0 pages, 0 events written, 0 duplicates skipped, 0 commits, stopped on SIGTERM'']\<rparr>)" for source s
    by (simp add: finish_def stop_summary io_bind_def res_io_def say_def on_reporting_def io_modify_def
        term_cli_def io_return_def)
  have ann: "announce term_cli sample_settings (Tail False) \<lparr>rp_last = 0, rp_reported = False, rp_world = []\<rparr> =
      (Inr (), \<lparr>rp_last = 0, rp_reported = False, rp_world =
        [''state: /s/db'', ''tailing https://o -> out (Ctrl-C or SIGTERM to stop)'']\<rparr>)"
    by (simp add: announce_def sample_settings_def describe_sink_def io_bind_def say_def on_reporting_def
        io_modify_def term_cli_def io_return_def Let_def)
  have "on_reporting (ce_load_config term_cli p) s = (Inr sample_settings, s)" for p s
    by (simp add: on_reporting_def term_cli_def io_return_def)
  with mode fin ann show ?thesis by (simp add: main_def tail_arguments_def Let_def)
qed

theorem exit_codes_witness:
  "\<exists>st. mode_ended term_cli term_mode tail_arguments \<lparr>rp_last = 0, rp_reported = False, rp_world = []\<rparr> (Inr st) \<and>
     rs_stopped_by st = Some 15"
proof -
  have "signals_in {2, 15} term_mode" by (simp add: signals_in_def term_mode_def)
  from exit_codes [OF this main_sample] show ?thesis by auto
qed

end
