(* ===== verification/Reconcile.thy ===== *)
theory Reconcile
  imports Settings OktaSource Calendar
begin

section \<open>Reconciling a window\<close>



subsection \<open>The judgement\<close>

record found_row =
  lr_uid :: string
  lr_time_ms :: int
  lr_source :: string

record result =
  rt_okta_events :: nat
  rt_okta_unique :: nat
  rt_lake_rows :: nat
  rt_missing :: "string list"
  rt_extra :: "string list"
  rt_duplicated :: "string list"
  rt_cross_class :: "string list"
  rt_blank_uids :: nat

definition clean :: "result \<Rightarrow> bool" where
  "clean r \<longleftrightarrow> \<not> (rt_missing r \<noteq> [] \<or> rt_extra r \<noteq> [] \<or> rt_duplicated r \<noteq> [] \<or> rt_cross_class r \<noteq> [] \<or>
     rt_blank_uids r \<noteq> 0)"

text \<open>\<open>Counter\<close>, and \<open>sorted\<close> of a set that is the elements of a list.\<close>

definition counter :: "'a list \<Rightarrow> ('a \<times> nat) list" where
  "counter xs = map (\<lambda>x. (x, count_list xs x)) (uniq xs)"

definition sorted_uids :: "string list \<Rightarrow> string list" where
  "sorted_uids us = sort (remdups us)"

definition compare :: "string list \<Rightarrow> found_row list \<Rightarrow> int \<Rightarrow> int \<Rightarrow> result" where
  "compare okta_uids lake since_ms until_ms =
     (let okta = set okta_uids;
          padded = set (map lr_uid lake);
          strict = map lr_uid (filter (\<lambda>row. since_ms \<le> lr_time_ms row \<and> lr_time_ms row < until_ms) lake);
          per_table = counter (map (\<lambda>row. (lr_uid row, lr_source row)) lake);
          tables_per_uid = map (\<lambda>uid. (uid, set (map lr_source (filter (\<lambda>row. lr_uid row = uid) lake))))
            (uniq (map lr_uid lake))
      in \<lparr>rt_okta_events = length okta_uids,
          rt_okta_unique = card okta,
          rt_lake_rows = length lake,
          rt_missing = sorted_uids (filter (\<lambda>u. u \<notin> padded) okta_uids),
          rt_extra = sorted_uids (filter (\<lambda>u. u \<notin> okta) strict),
          rt_duplicated = sorted_uids (map (fst \<circ> fst) (filter (\<lambda>(pair, n). 1 < n) per_table)),
          rt_cross_class = sort (map fst (filter (\<lambda>(uid, tables). 1 < card tables) tables_per_uid)),
          rt_blank_uids = length (filter (\<lambda>row. lr_uid row = []) lake)\<rparr>)"


subsection \<open>Calls that may not return\<close>






subsection \<open>The environment\<close>



subsection \<open>Okta's side\<close>






subsection \<open>Table ARNs and databases\<close>

text \<open>\<open>s.split(c, n)\<close>.\<close>

fun split_at_most :: "nat \<Rightarrow> char \<Rightarrow> string \<Rightarrow> string list" where
  "split_at_most 0 sep s = [s]"
| "split_at_most (Suc n) sep s =
     (case partition_at sep s of (before, found, after) \<Rightarrow>
        if found then before # split_at_most n sep after else [s])"

definition parse_table_arn :: "string \<Rightarrow> exn + string \<times> string option \<times> string" where
  "parse_table_arn arn =
     (let parts = split_at_most 5 (CHR '':'') arn in
      if length parts \<noteq> 6 \<or> parts ! 2 \<noteq> ''glue'' \<or> \<not> starts_with (parts ! 5) ''table/''
      then Inl (ValueError ''not a Glue table ARN'')
      else (case tl (split_on (CHR ''/'') (parts ! 5)) of
              [database, table] \<Rightarrow> Inr (parts ! 3, Some database, table)
            | [table] \<Rightarrow> if table \<noteq> [] then Inr (parts ! 3, None, table)
                else Inl (ValueError ''not a Glue table ARN'')
            | _ \<Rightarrow> Inl (ValueError ''not a Glue table ARN'')))"



subsection \<open>Athena\<close>











subsection \<open>The run\<close>







subsection \<open>What a comparison says\<close>

lemma set_counter: "set (counter xs) = (\<lambda>x. (x, count_list xs x)) ` set xs"
  by (simp add: counter_def)

lemma set_sorted_uids [simp]: "set (sorted_uids us) = set us"
  by (simp add: sorted_uids_def)

lemma sorted_uids_Nil [simp]: "sorted_uids us = [] \<longleftrightarrow> us = []"
  by (metis set_empty set_sorted_uids)

lemma sort_Nil [simp]: "sort us = [] \<longleftrightarrow> us = []"
  by (metis set_empty set_sort)

lemma sorted_distinct_uids: "sorted (sorted_uids us) \<and> distinct (sorted_uids us)"
  by (simp add: sorted_uids_def)

lemma distinct_count: "distinct xs \<longleftrightarrow> (\<forall>x \<in> set xs. count_list xs x \<le> 1)"
proof (induction xs)
  case (Cons y ys)
  have "count_list ys y = 0 \<longleftrightarrow> y \<notin> set ys" by (simp add: count_list_0_iff)
  moreover have "count_list ys x \<le> count_list (y # ys) x" for x by simp
  ultimately show ?case using Cons by (auto intro: le_trans)
qed simp

lemma distinct_count_all: "distinct xs \<longleftrightarrow> (\<forall>x. count_list xs x \<le> 1)"
proof -
  have "count_list xs x \<le> 1" if "\<forall>x \<in> set xs. count_list xs x \<le> 1" for x
    using that by (cases "x \<in> set xs") (simp_all add: count_list_0_iff [THEN iffD2])
  then show ?thesis unfolding distinct_count by blast
qed

lemma one_source:
  assumes "x \<in> A" "finite A"
  shows "\<not> 1 < card A \<longleftrightarrow> (\<forall>y \<in> A. y = x)"
proof -
  have "\<not> 1 < card A \<longleftrightarrow> (\<forall>y \<in> A. \<forall>z \<in> A. y = z)"
    unfolding not_less One_nat_def by (rule card_le_Suc0_iff_eq [OF assms(2)])
  moreover have "(\<forall>y \<in> A. \<forall>z \<in> A. y = z) \<longleftrightarrow> (\<forall>y \<in> A. y = x)"
  proof (intro iffI ballI)
    fix y z assume "\<forall>y \<in> A. y = x" "y \<in> A" "z \<in> A"
    then have "y = x" "z = x" by blast+
    then show "y = z" by simp
  qed (use assms(1) in blast)
  ultimately show ?thesis by simp
qed

text \<open>The sources an id has rows in.\<close>

definition sources_of :: "found_row list \<Rightarrow> string \<Rightarrow> string set" where
  "sources_of lake uid = {lr_source row |row. row \<in> set lake \<and> lr_uid row = uid}"

lemma sources_of_filter: "set (map lr_source (filter (\<lambda>row. lr_uid row = uid) lake)) = sources_of lake uid"
  by (auto simp: sources_of_def)

abbreviation row_key :: "found_row \<Rightarrow> string \<times> string" where
  "row_key row \<equiv> (lr_uid row, lr_source row)"

lemma sources_key: "source \<in> sources_of lake uid \<longleftrightarrow> (uid, source) \<in> set (map row_key lake)"
  by (force simp: sources_of_def)

lemma compare_fields:
  "rt_missing (compare okta lake a b) = sorted_uids (filter (\<lambda>u. u \<notin> set (map lr_uid lake)) okta)"
  "rt_extra (compare okta lake a b) = sorted_uids (filter (\<lambda>u. u \<notin> set okta)
     (map lr_uid (filter (\<lambda>row. a \<le> lr_time_ms row \<and> lr_time_ms row < b) lake)))"
  "rt_duplicated (compare okta lake a b) =
     sorted_uids (map (fst \<circ> fst) (filter (\<lambda>(pair, n). 1 < n) (counter (map row_key lake))))"
  "rt_cross_class (compare okta lake a b) =
     sort (map fst (filter (\<lambda>(uid, tables). 1 < card tables)
       (map (\<lambda>uid. (uid, sources_of lake uid)) (uniq (map lr_uid lake)))))"
  "rt_blank_uids (compare okta lake a b) = length (filter (\<lambda>row. lr_uid row = []) lake)"
  by (simp_all only: compare_def Let_def sources_of_filter result.select_convs)

lemma missing_members: "set (rt_missing (compare okta lake a b)) = set okta - lr_uid ` set lake"
  unfolding compare_fields set_sorted_uids by auto

lemma extra_members:
  "set (rt_extra (compare okta lake a b)) =
     {lr_uid row |row. row \<in> set lake \<and> a \<le> lr_time_ms row \<and> lr_time_ms row < b} - set okta"
  unfolding compare_fields set_sorted_uids by auto

lemma duplicated_members:
  "set (rt_duplicated (compare okta lake a b)) = {uid. \<exists>source. 1 < count_list (map row_key lake) (uid, source)}"
proof -
  have member: "x \<in> set xs" if "1 < count_list xs x" for x :: "string \<times> string" and xs
    using that count_list_0_iff [of xs x] by (cases "x \<in> set xs") simp_all
  have "set (filter (\<lambda>(pair, n). 1 < n) (counter xs)) = (\<lambda>x. (x, count_list xs x)) ` {x. 1 < count_list xs x}"
    for xs :: "(string \<times> string) list"
    using member [of xs] by (auto simp: set_counter)
  then show ?thesis unfolding compare_fields set_sorted_uids set_map by (simp add: image_image) force
qed

lemma cross_class_members: "set (rt_cross_class (compare okta lake a b)) = {uid. 1 < card (sources_of lake uid)}"
proof -
  have "uid \<in> lr_uid ` set lake" if several: "1 < card (sources_of lake uid)" for uid
  proof (rule ccontr)
    assume "uid \<notin> lr_uid ` set lake"
    then have "sources_of lake uid = {}" by (auto simp: sources_of_def)
    with several show False by simp
  qed
  then show ?thesis unfolding compare_fields set_sort set_map set_filter set_uniq by force
qed

lemma blank_count: "rt_blank_uids (compare okta lake a b) = count_list (map lr_uid lake) []"
  unfolding compare_fields by (induction lake) auto

lemmas compare_members =
  missing_members extra_members duplicated_members cross_class_members blank_count

lemma uids_distinct:
  "distinct (map lr_uid lake) \<longleftrightarrow>
     (\<forall>uid source. count_list (map row_key lake) (uid, source) \<le> 1) \<and> (\<forall>uid. \<not> 1 < card (sources_of lake uid))"
proof -
  have pairs: "(\<forall>uid source. count_list (map row_key lake) (uid, source) \<le> 1) \<longleftrightarrow> distinct (map row_key lake)"
    unfolding distinct_count_all by simp
  have finite: "finite (sources_of lake uid)" for uid
    unfolding sources_of_filter [symmetric] by simp
  have "inj_on fst (set (map row_key lake)) \<longleftrightarrow>
      (\<forall>uid. \<forall>s \<in> sources_of lake uid. \<forall>s' \<in> sources_of lake uid. s' = s)"
  proof (intro iffI allI ballI)
    fix uid s s'
    assume inj: "inj_on fst (set (map row_key lake))"
      and "s \<in> sources_of lake uid" "s' \<in> sources_of lake uid"
    then have "(uid, s) \<in> set (map row_key lake)" "(uid, s') \<in> set (map row_key lake)"
      by (simp_all only: sources_key)
    from inj_onD [OF inj _ this] show "s' = s" by simp
  next
    assume one: "\<forall>uid. \<forall>s \<in> sources_of lake uid. \<forall>s' \<in> sources_of lake uid. s' = s"
    show "inj_on fst (set (map row_key lake))"
    proof (rule inj_onI)
      fix x y
      assume keys: "x \<in> set (map row_key lake)" "y \<in> set (map row_key lake)" and same: "fst x = fst y"
      have "snd x \<in> sources_of lake (fst x)" unfolding sources_key prod.collapse by (rule keys(1))
      moreover have "snd y \<in> sources_of lake (fst x)" unfolding same sources_key prod.collapse by (rule keys(2))
      ultimately have "snd y = snd x" using one by blast
      with same show "x = y" by (simp add: prod_eq_iff)
    qed
  qed
  also have "\<dots> \<longleftrightarrow> (\<forall>uid. \<not> 1 < card (sources_of lake uid))"
  proof (intro iff_allI)
    fix uid
    show "(\<forall>s \<in> sources_of lake uid. \<forall>s' \<in> sources_of lake uid. s' = s) = (\<not> 1 < card (sources_of lake uid))"
      using one_source [OF _ finite, of _ uid] by (cases "sources_of lake uid = {}") auto
  qed
  finally have sources: "inj_on fst (set (map row_key lake)) \<longleftrightarrow> (\<forall>uid. \<not> 1 < card (sources_of lake uid))" .
  have "map lr_uid lake = map fst (map row_key lake)" by simp
  then have "distinct (map lr_uid lake) \<longleftrightarrow> distinct (map row_key lake) \<and> inj_on fst (set (map row_key lake))"
    by (simp only: distinct_map)
  with pairs sources show ?thesis by blast
qed

lemma compare_clean:
  "clean (compare okta lake a b) \<longleftrightarrow>
     distinct (map lr_uid lake) \<and> set okta \<subseteq> lr_uid ` set lake \<and> [] \<notin> lr_uid ` set lake \<and>
     {lr_uid row |row. row \<in> set lake \<and> a \<le> lr_time_ms row \<and> lr_time_ms row < b} \<subseteq> set okta"
proof -
  let ?r = "compare okta lake a b"
  have empty: "xs = [] \<longleftrightarrow> set xs = {}" for xs :: "string list" by simp
  have missing: "rt_missing ?r = [] \<longleftrightarrow> set okta \<subseteq> lr_uid ` set lake"
    unfolding empty [of "rt_missing ?r"] missing_members by blast
  have extra: "rt_extra ?r = [] \<longleftrightarrow>
      {lr_uid row |row. row \<in> set lake \<and> a \<le> lr_time_ms row \<and> lr_time_ms row < b} \<subseteq> set okta"
    unfolding empty [of "rt_extra ?r"] extra_members by blast
  have duplicated: "rt_duplicated ?r = [] \<longleftrightarrow> (\<forall>uid source. count_list (map row_key lake) (uid, source) \<le> 1)"
    unfolding empty [of "rt_duplicated ?r"] duplicated_members not_less [symmetric] by blast
  have cross: "rt_cross_class ?r = [] \<longleftrightarrow> (\<forall>uid. \<not> 1 < card (sources_of lake uid))"
    unfolding empty [of "rt_cross_class ?r"] cross_class_members by blast
  have blank: "rt_blank_uids ?r = 0 \<longleftrightarrow> [] \<notin> lr_uid ` set lake"
    unfolding blank_count count_list_0_iff by simp
  show ?thesis unfolding clean_def uids_distinct
    by (simp only: missing extra duplicated cross blank de_Morgan_disj not_not conj_ac)
qed

text \<open>C39: The four lists of a comparison and its verdict. An id is missing if Okta has it and no row of
  the padded read does; extra if a row inside the strict window has it and Okta does not; duplicated
  if two rows of one table have it; cross-class if two tables do. The verdict is clean just if every
  id of Okta is on exactly one row, no id is on two, none is blank, and the window has nothing Okta
  lacks: padding neither hides an extra nor makes one.\<close>

theorem comparison_judges:
  "set (rt_missing (compare okta lake a b)) = set okta - lr_uid ` set lake \<and>
   set (rt_extra (compare okta lake a b)) =
     {lr_uid row |row. row \<in> set lake \<and> a \<le> lr_time_ms row \<and> lr_time_ms row < b} - set okta \<and>
   set (rt_duplicated (compare okta lake a b)) =
     {uid. \<exists>source. 1 < count_list (map (\<lambda>row. (lr_uid row, lr_source row)) lake) (uid, source)} \<and>
   set (rt_cross_class (compare okta lake a b)) =
     {uid. 1 < card {lr_source row |row. row \<in> set lake \<and> lr_uid row = uid}} \<and>
   clean (compare okta lake a b) =
     ((\<forall>uid. count_list (map lr_uid lake) uid \<le> 1) \<and> set okta \<subseteq> lr_uid ` set lake \<and> [] \<notin> lr_uid ` set lake \<and>
      {lr_uid row |row. row \<in> set lake \<and> a \<le> lr_time_ms row \<and> lr_time_ms row < b} \<subseteq> set okta)"
proof -
  have "distinct (map lr_uid lake) \<longleftrightarrow> (\<forall>uid. count_list (map lr_uid lake) uid \<le> 1)"
    by (rule distinct_count_all)
  then show ?thesis
    using compare_members [of okta lake a b] compare_clean [of okta lake a b] unfolding sources_of_def by blast
qed

subsection \<open>Table ARNs\<close>

definition table_arn :: "string \<Rightarrow> string \<Rightarrow> string option \<Rightarrow> string \<Rightarrow> string" where
  "table_arn region account database table =
     str_join '':'' [''arn'', ''aws'', ''glue'', region, account,
       ''table/'' @ (case database of None \<Rightarrow> [] | Some d \<Rightarrow> d @ ''/'') @ table]"

lemma partition_sep: "sep \<notin> set a \<Longrightarrow> partition_at sep (a @ sep # b) = (a, True, b)"
proof -
  assume "sep \<notin> set a"
  then have "takeWhile (\<lambda>c. c \<noteq> sep) a = a" by (auto simp: takeWhile_eq_all_conv)
  with \<open>sep \<notin> set a\<close> show ?thesis by (simp add: partition_at_def takeWhile_tail)
qed

text \<open>Both forms of a table ARN are read back: Glue's own, with the database, and the one Security
  Lake reports, without. The region and the account hold no colon, the names no slash; colons in the
  names do no harm.\<close>

theorem table_arn_roundtrip:
  assumes "CHR '':'' \<notin> set region" "CHR '':'' \<notin> set account" "CHR ''/'' \<notin> set table" "table \<noteq> []"
    and "case database of None \<Rightarrow> True | Some d \<Rightarrow> CHR ''/'' \<notin> set d"
  shows "parse_table_arn (table_arn region account database table) = Inr (region, database, table)"
proof -
  let ?last = "''table/'' @ (case database of None \<Rightarrow> [] | Some d \<Rightarrow> d @ ''/'') @ table"
  have "split_at_most 5 (CHR '':'') (table_arn region account database table) =
      [''arn'', ''aws'', ''glue'', region, account, ?last]"
    using partition_sep [of "CHR '':''" "''arn''"] partition_sep [of "CHR '':''" "''aws''"]
      partition_sep [of "CHR '':''" "''glue''"] partition_sep [OF assms(1)] partition_sep [OF assms(2)]
    by (simp add: table_arn_def numeral_eq_Suc)
  moreover have "split_on (CHR ''/'') ?last =
      ''table'' # (case database of None \<Rightarrow> [table] | Some d \<Rightarrow> [d, table])"
    using split_on_sep [of "CHR ''/''" "''table''"] split_on_free [OF assms(3)] assms(5)
    by (auto simp: split_on_sep split: option.splits)
  moreover have "starts_with ?last ''table/''" by (simp add: starts_with_def)
  ultimately show ?thesis
    using assms(4) by (simp add: parse_table_arn_def Let_def split: option.split)
qed

theorem table_arn_roundtrip_witness:
  "parse_table_arn ''arn:aws:glue:us-east-1:123:table/amazon_security_lake/okta:x'' =
     Inr (''us-east-1'', Some ''amazon_security_lake'', ''okta:x'') \<and>
   parse_table_arn ''arn:aws:glue:us-east-1:123:table/okta_group'' = Inr (''us-east-1'', None, ''okta_group'')"
  using table_arn_roundtrip [of "''us-east-1''" "''123''" "''okta:x''" "Some ''amazon_security_lake''"]
    table_arn_roundtrip [of "''us-east-1''" "''123''" "''okta_group''" None]
  by (simp add: table_arn_def)

subsection \<open>Exit codes\<close>











end
