(* ===== verification/Spec2Isabelle.thy ===== *)
theory Spec2Isabelle
  imports OcsfSchema S3Store Delivery Wire Cli Reconcile Telemetry
begin

text \<open>
  Verification of the OCSF connector (\<open>src/\<close>), which ships the System Log of an Okta organisation into
  Amazon Security Lake.

  \<^bold>\<open>The program.\<close> A \<^emph>\<open>source\<close> reads pages of the log with a cursor that the vendor hands out; a \<^emph>\<open>mapper\<close>
  makes each record an OCSF event; a \<^emph>\<open>sink\<close> buffers events and writes them as Parquet objects, one per
  class and day; a \<^emph>\<open>state store\<close> holds the cursor and the uids already delivered. The run loop connects
  the four: it fetches, maps, drops what was delivered, buffers, flushes, and commits the cursor
  after the flush. Two modes run it, \<open>tail\<close> without an end and \<open>backfill\<close> over a range; the command line
  and the configuration start them and signals stop them. A script compares both ends.

  \<^bold>\<open>Theories and code.\<close> Each theory holds its component's data, its operations in the order of the code,
  and its lemmas and properties; names are those of the code where HOL allows.
  \<^item> \<open>Prelude\<close>: exceptions, effectful calls (\<open>io\<close>: a state to a result and a state, the state kept on a
    raise), the triples that reason about them, \<open>dict\<close>s as association lists.
  \<^item> \<open>Naming\<close> (\<open>sinks/naming.py\<close>), \<open>OcsfSchema\<close> (\<open>ocsf/schema.py\<close>, \<open>ocsf/v1_3_0.yaml\<close>): the custom sources
    and the schema, transcribed as constants; which prefixes are accepted.
  \<^item> \<open>Json\<close>, \<open>Calendar\<close>, \<open>Http\<close>: what the code uses of \<open>json\<close>, \<open>str\<close>, \<open>datetime\<close>, \<open>urllib\<close> and \<open>base64\<close>.
  \<^item> \<open>StateStore\<close> (\<open>state/store.py\<close>): the protocol, as the locales \<open>state_store\<close> and
    \<open>managed_state_store\<close>; \<open>MemoryStore\<close> (\<open>state/memory.py\<close>) and \<open>SqliteStore\<close> (\<open>state/sqlite.py\<close>)
    interpret them. SQLite is its rows and an open transaction; a commit is its statements, each of
    which may fail, and the process may die between any two. Shown: atomicity, the time to live of a
    uid, and that the two stores answer alike.
  \<^item> \<open>ObjectStore\<close> (\<open>sinks/objects.py\<close>, the locale \<open>object_store\<close>) and \<open>S3Store\<close> (\<open>sinks/s3.py\<close>): where an
    object lands, and the renewal of a provider role's credentials.
  \<^item> \<open>Domain\<close> (\<open>domain.py\<close>), \<open>LakeSink\<close> (\<open>sinks/security_lake.py\<close>): buffering, bucketing, the table of an
    object, the flush. Shown: what a flush stores, what a replay leaves, what blocks a flush.
  \<^item> \<open>RunLoop\<close> (\<open>runner/loop.py\<close>): \<open>run\<close> over the calls of the four parts (\<open>deps\<close>), any of which may raise;
    \<open>run_turn\<close> is one turn. Shown: the counters balance, a run with a page limit ends, and the rules
    (\<open>run_rule\<close>, \<open>deps_keep\<close>) by which later theories reason about a whole run.
  \<^item> \<open>Connector\<close>: why no event is lost, as the locale \<open>connector\<close>. It assumes of each call of a run what
    the call may do to the file, the objects and the buffer; from that alone a run keeps that what
    is before the cursor of any stream is in an object of a batch that no later flush overwrites.
  \<^item> \<open>Delivery\<close>: the locale on the loop over the SQLite store and the sink, in an environment that fails
    any operation, any object of a flush and any statement of a commit, over any number of process
    lives of any streams. Shown: what is before a stored cursor is in a stored object, a range that
    is exhausted is in the lake, and what running a finished range again can destroy.
  \<^item> \<open>OktaTable\<close> (\<open>mapping/okta_ocsf.yaml\<close>), \<open>OktaMapper\<close> (\<open>mapping/okta.py\<close>): the table and the mapping of a
    record. Shown: the mapping is a function of record and table, events are valid for their class,
    and, path by path, what of a record stays under \<open>unmapped\<close> and what is lost.
  \<^item> \<open>OktaAuth\<close> (\<open>sources/okta/auth.py\<close>): tokens, assertions, proofs of possession, and the protocol
    \<open>Authorizer\<close> as the locale \<open>authorizer\<close>; \<open>OktaSource\<close> (\<open>sources/okta/source.py\<close>): the opening queries,
    \<open>fetch\<close> with its retries and waits, the next link. Shown: proofs are bound and used once, tokens
    are renewed in time, waits are bounded, a fetch ends unless it is rate limited for ever.
  \<^item> \<open>Settings\<close> (\<open>config.py\<close>): the environment over the file, the checks, the text form of the roles.
  \<^item> \<open>Shutdown\<close> (\<open>runner/shutdown.py\<close>): the first signal and the second, the interruptible sleep, and
    that no handler is left behind. \<open>Modes\<close> (\<open>runner/modes.py\<close>): what is built from settings, the checks
    before a run, the run under signals. Shown: an accepted configuration can deliver, when a query
    is opened and with which bound, that a stored cursor decides, and how a run ends.
  \<^item> \<open>Wire\<close>: the program as \<open>assemble\<close> (\<open>runner/modes.py\<close>) puts it together, every part the model of its
    theory; its calls keep the laws of \<open>connector\<close>, with or without signals. Shown: from what Okta
    documents of its log and S3 of its objects, the program in either mode loses nothing, and a
    backfill that is exhausted has stored its range.
  \<^item> \<open>Cli\<close> (\<open>cli.py\<close>): progress lines and exit codes. \<open>Telemetry\<close> (\<open>telemetry/\<close>): the measurements.
  \<^item> \<open>Reconcile\<close> (\<open>scripts/reconcile.py\<close>): reading both ends of a window, the judgement, the exit code.

  \<^bold>\<open>How the parts are connected.\<close> A component that calls another is proved against the other's promises,
  as a locale with its interpretations (stores, objects, authorizers) or over the record of calls
  (\<open>deps\<close>, \<open>mode_env\<close>, \<open>cli_env\<close>). \<open>Delivery\<close> puts the loop, the SQLite store and the sink together, by
  an interpretation of \<open>connector\<close>, and \<open>Wire\<close> puts all of them together but the command line;
  \<open>Cli\<close> calls \<open>Modes\<close>, which calls \<open>RunLoop.run\<close>, \<open>OktaSource.start_tail\<close> and \<open>start_backfill\<close>,
  \<open>OktaMapper\<close>'s table, \<open>S3Store\<close> and \<open>Settings\<close>.

  \<^bold>\<open>Loops that may not end\<close> are partial functions to an option, None for never returning: \<open>run_loop\<close>,
  \<open>fetch_loop\<close>, \<open>read_pages\<close> and \<open>await_query\<close>. \<open>run_fuel\<close> and \<open>lives_with\<close> evaluate a run for the
  witnesses; what they return the loop returns (\<open>run_fuel_loop\<close>), so no bound enters a property.
  \<open>run_terminates\<close> and \<open>fetch_ends\<close> say when the first two end. In \<open>Wire\<close> a fetch that never returns is a
  cancelled one: such a process can only be killed.

  \<^bold>\<open>Parameters.\<close> Code outside the repository is an argument: the HTTP client, PyJWT, boto3 (STS, S3, Glue,
  Athena), pyarrow, SHA-256, \<open>datetime.fromisoformat\<close>, clocks, random sources, the file system,
  \<open>tomllib\<close> and pydantic's typing of a document, \<open>argparse\<close>, the event loop. What is assumed of them is
  a named hypothesis (such as \<open>jwt_laws\<close>, \<open>handler_laws\<close>, \<open>env_ok\<close>) with a witness.

  \<^bold>\<open>Not modelled.\<close> Rounding of Python floats (times are rationals); characters above 255 and case folding
  outside ASCII; locks and threads (one caller at a time, as the code documents); the wording of
  messages beyond the values they name; the yaml files are constants, reading them is not modelled;
  \<open>scripts/live_probe.py\<close> and \<open>scripts/s3_probe.py\<close>, which print what a live service answers. Inside
  an awaited call that a second signal cancels, the effect of the call is complete or that of a
  call that raised, never another part of it.
\<close>

end
